(* ===== verification/Prelude.thy ===== *)
theory Prelude
  imports Main "HOL-Library.Signed_Division" "HOL-Library.AList" "HOL-Library.Char_ord"
    "HOL-Library.List_Lexorder" "HOL-Library.Sublist" "HOL-Library.Multiset"
begin

text \<open>
  What every component of the development shares: the arithmetic of Go's 64-bit integers
  and of its \<open>time\<close> package, the laws of association lists used as tables, and the
  collections of rewrite rules the components add to.

  Integers are \<open>int\<close>; where an expression of the source can leave the 64-bit range the
  wrap-around is written out with \<open>wrap64\<close>. Division is Go's (and SQLite's) truncating
  division, \<open>sdiv\<close> of \<open>HOL-Library.Signed_Division\<close>. An instant is the number of
  nanoseconds since the Unix epoch.
\<close>

named_theorems store_defs "definitions of the store's statements and operations"
named_theorems keeps_rules "closure rules for predicates kept by database operations"

section \<open>64-bit integers\<close>

definition wrap64 :: "int \<Rightarrow> int" where
  "wrap64 x = (x + 2 ^ 63) mod 2 ^ 64 - 2 ^ 63"

definition int64 :: "int \<Rightarrow> bool" where
  "int64 x \<longleftrightarrow> - (2 ^ 63) \<le> x \<and> x < 2 ^ 63"

lemma wrap64_id: "int64 x \<Longrightarrow> wrap64 x = x"
  by (simp add: wrap64_def int64_def)

lemma int64_wrap64 [simp]: "int64 (wrap64 x)"
  using pos_mod_bound [of "2 ^ 64" "x + 2 ^ 63"] pos_mod_sign [of "2 ^ 64" "x + 2 ^ 63"]
  by (simp add: wrap64_def int64_def)

lemma sdiv_nonneg: "0 \<le> (a::int) \<Longrightarrow> 0 < b \<Longrightarrow> a sdiv b = a div b"
  by (simp add: signed_divide_int_def sgn_if)

text \<open>The start of the bucket an instant falls in: \<open>(ts / width) * width\<close>.\<close>

definition trunc_to :: "int \<Rightarrow> int \<Rightarrow> int" where
  "trunc_to w t = (t sdiv w) * w"

lemma trunc_to_bounds:
  assumes "0 \<le> t" and "0 < w"
  shows "trunc_to w t \<le> t" and "t < trunc_to w t + w" and "0 \<le> trunc_to w t"
proof -
  have eq: "trunc_to w t = t div w * w"
    using assms by (simp add: trunc_to_def sdiv_nonneg)
  have "t = t div w * w + t mod w"
    by simp
  moreover have "0 \<le> t mod w" "t mod w < w"
    using assms(2) by simp_all
  ultimately show "trunc_to w t \<le> t" and "t < trunc_to w t + w"
    using eq by linarith+
  show "0 \<le> trunc_to w t"
    using assms eq by (simp add: pos_imp_zdiv_nonneg_iff)
qed

lemma trunc_to_dvd: "w dvd trunc_to w t"
  by (simp add: trunc_to_def)

section \<open>Time\<close>

abbreviation Second :: int where "Second \<equiv> 1000000000"
abbreviation Minute :: int where "Minute \<equiv> 60000000000"

abbreviation maxDuration :: int where "maxDuration \<equiv> 9223372036854775807"
abbreviation minDuration :: int where "minDuration \<equiv> - 9223372036854775808"

text \<open>Go's zero \<open>time.Time\<close> is the first of January of year 1.\<close>

definition zeroTime :: int where
  "zeroTime = - 62135596800 * Second"

definition unix :: "int \<Rightarrow> int" where
  "unix t = t div Second"

text \<open>\<open>t.Sub(u)\<close> saturates at the ends of the \<open>Duration\<close> range.\<close>

definition time_sub :: "int \<Rightarrow> int \<Rightarrow> int" where
  "time_sub t u = max minDuration (min maxDuration (t - u))"

lemma unix_mono: "t \<le> u \<Longrightarrow> unix t \<le> unix u"
  by (simp add: unix_def zdiv_mono1)

lemma time_sub_less:
  "minDuration < d \<Longrightarrow> d \<le> maxDuration \<Longrightarrow> time_sub t u < d \<longleftrightarrow> t - u < d"
  by (auto simp: time_sub_def max_def min_def)

section \<open>Lists\<close>

lemma find_Some_mem: "find P xs = Some x \<Longrightarrow> x \<in> set xs \<and> P x"
  by (auto simp: find_Some_iff)

lemma find_distinct:
  assumes "distinct (map f xs)" and "x \<in> set xs"
  shows "find (\<lambda>y. f y = f x) xs = Some x"
  using assms by (induction xs) (auto simp: image_iff)

lemma find_map_inv:
  assumes "\<And>y. f (g y) = f y"
  shows "find (\<lambda>y. f y = k) (map g xs) = map_option g (find (\<lambda>y. f y = k) xs)"
  using assms by (induction xs) auto

lemma find_filter:
  "find P (filter Q xs) = find (\<lambda>x. P x \<and> Q x) xs"
  by (induction xs) auto

lemma distinct_map_filter_key: "distinct (map f xs) \<Longrightarrow> distinct (map f (filter P xs))"
  by (simp add: distinct_map_filter)

text \<open>
  What a range over a map, and a listing of a directory, may do with the entries: visit each
  once, in any order. The first come as they are listed.
\<close>

definition any_order :: "('a list \<Rightarrow> 'a list) \<Rightarrow> bool" where
  "any_order ord \<longleftrightarrow> (\<forall>xs. mset (ord xs) = mset xs)"

definition as_listed :: "'a list \<Rightarrow> 'a list" where
  "as_listed xs = xs"

lemma as_listed [simp]: "mset (as_listed xs) = mset xs" "set (as_listed xs) = set xs" "any_order as_listed"
  by (simp_all add: as_listed_def any_order_def)

lemma any_order_set: "any_order ord \<Longrightarrow> set (ord xs) = set xs"
  unfolding any_order_def by (metis set_mset_mset)

section \<open>Association lists as tables\<close>

text \<open>
  A keyed table is an association list. \<open>AList.update\<close> is an upsert that keeps a row's
  place and appends a new one, \<open>filter\<close> is a delete.
\<close>

lemma map_of_filter_key:
  "map_of (filter (\<lambda>(k, v). P k) t) k = (if P k then map_of t k else None)"
  by (induction t) auto

lemma distinct_filter_fst: "distinct (map fst t) \<Longrightarrow> distinct (map fst (filter P t))"
  by (simp add: distinct_map_filter)

lemma fst_set_update: "fst ` set (AList.update k v t) = insert k (fst ` set t)"
  by (induction t) auto

lemma fst_set_delete: "fst ` set (AList.delete k t) = fst ` set t - {k}"
  by (induction t) auto

lemma map_of_update: "map_of (AList.update k v t) k' = (if k' = k then Some v else map_of t k')"
  by (simp add: update_conv')

text \<open>
  A keyed table as its clients see it: a lookup and an upsert. Storing a list of entries with
  distinct keys, in any order, overrides exactly those keys.
\<close>

locale keyed_table =
  fixes lookup :: "'t \<Rightarrow> 'k \<Rightarrow> 'a option" and put :: "'k \<Rightarrow> 'a \<Rightarrow> 't \<Rightarrow> 't"
  assumes lookup_put: "lookup (put k v t) k' = (if k' = k then Some v else lookup t k')"
begin

abbreviation put_all :: "('k \<times> 'a) list \<Rightarrow> 't \<Rightarrow> 't" where
  "put_all ps t \<equiv> foldl (\<lambda>t (k, v). put k v t) t ps"

lemma lookup_put_all:
  assumes "distinct (map fst ps)"
  shows "lookup (put_all ps t) k = (case map_of ps k of None \<Rightarrow> lookup t k | Some v \<Rightarrow> Some v)"
  using assms
proof (induction ps arbitrary: t)
  case (Cons p ps)
  obtain k' v' where p: "p = (k', v')" by (cases p)
  have "k = k' \<Longrightarrow> map_of ps k = None"
    using Cons.prems by (auto simp: p map_of_eq_None_iff)
  then show ?case
    using Cons by (auto simp: p lookup_put split: option.split)
qed simp

lemma lookup_put_all_between:
  "lookup (put_all ps t) k = lookup t k \<or> (\<exists>v. (k, v) \<in> set ps \<and> lookup (put_all ps t) k = Some v)"
proof (induction ps rule: rev_induct)
  case (snoc p ps)
  then show ?case by (cases p) (auto simp: lookup_put)
qed simp

end

interpretation alist: keyed_table map_of AList.update
  by unfold_locales (simp add: map_of_update)

end
