(* ===== verification/Go_Strings.thy ===== *)
theory Go_Strings
  imports Prelude
begin

text \<open>
  The part of Go's \<open>strings\<close>, \<open>strconv\<close>, \<open>unicode\<close> and \<open>encoding/hex\<close> packages the
  program uses, and the two regular expressions it compiles. A Go string is its bytes, one
  \<open>char\<close> each; functions that work on runes decode UTF-8 the way Go does, an invalid
  byte counting as one rune U+FFFD of width 1.
\<close>

section \<open>Prefixes, suffixes and cuts\<close>

definition HasPrefix :: "string \<Rightarrow> string \<Rightarrow> bool" where
  "HasPrefix s p \<longleftrightarrow> take (length p) s = p"

definition HasSuffix :: "string \<Rightarrow> string \<Rightarrow> bool" where
  "HasSuffix s p \<longleftrightarrow> length p \<le> length s \<and> drop (length s - length p) s = p"

definition CutPrefix :: "string \<Rightarrow> string \<Rightarrow> string option" where
  "CutPrefix s p = (if HasPrefix s p then Some (drop (length p) s) else None)"

definition TrimPrefix :: "string \<Rightarrow> string \<Rightarrow> string" where
  "TrimPrefix s p = (if HasPrefix s p then drop (length p) s else s)"

definition TrimSuffix :: "string \<Rightarrow> string \<Rightarrow> string" where
  "TrimSuffix s p = (if HasSuffix s p then take (length s - length p) s else s)"

text \<open>\<open>strings.Cut\<close> at a one-character separator: before, after; \<open>None\<close> when absent.\<close>

fun Cut :: "string \<Rightarrow> char \<Rightarrow> (string \<times> string) option" where
  "Cut [] c = None"
| "Cut (x # xs) c =
     (if x = c then Some ([], xs)
      else map_option (\<lambda>(b, a). (x # b, a)) (Cut xs c))"

fun Split :: "string \<Rightarrow> char \<Rightarrow> string list" where
  "Split [] c = [[]]"
| "Split (x # xs) c =
     (if x = c then [] # Split xs c
      else (case Split xs c of [] \<Rightarrow> [[x]] | p # ps \<Rightarrow> (x # p) # ps))"

fun Join :: "string list \<Rightarrow> string \<Rightarrow> string" where
  "Join [] sep = []"
| "Join [x] sep = x"
| "Join (x # xs) sep = x @ sep @ Join xs sep"

fun Contains :: "string \<Rightarrow> string \<Rightarrow> bool" where
  "Contains [] p = (p = [])"
| "Contains (x # xs) p = (HasPrefix (x # xs) p \<or> Contains xs p)"

lemma HasPrefix_append [simp]: "HasPrefix (p @ s) p"
  by (simp add: HasPrefix_def)

lemma HasPrefix_iff: "HasPrefix s p \<longleftrightarrow> (\<exists>r. s = p @ r)"
  unfolding HasPrefix_def by (metis append_eq_conv_conj append_take_drop_id)

lemma HasSuffix_iff: "HasSuffix s p \<longleftrightarrow> (\<exists>r. s = r @ p)"
proof
  assume "HasSuffix s p"
  then show "\<exists>r. s = r @ p"
    unfolding HasSuffix_def by (metis append_take_drop_id)
qed (auto simp: HasSuffix_def)

lemma HasSuffix_append [simp]: "HasSuffix (s @ p) p"
  by (auto simp: HasSuffix_iff)

lemma CutPrefix_append [simp]: "CutPrefix (p @ s) p = Some s"
  by (simp add: CutPrefix_def)

lemma CutPrefix_Some: "CutPrefix s p = Some r \<longleftrightarrow> s = p @ r"
  by (auto simp: CutPrefix_def HasPrefix_iff)

lemma TrimSuffix_append [simp]: "TrimSuffix (s @ p) p = s"
  by (simp add: TrimSuffix_def)

lemma TrimSuffix_cases: "TrimSuffix s p = s \<or> s = TrimSuffix s p @ p"
  by (auto simp: TrimSuffix_def HasSuffix_iff)

lemma Cut_append: "c \<notin> set b \<Longrightarrow> Cut (b @ c # a) c = Some (b, a)"
  by (induction b) auto

lemma Cut_SomeD: "Cut s c = Some (b, a) \<Longrightarrow> s = b @ c # a \<and> c \<notin> set b"
  by (induction s arbitrary: b) (auto split: if_splits)

lemma Cut_Some: "Cut s c = Some (b, a) \<longleftrightarrow> s = b @ c # a \<and> c \<notin> set b"
  by (metis Cut_SomeD Cut_append)

lemma Cut_None: "Cut s c = None \<longleftrightarrow> c \<notin> set s"
  by (induction s) auto

lemma Split_ne [simp]: "Split s c \<noteq> []"
  by (induction s) (auto split: list.splits)

section \<open>UTF-8\<close>

definition byte :: "char \<Rightarrow> nat" where
  "byte c = of_char c"

definition cont :: "char \<Rightarrow> bool" where
  "cont c \<longleftrightarrow> 128 \<le> byte c \<and> byte c < 192"

definition between :: "char \<Rightarrow> nat \<Rightarrow> nat \<Rightarrow> bool" where
  "between c lo hi \<longleftrightarrow> lo \<le> byte c \<and> byte c \<le> hi"

definition RuneError :: nat where "RuneError = 65533"

text \<open>\<open>utf8.DecodeRune\<close> on a non-empty string: the rune and its width in bytes.\<close>

definition decode_rune :: "char \<Rightarrow> string \<Rightarrow> nat \<times> nat" where
  "decode_rune c s =
     (let b = byte c in
      if b < 128 then (b, 1)
      else if between c 194 223 then
        (case s of
           c1 # _ \<Rightarrow> if cont c1 then ((b - 192) * 64 + (byte c1 - 128), 2) else (RuneError, 1)
         | _ \<Rightarrow> (RuneError, 1))
      else if between c 224 239 then
        (case s of
           c1 # c2 # _ \<Rightarrow>
             if cont c2 \<and> (if b = 224 then between c1 160 191
                          else if b = 237 then between c1 128 159 else cont c1)
             then ((b - 224) * 4096 + (byte c1 - 128) * 64 + (byte c2 - 128), 3)
             else (RuneError, 1)
         | _ \<Rightarrow> (RuneError, 1))
      else if between c 240 244 then
        (case s of
           c1 # c2 # c3 # _ \<Rightarrow>
             if cont c2 \<and> cont c3 \<and> (if b = 240 then between c1 144 191
                          else if b = 244 then between c1 128 143 else cont c1)
             then ((b - 240) * 262144 + (byte c1 - 128) * 4096 + (byte c2 - 128) * 64
                     + (byte c3 - 128), 4)
             else (RuneError, 1)
         | _ \<Rightarrow> (RuneError, 1))
      else (RuneError, 1))"

text \<open>The runes of a string in order, each with the bytes it was decoded from.\<close>

function runes :: "string \<Rightarrow> (nat \<times> string) list" where
  "runes [] = []"
| "runes (c # s) =
     (case decode_rune c s of
        (r, w) \<Rightarrow> (r, c # take (w - 1) s) # runes (drop (w - 1) s))"
  by pat_completeness auto
termination
  by (relation "measure length") auto

lemma runes_bytes: "concat (map snd (runes s)) = s"
proof (induction s rule: runes.induct)
  case (2 c s)
  then show ?case by (cases "decode_rune c s") auto
qed simp

definition rune_is_space :: "nat \<Rightarrow> bool" where
  "rune_is_space r \<longleftrightarrow>
     (9 \<le> r \<and> r \<le> 13) \<or> r = 32 \<or> r = 133 \<or> r = 160 \<or> r = 5760 \<or> (8192 \<le> r \<and> r \<le> 8202)
     \<or> r = 8232 \<or> r = 8233 \<or> r = 8239 \<or> r = 8287 \<or> r = 12288"

definition rune_is_control :: "nat \<Rightarrow> bool" where
  "rune_is_control r \<longleftrightarrow> r < 32 \<or> (127 \<le> r \<and> r < 160)"

definition RuneCount :: "string \<Rightarrow> nat" where
  "RuneCount s = length (runes s)"

definition trim_runes :: "(nat \<times> string) list \<Rightarrow> (nat \<times> string) list" where
  "trim_runes rs =
     rev (dropWhile (rune_is_space \<circ> fst) (rev (dropWhile (rune_is_space \<circ> fst) rs)))"

definition TrimSpace :: "string \<Rightarrow> string" where
  "TrimSpace s = concat (map snd (trim_runes (runes s)))"

text \<open>\<open>strings.Fields\<close>: the maximal runs of runes that are not white space.\<close>

fun fields_from :: "string \<Rightarrow> (nat \<times> string) list \<Rightarrow> string list" where
  "fields_from cur [] = (if cur = [] then [] else [cur])"
| "fields_from cur ((r, b) # rs) =
     (if rune_is_space r then (if cur = [] then fields_from [] rs else cur # fields_from [] rs)
      else fields_from (cur @ b) rs)"

definition Fields :: "string \<Rightarrow> string list" where
  "Fields s = fields_from [] (runes s)"

text \<open>\<open>utf8.AppendRune\<close>: a surrogate or a value past the last code point encodes as U+FFFD.\<close>

definition encode_rune :: "nat \<Rightarrow> string" where
  "encode_rune r0 =
     (let r = (if 1114111 < r0 \<or> 55296 \<le> r0 \<and> r0 \<le> 57343 then RuneError else r0) in
      map char_of
        (if r < 128 then [r]
         else if r < 2048 then [192 + r div 64, 128 + r mod 64]
         else if r < 65536 then [224 + r div 4096, 128 + r div 64 mod 64, 128 + r mod 64]
         else [240 + r div 262144, 128 + r div 4096 mod 64, 128 + r div 64 mod 64, 128 + r mod 64]))"

lemma decode_rune_ascii: "byte c < 128 \<Longrightarrow> decode_rune c s = (byte c, 1)"
  by (simp add: decode_rune_def)

lemma runes_ascii: "\<forall>c \<in> set s. byte c < 128 \<Longrightarrow> runes s = map (\<lambda>c. (byte c, [c])) s"
  by (induction s) (simp_all add: decode_rune_ascii)

lemma trim_runes_id:
  assumes "\<forall>r \<in> set rs. \<not> rune_is_space (fst r)"
  shows "trim_runes rs = rs"
proof -
  have "dropWhile (rune_is_space \<circ> fst) ys = ys" if "set ys \<subseteq> set rs" for ys
    using that assms by (cases ys) auto
  then show ?thesis by (simp add: trim_runes_def)
qed

lemma TrimSpace_id:
  assumes "\<forall>r \<in> set (runes s). \<not> rune_is_space (fst r)"
  shows "TrimSpace s = s"
  by (simp add: TrimSpace_def trim_runes_id [OF assms] runes_bytes)

section \<open>Numbers\<close>

definition is_digit :: "char \<Rightarrow> bool" where
  "is_digit c \<longleftrightarrow> CHR ''0'' \<le> c \<and> c \<le> CHR ''9''"

definition digit_val :: "char \<Rightarrow> int" where
  "digit_val c = int (byte c) - 48"

definition dec_val :: "string \<Rightarrow> int" where
  "dec_val s = foldl (\<lambda>n c. 10 * n + digit_val c) 0 s"

text \<open>
  \<open>strconv.Atoi\<close> and \<open>strconv.ParseInt(s, 10, 64)\<close>: an optional sign, at least one
  digit, nothing else, and a value that fits 64 bits.
\<close>

definition ParseInt :: "string \<Rightarrow> int option" where
  "ParseInt s =
     (let (neg, ds) = (case s of
          c # cs \<Rightarrow> if c = CHR ''-'' then (True, cs) else if c = CHR ''+'' then (False, cs)
                    else (False, s)
        | [] \<Rightarrow> (False, []));
          v = (if neg then - dec_val ds else dec_val ds)
      in if ds \<noteq> [] \<and> list_all is_digit ds \<and> int64 v then Some v else None)"

fun nat_dec :: "nat \<Rightarrow> string" where
  "nat_dec n = (if n < 10 then [char_of (n + 48)]
                else nat_dec (n div 10) @ [char_of (n mod 10 + 48)])"

declare nat_dec.simps [simp del]

definition Itoa :: "int \<Rightarrow> string" where
  "Itoa n = (if n < 0 then CHR ''-'' # nat_dec (nat (- n)) else nat_dec (nat n))"

lemma is_digit_byte: "is_digit c \<longleftrightarrow> 48 \<le> byte c \<and> byte c \<le> 57"
  by (auto simp: is_digit_def byte_def less_eq_char_def)

lemma byte_char_of: "n < 256 \<Longrightarrow> byte (char_of n) = n"
  by (simp add: byte_def)

lemma digit_char: "d < 10 \<Longrightarrow> is_digit (char_of (d + 48 :: nat)) \<and> digit_val (char_of (d + 48)) = int d"
  by (simp add: is_digit_byte digit_val_def byte_char_of)

lemma dec_val_snoc [simp]: "dec_val (s @ [c]) = 10 * dec_val s + digit_val c"
  by (simp add: dec_val_def)

lemma nat_dec_digits: "nat_dec n \<noteq> [] \<and> list_all is_digit (nat_dec n) \<and> dec_val (nat_dec n) = int n"
proof (induction n rule: nat_dec.induct)
  case (1 n)
  show ?case
  proof (cases "n < 10")
    case True
    then show ?thesis
      using digit_char [of n] by (subst (1 2 3) nat_dec.simps) (simp add: dec_val_def)
  next
    case False
    moreover have "10 * int (n div 10) + int (n mod 10) = int n"
      by (simp add: zdiv_int zmod_int)
    ultimately show ?thesis
      using 1 digit_char [of "n mod 10"]
      by (subst (1 2 3) nat_dec.simps) simp
  qed
qed

lemma digit_not_sign: "is_digit c \<Longrightarrow> c \<noteq> CHR ''-'' \<and> c \<noteq> CHR ''+''"
  by (auto simp: is_digit_def less_eq_char_def)

lemma ParseInt_Itoa [simp]:
  assumes "int64 n"
  shows "ParseInt (Itoa n) = Some n"
proof -
  obtain c cs where cs: "nat_dec (nat \<bar>n\<bar>) = c # cs"
    using nat_dec_digits by (cases "nat_dec (nat \<bar>n\<bar>)") auto
  have dig: "list_all is_digit (c # cs)" "dec_val (c # cs) = \<bar>n\<bar>"
    using nat_dec_digits [of "nat \<bar>n\<bar>"] cs by auto
  then have "c \<noteq> CHR ''-''" "c \<noteq> CHR ''+''"
    using digit_not_sign by auto
  with assms cs dig show ?thesis
    by (auto simp: Itoa_def ParseInt_def Let_def abs_if split: if_splits)
qed

lemma ParseInt_range: "ParseInt s = Some n \<Longrightarrow> int64 n"
  by (auto simp: ParseInt_def Let_def split: list.splits if_splits)

section \<open>Hexadecimal\<close>

definition hex_digit :: "nat \<Rightarrow> char" where
  "hex_digit n = char_of (if n < 10 then n + 48 else n + 87)"

definition hex_encode :: "nat list \<Rightarrow> string" where
  "hex_encode bs = concat (map (\<lambda>b. [hex_digit (b div 16), hex_digit (b mod 16)]) bs)"

definition is_hex :: "char \<Rightarrow> bool" where
  "is_hex c \<longleftrightarrow> between c 48 57 \<or> between c 97 102 \<or> between c 65 70"

text \<open>
  \<open>strings.ToLower\<close>: bytes of an ASCII string one by one; otherwise rune by rune with the
  Unicode table, which is the parameter \<open>lower_rune\<close> (its ASCII part is fixed).
\<close>

definition lower_char :: "char \<Rightarrow> char" where
  "lower_char c = (if between c 65 90 then char_of (byte c + 32) else c)"

definition ToLower :: "(nat \<Rightarrow> nat) \<Rightarrow> string \<Rightarrow> string" where
  "ToLower lower_rune s =
     (if list_all (\<lambda>c. byte c < 128) s then map lower_char s
      else concat (map (\<lambda>(r, b). if r < 128 then map lower_char b else encode_rune (lower_rune r)) (runes s)))"

lemma length_hex_encode: "length (hex_encode bs) = 2 * length bs"
  by (induction bs) (simp_all add: hex_encode_def)

lemma hex_digit_hex: "n < 16 \<Longrightarrow> is_hex (hex_digit n) \<and> lower_char (hex_digit n) = hex_digit n"
  by (auto simp: is_hex_def hex_digit_def between_def byte_char_of lower_char_def)

section \<open>Names\<close>

definition is_lower :: "char \<Rightarrow> bool" where "is_lower c \<longleftrightarrow> between c 97 122"
definition is_upper :: "char \<Rightarrow> bool" where "is_upper c \<longleftrightarrow> between c 65 90"

section \<open>Lines\<close>

text \<open>
  A file read line by line with \<open>bufio.Scanner\<close>: its bytes and the error that ends them early,
  or no file at all. The scanner delivers lines without their ending, stops at one that does
  not fit its buffer, and then reports why it stopped.
\<close>

definition CR :: char where "CR = char_of (13 :: nat)"
definition LF :: char where "LF = char_of (10 :: nat)"

lemma CR_LF [simp]: "byte CR = 13" "byte LF = 10" "CR \<noteq> LF"
  by (simp_all add: CR_def LF_def byte_def)

definition MaxScanTokenSize :: nat where "MaxScanTokenSize = 65536"

definition raw_lines :: "string \<Rightarrow> string list" where
  "raw_lines s = (let ps = Split s LF in if List.last ps = [] then butlast ps else ps)"

definition dropCR :: "string \<Rightarrow> string" where
  "dropCR l = (if l \<noteq> [] \<and> List.last l = CR then butlast l else l)"

definition ScanLines :: "string \<Rightarrow> string option \<Rightarrow> string list \<times> string option" where
  "ScanLines s broken =
     (let ls = raw_lines s; fit = takeWhile (\<lambda>l. length l < MaxScanTokenSize) ls in
      (map dropCR fit, if length fit < length ls then Some ''bufio.Scanner: token too long'' else broken))"

text \<open>Strings of visible ASCII characters: trimming and scanning leave them alone.\<close>

definition plain :: "string \<Rightarrow> bool" where
  "plain s \<longleftrightarrow> list_all (\<lambda>c. 32 < byte c \<and> byte c < 127) s"

lemma plain_append [simp]: "plain (s @ t) \<longleftrightarrow> plain s \<and> plain t"
  by (simp add: plain_def)

lemma plain_Cons [simp]: "plain (c # s) \<longleftrightarrow> 32 < byte c \<and> byte c < 127 \<and> plain s" "plain []"
  by (auto simp: plain_def)

lemma TrimSpace_plain:
  assumes "plain s"
  shows "TrimSpace s = s"
proof (rule TrimSpace_id)
  have "\<forall>c \<in> set s. byte c < 128" using assms by (auto simp: plain_def list_all_iff)
  then show "\<forall>r \<in> set (runes s). \<not> rune_is_space (fst r)"
    using assms by (auto simp: runes_ascii plain_def list_all_iff rune_is_space_def)
qed

lemma plain_no_break: "plain s \<Longrightarrow> CR \<notin> set s \<and> LF \<notin> set s"
  by (auto simp: plain_def list_all_iff dest: bspec)

lemma Split_line: "c \<notin> set p \<Longrightarrow> Split (p @ c # s) c = p # Split s c"
  by (induction p) auto

lemma raw_lines_line: "LF \<notin> set p \<Longrightarrow> raw_lines (p @ LF # s) = p # raw_lines s"
  by (simp add: raw_lines_def Split_line Let_def)

lemma raw_lines_Nil [simp]: "raw_lines [] = []"
  by (simp add: raw_lines_def)

lemma raw_lines_concat:
  "\<forall>p \<in> set ps. LF \<notin> set p \<Longrightarrow> raw_lines (concat (map (\<lambda>p. p @ [LF]) ps)) = ps"
  by (induction ps) (simp_all add: raw_lines_line)

text \<open>A file written a line at a time is scanned a line at a time.\<close>

lemma ScanLines_concat:
  assumes "\<forall>p \<in> set ps. LF \<notin> set p \<and> CR \<notin> set p \<and> length p < MaxScanTokenSize"
  shows "ScanLines (concat (map (\<lambda>p. p @ [LF]) ps)) broken = (ps, broken)"
proof -
  have fit: "takeWhile (\<lambda>l. length l < MaxScanTokenSize) ps = ps" using assms by simp
  have "map dropCR ps = ps"
    using assms by (intro map_idI) (metis dropCR_def last_in_set)
  moreover have "raw_lines (concat (map (\<lambda>p. p @ [LF]) ps)) = ps" using assms by (intro raw_lines_concat) simp
  ultimately show ?thesis unfolding ScanLines_def Let_def by (simp only: fit) simp
qed

end
