(* ===== verification/Schema.thy ===== *)
theory Schema
  imports Go_Strings
begin

text \<open>
  The mother's tables (\<open>mother/store/schema.go\<close>), the Go structs their rows are read into
  (\<open>mother/store/servers.go\<close>, \<open>groups.go\<close>, \<open>motherupdate.go\<close>), and the way the store talks to
  its database: single statements, and transactions of statements.

  A table is the list of its rows, keyed by the column the schema declares as its key; the
  rollup tiers and the settings are association lists. The database engine is not part of
  the repository. What a statement written in the source does to the tables is modelled
  from the statement; whether the engine carries it out is the list \<open>faults\<close>: every call
  into the driver takes the next entry, \<open>None\<close> lets the call through, \<open>Some msg\<close> makes it
  fail with that message and without effect. An empty list is a healthy database. The
  sample values are of any type \<open>'v\<close>, with the order and the addition the tier's upsert
  uses; no law of float arithmetic is assumed.
\<close>

section \<open>Rows\<close>

record server =
  srv_ID :: int
  srv_Name :: string
  srv_Token :: string
  srv_Collectors :: "string list"
  srv_Hostname :: string
  srv_IP :: string
  srv_OS :: string
  srv_Arch :: string
  srv_AgentVersion :: string
  srv_LastPush :: int
  srv_Capabilities :: "string list"
  srv_DesiredVersion :: string
  srv_UpdateError :: string
  srv_UninstallRequestedAt :: int
  srv_UninstallError :: string
  srv_CreatedAt :: int

record heartbeat =
  hb_AgentVersion :: string
  hb_Hostname :: string
  hb_IP :: string
  hb_OS :: string
  hb_Arch :: string
  hb_UpdateError :: string
  hb_UninstallError :: string

record group_row =
  gr_id :: int
  gr_name :: string
  gr_created_at :: int

record group =
  g_ID :: int
  g_Name :: string
  g_ServerCount :: nat
  g_CreatedAt :: int

record 'v bucket =
  bk_min :: 'v
  bk_max :: 'v
  bk_sum :: 'v
  bk_cnt :: int

type_synonym rollup_key = "int \<times> string \<times> int"
type_synonym 'v tier = "(rollup_key \<times> 'v bucket) list"

record mother_update =
  mu_DesiredVersion :: string
  mu_StagedVersion :: string
  mu_Attempts :: int
  mu_Error :: string
  mu_RequestedAt :: int
  mu_AppliedAt :: int

record settings =
  Interval :: int
  HeartbeatMissThreshold :: int
  Retention1mDays :: int
  Retention1hDays :: int
  LiveWindowMinutes :: int

record 'v db =
  servers :: "server list"
  rollup_1m :: "'v tier"
  rollup_1h :: "'v tier"
  server_groups :: "group_row list"
  group_members :: "(int \<times> int) list"
  mother_row :: "mother_update option"
  settings_tab :: "(string \<times> string) list"
  faults :: "string option list"

definition empty_db :: "'v db" where
  "empty_db = \<lparr>servers = [], rollup_1m = [], rollup_1h = [], server_groups = [],
     group_members = [], mother_row = None, settings_tab = [], faults = []\<rparr>"

section \<open>Errors and calls into the driver\<close>

datatype store_error =
    ErrNotFound
  | ErrInvalidName
  | ErrInvalidGroupName
  | ErrDuplicateGroupName
  | ErrNonNumeric string string
  | ErrSql string

type_synonym ('v, 'a) op = "'v db \<Rightarrow> (store_error + 'a) \<times> 'v db"

definition ret :: "'a \<Rightarrow> ('v, 'a) op" where
  "ret a d = (Inr a, d)"

definition fail :: "store_error \<Rightarrow> ('v, 'a) op" where
  "fail e d = (Inl e, d)"

text \<open>\<open>x, err := m; if err != nil { return err }; k(x)\<close>\<close>

definition bnd :: "('v, 'a) op \<Rightarrow> ('a \<Rightarrow> ('v, 'b) op) \<Rightarrow> ('v, 'b) op" where
  "bnd m k d = (case m d of (Inl e, d') \<Rightarrow> (Inl e, d') | (Inr a, d') \<Rightarrow> k a d')"

text \<open>\<open>if err := m; err != nil { return handle(err) }\<close>\<close>

definition on_error :: "('v, 'a) op \<Rightarrow> (store_error \<Rightarrow> store_error) \<Rightarrow> ('v, 'a) op" where
  "on_error m h d = (case m d of (Inl e, d') \<Rightarrow> (Inl (h e), d') | (Inr a, d') \<Rightarrow> (Inr a, d'))"

definition take_fault :: "'v db \<Rightarrow> string option \<times> 'v db" where
  "take_fault d = (case faults d of [] \<Rightarrow> (None, d) | f # fs \<Rightarrow> (f, d\<lparr>faults := fs\<rparr>))"

text \<open>
  One statement outside a transaction, or inside one. The statement itself may be refused by
  a constraint of the schema, with the engine's message and no effect.
\<close>

definition exec :: "('v db \<Rightarrow> string + 'a \<times> 'v db) \<Rightarrow> ('v, 'a) op" where
  "exec s d = (case take_fault d of
       (Some e, d') \<Rightarrow> (Inl (ErrSql e), d')
     | (None, d') \<Rightarrow> (case s d' of Inl e \<Rightarrow> (Inl (ErrSql e), d') | Inr (a, d'') \<Rightarrow> (Inr a, d'')))"

definition query :: "('v db \<Rightarrow> 'a) \<Rightarrow> ('v, 'a) op" where
  "query f = exec (\<lambda>d. Inr (f d, d))"

definition modify :: "('v db \<Rightarrow> 'v db) \<Rightarrow> ('v, unit) op" where
  "modify f = exec (\<lambda>d. Inr ((), f d))"

text \<open>
  \<open>tx, err := db.Begin(); defer tx.Rollback(); ...; return tx.Commit()\<close>: an error on any
  path leaves the tables as they were before.
\<close>

definition in_tx :: "('v, 'a) op \<Rightarrow> ('v, 'a) op" where
  "in_tx body d = (case take_fault d of
       (Some e, d0) \<Rightarrow> (Inl (ErrSql e), d0)
     | (None, d0) \<Rightarrow> (case body d0 of
           (Inl e, d1) \<Rightarrow> (Inl e, d0\<lparr>faults := faults d1\<rparr>)
         | (Inr a, d1) \<Rightarrow> (case take_fault d1 of
               (Some e, d2) \<Rightarrow> (Inl (ErrSql e), d0\<lparr>faults := faults d2\<rparr>)
             | (None, d2) \<Rightarrow> (Inr a, d2))))"

section \<open>Laws of the calls\<close>

text \<open>What the tables hold, without the outcome of future calls.\<close>

definition tables :: "'v db \<Rightarrow> 'v db" where
  "tables d = d\<lparr>faults := []\<rparr>"

definition healthy :: "'v db \<Rightarrow> bool" where
  "healthy d \<longleftrightarrow> faults d = []"

lemma tables_upd_faults [simp]: "tables (d\<lparr>faults := fs\<rparr>) = tables d"
  by (simp add: tables_def)

lemma tables_idem [simp]: "tables (tables d) = tables d"
  by (simp add: tables_def)

lemma tables_sel [simp]:
  "servers (tables d) = servers d" "rollup_1m (tables d) = rollup_1m d"
  "rollup_1h (tables d) = rollup_1h d" "server_groups (tables d) = server_groups d"
  "group_members (tables d) = group_members d" "mother_row (tables d) = mother_row d"
  "settings_tab (tables d) = settings_tab d" "faults (tables d) = []"
  by (simp_all add: tables_def)

lemma tables_eqD:
  assumes "tables d = tables d'"
  shows "servers d = servers d'" "rollup_1m d = rollup_1m d'" "rollup_1h d = rollup_1h d'"
    "server_groups d = server_groups d'" "group_members d = group_members d'"
    "mother_row d = mother_row d'" "settings_tab d = settings_tab d'"
  using assms by (metis tables_sel)+

lemma tables_effect:
  assumes "tables d' = e"
  shows "servers d' = servers e" "rollup_1m d' = rollup_1m e" "rollup_1h d' = rollup_1h e"
    "server_groups d' = server_groups e" "group_members d' = group_members e"
    "mother_row d' = mother_row e" "settings_tab d' = settings_tab e"
  using assms [symmetric] by simp_all

lemma tables_eq_iff:
  "tables d = tables d' \<longleftrightarrow>
     servers d = servers d' \<and> rollup_1m d = rollup_1m d' \<and> rollup_1h d = rollup_1h d' \<and>
     server_groups d = server_groups d' \<and> group_members d = group_members d' \<and>
     mother_row d = mother_row d' \<and> settings_tab d = settings_tab d'"
  by (cases d; cases d') (auto simp: tables_def)

lemma healthy_tables: "healthy d \<Longrightarrow> tables d = d"
  by (simp add: healthy_def tables_def)

lemma take_fault_cases:
  obtains (ok) d' where "take_fault d = (None, d')" "tables d' = tables d"
  | (fault) e d' where "take_fault d = (Some e, d')" "tables d' = tables d"
proof (cases "faults d")
  case Nil
  then show ?thesis by (intro ok [of d]) (simp_all add: take_fault_def)
next
  case (Cons f fs)
  then show ?thesis
    by (cases f) (auto intro: ok [of "d\<lparr>faults := fs\<rparr>"] fault [of _ "d\<lparr>faults := fs\<rparr>"]
      simp: take_fault_def)
qed

lemma take_fault_healthy [simp]: "healthy d \<Longrightarrow> take_fault d = (None, d)"
  by (simp add: healthy_def take_fault_def)

lemma exec_healthy:
  "healthy d \<Longrightarrow> exec s d =
     (case s d of Inl e \<Rightarrow> (Inl (ErrSql e), d) | Inr (a, d') \<Rightarrow> (Inr a, d'))"
  by (simp add: exec_def)

lemma query_healthy [simp]: "healthy d \<Longrightarrow> query f d = (Inr (f d), d)"
  by (simp add: query_def exec_healthy)

lemma modify_healthy [simp]: "healthy d \<Longrightarrow> modify f d = (Inr (), f d)"
  by (simp add: modify_def exec_healthy)

lemma in_tx_healthy:
  "healthy d \<Longrightarrow> (\<And>a d'. body d = (Inr a, d') \<Longrightarrow> healthy d') \<Longrightarrow> in_tx body d =
     (case body d of (Inl e, d1) \<Rightarrow> (Inl e, d\<lparr>faults := faults d1\<rparr>) | (Inr a, d1) \<Rightarrow> (Inr a, d1))"
  by (auto simp: in_tx_def split: prod.splits sum.splits)

lemma bnd_ret [simp]: "bnd (ret a) k = k a"
  by (simp add: bnd_def ret_def fun_eq_iff)

lemma bnd_fail [simp]: "bnd (fail e) k = fail e"
  by (simp add: bnd_def fail_def fun_eq_iff)

lemma bnd_eq_Inr:
  "bnd m k d = (Inr b, d') \<longleftrightarrow> (\<exists>a d0. m d = (Inr a, d0) \<and> k a d0 = (Inr b, d'))"
  by (auto simp: bnd_def split: prod.splits sum.splits)

lemma bnd_eq_Inl:
  "bnd m k d = (Inl e, d') \<longleftrightarrow>
     m d = (Inl e, d') \<or> (\<exists>a d0. m d = (Inr a, d0) \<and> k a d0 = (Inl e, d'))"
  by (auto simp: bnd_def split: prod.splits sum.splits)

subsection \<open>What a call that succeeds did\<close>

lemma query_Inr: "query f d = (Inr a, d') \<Longrightarrow> tables d' = tables d \<and> (\<exists>d0. tables d0 = tables d \<and> a = f d0)"
  by (rule take_fault_cases [of d]) (auto simp: query_def exec_def)

lemma query_Inl: "query f d = (Inl e, d') \<Longrightarrow> tables d' = tables d \<and> (\<exists>m. e = ErrSql m)"
  by (rule take_fault_cases [of d]) (auto simp: query_def exec_def)

lemma exec_Inr:
  assumes "exec s d = (Inr a, d')"
  obtains d0 where "tables d0 = tables d" and "s d0 = Inr (a, d')"
  using assms by (cases rule: take_fault_cases [of d]) (auto simp: exec_def split: sum.splits)

lemma exec_Inl:
  assumes "exec s d = (Inl e, d')"
  shows "tables d' = tables d" and "\<exists>m. e = ErrSql m"
  using assms by (cases rule: take_fault_cases [of d]; auto simp: exec_def split: sum.splits)+

subsection \<open>Predicates kept by an operation, whatever fails\<close>

definition table_pred :: "('v db \<Rightarrow> bool) \<Rightarrow> bool" where
  "table_pred P \<longleftrightarrow> (\<forall>d d'. tables d = tables d' \<longrightarrow> P d = P d')"

definition keeps :: "('v db \<Rightarrow> bool) \<Rightarrow> ('v, 'a) op \<Rightarrow> bool" where
  "keeps P m \<longleftrightarrow> (\<forall>d. P d \<longrightarrow> P (snd (m d)))"

lemma keepsD: "keeps P m \<Longrightarrow> P d \<Longrightarrow> P (snd (m d))"
  by (simp add: keeps_def)

lemma table_predI: "(\<And>d. P (tables d) = P d) \<Longrightarrow> table_pred P"
  unfolding table_pred_def by metis

lemma table_predD: "table_pred P \<Longrightarrow> P d \<Longrightarrow> tables d' = tables d \<Longrightarrow> P d'"
  unfolding table_pred_def by blast

lemma keeps_ret [keeps_rules]: "keeps P (ret a)"
  by (simp add: keeps_def ret_def)

lemma keeps_fail [keeps_rules]: "keeps P (fail e)"
  by (simp add: keeps_def fail_def)

lemma keeps_bnd [keeps_rules]: "keeps P m \<Longrightarrow> (\<And>a. keeps P (k a)) \<Longrightarrow> keeps P (bnd m k)"
  by (force simp: keeps_def bnd_def split: prod.splits sum.splits)

lemma keeps_on_error [keeps_rules]: "keeps P m \<Longrightarrow> keeps P (on_error m h)"
  by (force simp: keeps_def on_error_def split: prod.splits sum.splits)

lemma keeps_if [keeps_rules]: "keeps P m \<Longrightarrow> keeps P m' \<Longrightarrow> keeps P (if b then m else m')"
  by simp

lemma keeps_exec:
  assumes P: "table_pred P" and s: "\<And>d a d'. P d \<Longrightarrow> s d = Inr (a, d') \<Longrightarrow> P d'"
  shows "keeps P (exec s)"
  unfolding keeps_def
proof (intro allI impI)
  fix d assume "P d"
  obtain f d0 where tf: "take_fault d = (f, d0)" "tables d0 = tables d"
    by (cases rule: take_fault_cases [of d]) auto
  with P \<open>P d\<close> have "P d0" by (auto intro: table_predD)
  with s tf show "P (snd (exec s d))"
    by (auto simp: exec_def split: option.splits sum.splits)
qed

lemma keeps_query [keeps_rules]: "table_pred P \<Longrightarrow> keeps P (query f)"
  unfolding query_def by (rule keeps_exec) auto

lemma keeps_modify [keeps_rules]:
  "table_pred P \<Longrightarrow> (\<And>d. P d \<Longrightarrow> P (f d)) \<Longrightarrow> keeps P (modify f)"
  unfolding modify_def by (rule keeps_exec) auto

lemma keeps_tx [keeps_rules]:
  assumes P: "table_pred P" and b: "keeps P body"
  shows "keeps P (in_tx body)"
  unfolding keeps_def
proof (intro allI impI)
  fix d assume "P d"
  obtain f d0 where tf: "take_fault d = (f, d0)" "tables d0 = tables d"
    by (cases rule: take_fault_cases [of d]) auto
  with P \<open>P d\<close> have d0: "P d0" by (auto intro: table_predD)
  obtain r d1 where body: "body d0 = (r, d1)" by fastforce
  with keepsD [OF b d0] have d1: "P d1" by simp
  obtain f' d2 where tf': "take_fault d1 = (f', d2)" "tables d2 = tables d1"
    by (cases rule: take_fault_cases [of d1]) auto
  have "P (d0\<lparr>faults := fs\<rparr>)" for fs
    by (rule table_predD [OF P d0]) simp
  moreover have "P d2" by (rule table_predD [OF P d1]) (rule tf'(2))
  ultimately show "P (snd (in_tx body d))"
    using d0 tf(1) tf'(1) body by (auto simp: in_tx_def split: option.splits sum.splits)
qed

subsection \<open>All or nothing\<close>

definition atomic_op :: "('v, 'a) op \<Rightarrow> bool" where
  "atomic_op m \<longleftrightarrow> (\<forall>d e d'. m d = (Inl e, d') \<longrightarrow> tables d' = tables d)"

definition read_only :: "('v, 'a) op \<Rightarrow> bool" where
  "read_only m \<longleftrightarrow> (\<forall>d. tables (snd (m d)) = tables d)"

lemma atomic_opD: "atomic_op m \<Longrightarrow> m d = (Inl e, d') \<Longrightarrow> tables d' = tables d"
  by (simp add: atomic_op_def)

lemma atomic_exec: "atomic_op (exec s)"
  by (auto simp: atomic_op_def dest: exec_Inl)

lemma atomic_modify: "atomic_op (modify f)"
  by (simp add: modify_def atomic_exec)

lemma read_only_query: "read_only (query f)"
  unfolding read_only_def
  by (metis query_Inl query_Inr prod.collapse sum.exhaust_sel)

lemma read_only_ret: "read_only (ret a)" and read_only_fail: "read_only (fail e)"
  by (simp_all add: read_only_def ret_def fail_def)

lemma read_only_bnd: "read_only m \<Longrightarrow> (\<And>a. read_only (k a)) \<Longrightarrow> read_only (bnd m k)"
  unfolding read_only_def bnd_def by (metis (mono_tags, lifting) old.prod.case snd_conv
      sum.case_eq_if surj_pair)

lemmas read_only_rules = read_only_query read_only_ret read_only_fail read_only_bnd

lemma read_onlyD: "read_only m \<Longrightarrow> m d = (r, d') \<Longrightarrow> tables d' = tables d"
  unfolding read_only_def by (metis snd_conv)

lemma atomic_fail: "atomic_op (fail e)"
  by (simp add: atomic_op_def fail_def)

lemma atomic_ret: "atomic_op (ret e)"
  by (simp add: atomic_op_def ret_def)

lemma atomic_on_error: "atomic_op m \<Longrightarrow> atomic_op (on_error m h)"
  by (auto simp: atomic_op_def on_error_def split: prod.splits sum.splits)

lemma atomic_bnd: "read_only m \<Longrightarrow> (\<And>a. atomic_op (k a)) \<Longrightarrow> atomic_op (bnd m k)"
  unfolding atomic_op_def read_only_def bnd_eq_Inl by (metis snd_conv)

lemma atomic_tx: "atomic_op (in_tx body)"
  unfolding atomic_op_def
proof (intro allI impI)
  fix d e d' assume tx: "in_tx body d = (Inl e, d')"
  obtain f d0 where "take_fault d = (f, d0)" "tables d0 = tables d"
    by (cases rule: take_fault_cases [of d]) auto
  with tx show "tables d' = tables d"
    by (auto simp: in_tx_def split: option.splits prod.splits sum.splits)
qed

lemma in_tx_Inr:
  assumes "in_tx body d = (Inr a, d')"
  obtains d0 d1 where "tables d0 = tables d" "body d0 = (Inr a, d1)" "tables d' = tables d1"
proof -
  obtain f d0 where tf: "take_fault d = (f, d0)" "tables d0 = tables d"
    by (cases rule: take_fault_cases [of d]) auto
  obtain r d1 where body: "body d0 = (r, d1)" by fastforce
  obtain f' d2 where tf': "take_fault d1 = (f', d2)" "tables d2 = tables d1"
    by (cases rule: take_fault_cases [of d1]) auto
  show ?thesis
    using assms tf tf' body that
    by (auto simp: in_tx_def split: option.splits sum.splits)
qed

text \<open>
  The contract of an operation that commits as a whole: after an error nothing has changed,
  after a success exactly its effect has. It is what makes retrying safe.
\<close>

locale committed =
  fixes run :: "('v, 'a) op" and effect :: "'v db \<Rightarrow> 'v db"
  assumes error_keeps: "run d = (Inl e, d') \<Longrightarrow> tables d' = tables d"
    and success_effect: "run d = (Inr a, d') \<Longrightarrow> tables d' = effect (tables d)"
begin

lemma outcome: "tables (snd (run d)) = tables d \<or> tables (snd (run d)) = effect (tables d)"
proof (cases "run d")
  case (Pair r d')
  then show ?thesis by (cases r) (auto dest: error_keeps success_effect)
qed

lemma outcome_of:
  assumes "\<And>d. g (tables d) = g d"
  shows "g (snd (run d)) = g d \<or> g (snd (run d)) = g (effect (tables d))"
  using outcome [of d] assms by metis

text \<open>The effect of calling again after every failure is the effect of one call.\<close>

fun retry :: "nat \<Rightarrow> ('v, 'a) op" where
  "retry 0 d = run d"
| "retry (Suc n) d = (case run d of (Inl e, d') \<Rightarrow> retry n d' | (Inr a, d') \<Rightarrow> (Inr a, d'))"

lemma retry_once: "retry n d = (Inr a, d') \<Longrightarrow> tables d' = effect (tables d)"
proof (induction n arbitrary: d)
  case 0
  then show ?case by (auto dest: success_effect)
next
  case (Suc n)
  then show ?case
    by (fastforce split: prod.splits sum.splits dest: error_keeps success_effect)
qed

end

end
