(* ===== verification/Servers.thy ===== *)
theory Servers
  imports Schema
begin

text \<open>
  The server rows: \<open>mother/store/servers.go\<close> and \<open>mother/store/uninstall.go\<close>. One
  definition per function; the row id of an insert is chosen by the engine and is the
  parameter \<open>alloc\<close>, the token's random bytes and the clock reading are arguments.
  The lemmas give the effect of every operation on the tables, on its success and on its
  error branch.
\<close>

section \<open>Names and tokens\<close>

definition DefaultCollectors :: "string list" where
  "DefaultCollectors = [''cpu'', ''memory'', ''uptime'', ''disk'']"

definition name_char :: "char \<Rightarrow> bool" where
  "name_char c \<longleftrightarrow> is_upper c \<or> is_lower c \<or> is_digit c \<or> c \<in> {CHR ''.'', CHR ''_'', CHR ''-''}"

definition validName :: "string \<Rightarrow> bool" where
  "validName s \<longleftrightarrow> 1 \<le> length s \<and> length s \<le> 64 \<and> list_all name_char s"

definition newToken :: "nat list \<Rightarrow> string" where
  "newToken b = ''tk_'' @ hex_encode b"

section \<open>Operations\<close>

definition insert_server :: "(int list \<Rightarrow> int) \<Rightarrow> server \<Rightarrow> 'v db \<Rightarrow> string + int \<times> 'v db" where
  "insert_server alloc srv d =
     (if \<exists>s \<in> set (servers d). srv_Name s = srv_Name srv
      then Inl ''UNIQUE constraint failed: servers.name''
      else if \<exists>s \<in> set (servers d). srv_Token s = srv_Token srv
      then Inl ''UNIQUE constraint failed: servers.token''
      else let i = alloc (map srv_ID (servers d))
           in Inr (i, d\<lparr>servers := servers d @ [srv\<lparr>srv_ID := i\<rparr>]\<rparr>))"

definition new_server :: "string \<Rightarrow> string \<Rightarrow> int \<Rightarrow> server" where
  "new_server name token now = \<lparr>srv_ID = 0, srv_Name = name, srv_Token = token,
     srv_Collectors = DefaultCollectors, srv_Hostname = '''', srv_IP = '''', srv_OS = '''',
     srv_Arch = '''', srv_AgentVersion = '''', srv_LastPush = 0, srv_Capabilities = [],
     srv_DesiredVersion = '''', srv_UpdateError = '''', srv_UninstallRequestedAt = 0,
     srv_UninstallError = '''', srv_CreatedAt = now\<rparr>"

definition AddServer ::
  "(int list \<Rightarrow> int) \<Rightarrow> nat list \<Rightarrow> int \<Rightarrow> string \<Rightarrow> ('v, server) op" where
  "AddServer alloc rnd now name =
     (if \<not> validName name then fail ErrInvalidName
      else let srv = new_server name (newToken rnd) (unix now)
           in bnd (exec (insert_server alloc srv)) (\<lambda>i. ret (srv\<lparr>srv_ID := i\<rparr>)))"

definition select_server :: "(server \<Rightarrow> bool) \<Rightarrow> ('v, server) op" where
  "select_server P =
     bnd (query (\<lambda>d. find P (servers d)))
         (\<lambda>r. case r of None \<Rightarrow> fail ErrNotFound | Some s \<Rightarrow> ret s)"

definition ServerByToken :: "string \<Rightarrow> ('v, server) op" where
  "ServerByToken token = select_server (\<lambda>s. srv_Token s = token)"

definition ServerByID :: "int \<Rightarrow> ('v, server) op" where
  "ServerByID i = select_server (\<lambda>s. srv_ID s = i)"

definition ServerByName :: "string \<Rightarrow> ('v, server) op" where
  "ServerByName name = select_server (\<lambda>s. srv_Name s = name)"

definition ListServers :: "('v, server list) op" where
  "ListServers = query (\<lambda>d. sort_key srv_Name (servers d))"

text \<open>\<open>UPDATE servers SET ... WHERE id = ?\<close>\<close>

definition upd_server :: "int \<Rightarrow> (server \<Rightarrow> server) \<Rightarrow> 'v db \<Rightarrow> 'v db" where
  "upd_server i f d = d\<lparr>servers := map (\<lambda>s. if srv_ID s = i then f s else s) (servers d)\<rparr>"

definition keep_if_empty :: "string \<Rightarrow> string \<Rightarrow> string" where
  "keep_if_empty new old = (if new \<noteq> '''' then new else old)"

definition touch :: "heartbeat \<Rightarrow> int \<Rightarrow> server \<Rightarrow> server" where
  "touch hb now s = s\<lparr>
     srv_AgentVersion := hb_AgentVersion hb, srv_LastPush := now,
     srv_UpdateError := hb_UpdateError hb, srv_UninstallError := hb_UninstallError hb,
     srv_Hostname := keep_if_empty (hb_Hostname hb) (srv_Hostname s),
     srv_IP := keep_if_empty (hb_IP hb) (srv_IP s),
     srv_OS := keep_if_empty (hb_OS hb) (srv_OS s),
     srv_Arch := keep_if_empty (hb_Arch hb) (srv_Arch s)\<rparr>"

definition TouchServer :: "int \<Rightarrow> heartbeat \<Rightarrow> int \<Rightarrow> ('v, unit) op" where
  "TouchServer i hb now = modify (upd_server i (touch hb now))"

text \<open>An update that reports how many rows it matched.\<close>

definition upd_server_count :: "int \<Rightarrow> (server \<Rightarrow> server) \<Rightarrow> ('v, nat) op" where
  "upd_server_count i f =
     exec (\<lambda>d. Inr (length (filter (\<lambda>s. srv_ID s = i) (servers d)), upd_server i f d))"

definition require_rows :: "nat \<Rightarrow> ('v, unit) op" where
  "require_rows n = (if n = 0 then fail ErrNotFound else ret ())"

definition SetDesiredVersion :: "int \<Rightarrow> string \<Rightarrow> ('v, unit) op" where
  "SetDesiredVersion i version =
     bnd (upd_server_count i (\<lambda>s. s\<lparr>srv_DesiredVersion := version, srv_UpdateError := ''''\<rparr>))
         require_rows"

definition SetCapabilities :: "int \<Rightarrow> string list \<Rightarrow> ('v, unit) op" where
  "SetCapabilities i capabilities =
     (if length capabilities = 0 then ret ()
      else modify (upd_server i (\<lambda>s. s\<lparr>srv_Capabilities := capabilities\<rparr>)))"

definition SetCollectors :: "int \<Rightarrow> string list \<Rightarrow> ('v, unit) op" where
  "SetCollectors i collectors =
     modify (upd_server i (\<lambda>s. s\<lparr>srv_Collectors := collectors\<rparr>))"

definition del_server :: "int \<Rightarrow> 'v db \<Rightarrow> 'v db" where
  "del_server i d = d\<lparr>servers := filter (\<lambda>s. srv_ID s \<noteq> i) (servers d)\<rparr>"

definition del_rollup_1m :: "(rollup_key \<Rightarrow> bool) \<Rightarrow> 'v db \<Rightarrow> 'v db" where
  "del_rollup_1m P d = d\<lparr>rollup_1m := filter (\<lambda>(k, b). \<not> P k) (rollup_1m d)\<rparr>"

definition del_rollup_1h :: "(rollup_key \<Rightarrow> bool) \<Rightarrow> 'v db \<Rightarrow> 'v db" where
  "del_rollup_1h P d = d\<lparr>rollup_1h := filter (\<lambda>(k, b). \<not> P k) (rollup_1h d)\<rparr>"

definition del_members :: "(int \<times> int \<Rightarrow> bool) \<Rightarrow> 'v db \<Rightarrow> 'v db" where
  "del_members P d = d\<lparr>group_members := filter (\<lambda>m. \<not> P m) (group_members d)\<rparr>"

definition DeleteServer :: "int \<Rightarrow> ('v, unit) op" where
  "DeleteServer i = in_tx (
     bnd (modify (del_server i)) (\<lambda>_.
     bnd (modify (del_rollup_1m (\<lambda>(sid, m, w). sid = i))) (\<lambda>_.
     bnd (modify (del_rollup_1h (\<lambda>(sid, m, w). sid = i))) (\<lambda>_.
     modify (del_members (\<lambda>(g, sid). sid = i))))))"

definition RequestUninstall :: "int \<Rightarrow> int \<Rightarrow> ('v, unit) op" where
  "RequestUninstall now i =
     bnd (upd_server_count i (\<lambda>s. s\<lparr>srv_UninstallRequestedAt :=
            (if srv_UninstallRequestedAt s = 0 then unix now else srv_UninstallRequestedAt s)\<rparr>))
         require_rows"

section \<open>Effects\<close>

text \<open>The row effect of deleting a server, in one step.\<close>

definition purge_server :: "int \<Rightarrow> 'v db \<Rightarrow> 'v db" where
  "purge_server i d = d\<lparr>
     servers := filter (\<lambda>s. srv_ID s \<noteq> i) (servers d),
     rollup_1m := filter (\<lambda>((sid, m, w), b). sid \<noteq> i) (rollup_1m d),
     rollup_1h := filter (\<lambda>((sid, m, w), b). sid \<noteq> i) (rollup_1h d),
     group_members := filter (\<lambda>(g, sid). sid \<noteq> i) (group_members d)\<rparr>"

definition table_fun :: "('v db \<Rightarrow> 'v db) \<Rightarrow> bool" where
  "table_fun f \<longleftrightarrow> (\<forall>d. tables (f d) = f (tables d))"

lemma table_fun_upd_server [simp]: "table_fun (upd_server i f)"
  by (simp add: table_fun_def upd_server_def tables_def)

lemma table_fun_dels [simp]:
  "table_fun (del_server i)" "table_fun (del_rollup_1m P)" "table_fun (del_rollup_1h P)"
  "table_fun (del_members Q)"
  by (simp_all add: table_fun_def del_server_def del_rollup_1m_def del_rollup_1h_def
        del_members_def tables_def)

lemma table_fun_cong:
  assumes "table_fun f" and "tables d = tables d'"
  shows "tables (f d) = tables (f d')"
  using assms unfolding table_fun_def by metis

lemma modify_Inr: "table_fun f \<Longrightarrow> modify f d = (Inr a, d') \<Longrightarrow> tables d' = f (tables d)"
  unfolding modify_def by (erule exec_Inr) (auto simp: table_fun_def)

lemma committed_modify: "table_fun f \<Longrightarrow> committed (modify f) f"
  by unfold_locales (auto dest: modify_Inr atomic_opD [OF atomic_modify])

lemma upd_server_count_Inr:
  assumes "upd_server_count i f d = (Inr n, d')"
  shows "n = length (filter (\<lambda>s. srv_ID s = i) (servers d))"
    and "tables d' = upd_server i f (tables d)"
proof -
  from assms obtain d0 where "tables d0 = tables d"
    and "n = length (filter (\<lambda>s. srv_ID s = i) (servers d0))" "d' = upd_server i f d0"
    unfolding upd_server_count_def by (auto elim!: exec_Inr)
  then show "n = length (filter (\<lambda>s. srv_ID s = i) (servers d))"
    and "tables d' = upd_server i f (tables d)"
    using table_fun_upd_server [of i f] unfolding table_fun_def by (metis tables_sel(1))+
qed

lemma upd_server_absent:
  "\<forall>s \<in> set (servers d). srv_ID s \<noteq> i \<Longrightarrow> upd_server i f d = d"
  by (simp add: upd_server_def map_idI)

text \<open>
  An update followed by the row-count check commits as a whole: when it reports a missing
  row there was no row to change.
\<close>

lemma committed_upd_count:
  "committed (bnd (upd_server_count i f) require_rows) (upd_server i f)"
proof
  fix d e d' assume run: "bnd (upd_server_count i f) require_rows d = (Inl e, d')"
  then consider "upd_server_count i f d = (Inl e, d')"
    | n where "upd_server_count i f d = (Inr n, d')" "n = 0"
    by (auto simp: bnd_eq_Inl require_rows_def ret_def fail_def split: if_splits)
  then show "tables d' = tables d"
  proof cases
    case 1
    then show ?thesis by (auto simp: upd_server_count_def dest: exec_Inl)
  next
    case 2
    with upd_server_count_Inr [OF 2(1)] have "\<forall>s \<in> set (servers (tables d)). srv_ID s \<noteq> i"
      by (simp add: filter_empty_conv)
    then show ?thesis
      using upd_server_count_Inr(2) [OF 2(1)] by (simp add: upd_server_absent)
  qed
next
  fix d a d' assume run: "bnd (upd_server_count i f) require_rows d = (Inr a, d')"
  then show "tables d' = upd_server i f (tables d)"
    by (auto simp: bnd_eq_Inr require_rows_def ret_def fail_def split: if_splits
        dest: upd_server_count_Inr)
qed

interpretation set_desired: committed "SetDesiredVersion i v"
  "upd_server i (\<lambda>s. s\<lparr>srv_DesiredVersion := v, srv_UpdateError := ''''\<rparr>)"
  unfolding SetDesiredVersion_def by (rule committed_upd_count)

interpretation request_uninstall: committed "RequestUninstall now i"
  "upd_server i (\<lambda>s. s\<lparr>srv_UninstallRequestedAt :=
     (if srv_UninstallRequestedAt s = 0 then unix now else srv_UninstallRequestedAt s)\<rparr>)"
  unfolding RequestUninstall_def by (rule committed_upd_count)

interpretation touch_server: committed "TouchServer i hb now" "upd_server i (touch hb now)"
  unfolding TouchServer_def by (rule committed_modify) simp

interpretation set_collectors: committed "SetCollectors i cs"
  "upd_server i (\<lambda>s. s\<lparr>srv_Collectors := cs\<rparr>)"
  unfolding SetCollectors_def by (rule committed_modify) simp

interpretation set_capabilities: committed "SetCapabilities i cs"
  "if cs = [] then id else upd_server i (\<lambda>s. s\<lparr>srv_Capabilities := cs\<rparr>)"
proof (cases "cs = []")
  case True
  then show "committed (SetCapabilities i cs)
      (if cs = [] then id else upd_server i (\<lambda>s. s\<lparr>srv_Capabilities := cs\<rparr>))"
    by unfold_locales (simp_all add: SetCapabilities_def ret_def)
next
  case False
  then show "committed (SetCapabilities i cs)
      (if cs = [] then id else upd_server i (\<lambda>s. s\<lparr>srv_Capabilities := cs\<rparr>))"
    by (simp add: SetCapabilities_def committed_modify)
qed

lemma purge_server_steps:
  "purge_server i d =
     del_members (\<lambda>(g, sid). sid = i) (del_rollup_1h (\<lambda>(sid, m, w). sid = i)
       (del_rollup_1m (\<lambda>(sid, m, w). sid = i) (del_server i d)))"
  by (simp add: purge_server_def del_server_def del_rollup_1m_def del_rollup_1h_def
      del_members_def case_prod_unfold)

interpretation delete_server: committed "DeleteServer i" "purge_server i"
proof
  fix d e d' assume "DeleteServer i d = (Inl e, d')"
  then show "tables d' = tables d"
    unfolding DeleteServer_def by (rule atomic_opD [OF atomic_tx])
next
  fix d a d' assume "DeleteServer i d = (Inr a, d')"
  then show "tables d' = purge_server i (tables d)"
    unfolding DeleteServer_def purge_server_steps
    by (elim in_tx_Inr) (auto simp: bnd_eq_Inr dest!: modify_Inr [rotated])
qed

lemma AddServer_Inr:
  assumes "AddServer alloc rnd now name d = (Inr srv, d')"
  shows "validName name"
    and "srv = (new_server name (newToken rnd) (unix now))\<lparr>srv_ID := alloc (map srv_ID (servers d))\<rparr>"
    and "\<forall>s \<in> set (servers d). srv_Name s \<noteq> name \<and> srv_Token s \<noteq> newToken rnd"
    and "tables d' = tables (d\<lparr>servers := servers d @ [srv]\<rparr>)"
proof -
  let ?srv = "new_server name (newToken rnd) (unix now)"
  have sel [simp]: "srv_Name ?srv = name" "srv_Token ?srv = newToken rnd"
    by (simp_all add: new_server_def)
  from assms show "validName name" by (auto simp: AddServer_def fail_def split: if_splits)
  from assms obtain d0 i where d0: "tables d0 = tables d"
    and ins: "insert_server alloc ?srv d0 = Inr (i, d')" and srv: "srv = ?srv\<lparr>srv_ID := i\<rparr>"
    by (auto simp: AddServer_def Let_def bnd_eq_Inr ret_def fail_def elim!: exec_Inr split: if_splits)
  from d0 have same: "servers d0 = servers d" by (rule tables_eqD)
  from ins same show "\<forall>s \<in> set (servers d). srv_Name s \<noteq> name \<and> srv_Token s \<noteq> newToken rnd"
    by (auto simp: insert_server_def Let_def split: if_splits)
  from ins same have i: "i = alloc (map srv_ID (servers d))"
    and d': "d' = d0\<lparr>servers := servers d @ [srv]\<rparr>"
    by (auto simp: insert_server_def Let_def srv split: if_splits)
  from i srv show "srv = ?srv\<lparr>srv_ID := alloc (map srv_ID (servers d))\<rparr>" by simp
  from d' d0 show "tables d' = tables (d\<lparr>servers := servers d @ [srv]\<rparr>)"
    by (simp add: tables_eq_iff)
qed

lemma AddServer_Inl: "AddServer alloc rnd now name d = (Inl e, d') \<Longrightarrow>
    tables d' = tables d \<and> (e = ErrInvalidName \<longleftrightarrow> \<not> validName name)"
  by (auto simp: AddServer_def Let_def bnd_eq_Inl ret_def fail_def split: if_splits dest: exec_Inl)

lemma select_server_Inr:
  assumes "select_server P d = (Inr s, d')"
  shows "find P (servers d) = Some s" and "tables d' = tables d"
proof -
  from assms obtain r d0 where q: "query (\<lambda>d. find P (servers d)) d = (Inr r, d0)"
    and r: "(case r of None \<Rightarrow> fail ErrNotFound | Some s \<Rightarrow> ret s) d0 = (Inr s, d')"
    by (auto simp: select_server_def bnd_eq_Inr)
  from query_Inr [OF q] obtain d1 where "tables d0 = tables d" "tables d1 = tables d"
    "r = find P (servers d1)" by blast
  with r show "find P (servers d) = Some s" and "tables d' = tables d"
    by (auto simp: ret_def fail_def dest: tables_eqD split: option.splits)
qed

lemma select_server_Inl:
  assumes "select_server P d = (Inl e, d')"
  shows "tables d' = tables d" and "e = ErrNotFound \<Longrightarrow> find P (servers d) = None"
proof -
  from assms consider "query (\<lambda>d. find P (servers d)) d = (Inl e, d')"
    | "query (\<lambda>d. find P (servers d)) d = (Inr None, d')" "e = ErrNotFound"
    by (auto simp: select_server_def bnd_eq_Inl ret_def fail_def split: option.splits)
  then have "tables d' = tables d \<and> (e = ErrNotFound \<longrightarrow> find P (servers d) = None)"
  proof cases
    case 1
    then show ?thesis by (auto dest: query_Inl)
  next
    case 2
    from query_Inr [OF 2(1)] show ?thesis by (auto dest: tables_eqD)
  qed
  then show "tables d' = tables d" and "e = ErrNotFound \<Longrightarrow> find P (servers d) = None" by auto
qed

lemma find_upd_server:
  assumes "\<And>s. srv_ID (f s) = srv_ID s"
  shows "find (\<lambda>s. srv_ID s = k) (servers (upd_server i f d)) =
     map_option (\<lambda>s. if srv_ID s = i then f s else s) (find (\<lambda>s. srv_ID s = k) (servers d))"
  unfolding upd_server_def by (simp add: find_map_inv assms)

section \<open>Properties\<close>

text \<open>
  \<open>AddServer\<close> on every branch: an invalid name is refused before the database is
  touched; a success had a free name and token, appends exactly one row that carries the
  engine's id, the default collectors and the current time; any error leaves every table as
  it was.
\<close>

theorem AddServer_outcome:
  assumes "AddServer alloc rnd now name d = (r, d')"
  shows "case r of
      Inl e \<Rightarrow> tables d' = tables d \<and> (e = ErrInvalidName \<longleftrightarrow> \<not> validName name)
    | Inr srv \<Rightarrow> validName name \<and>
        (\<forall>s \<in> set (servers d). srv_Name s \<noteq> name \<and> srv_Token s \<noteq> newToken rnd) \<and>
        srv_ID srv = alloc (map srv_ID (servers d)) \<and> srv_Name srv = name \<and>
        srv_Token srv = newToken rnd \<and> srv_Collectors srv = DefaultCollectors \<and>
        srv_CreatedAt srv = unix now \<and> srv_LastPush srv = 0 \<and> srv_UninstallRequestedAt srv = 0 \<and>
        servers d' = servers d @ [srv] \<and> tables d' = tables (d\<lparr>servers := servers d @ [srv]\<rparr>)"
proof (cases r)
  case (Inl e)
  with assms show ?thesis by (simp add: AddServer_Inl)
next
  case (Inr srv)
  note a = AddServer_Inr [OF assms [unfolded Inr]]
  have "servers d' = servers d @ [srv]" using tables_eqD(1) [OF a(4)] by simp
  with a(1,3,4) show ?thesis by (simp add: Inr a(2) new_server_def)
qed

theorem AddServer_outcome_witness:
  "\<exists>srv d'. AddServer (\<lambda>ids. 1) [1, 255] 5000000000 ''web-1'' (empty_db :: int db) = (Inr srv, d') \<and>
     servers d' = [srv] \<and> srv_Token srv = ''tk_01ff''"
proof -
  let ?run = "AddServer (\<lambda>ids. 1) [1, 255] 5000000000 ''web-1'' (empty_db :: int db)"
  have "\<exists>srv d'. ?run = (Inr srv, d')"
    by (simp add: AddServer_def Let_def bnd_def exec_def take_fault_def empty_db_def insert_server_def
        ret_def new_server_def validName_def name_char_def is_lower_def is_upper_def is_digit_def
        between_def byte_def less_eq_char_def)
  then obtain srv d' where run: "?run = (Inr srv, d')" by blast
  have "newToken [1, 255] = ''tk_01ff''" by code_simp
  with AddServer_outcome [OF run] run show ?thesis by (simp add: empty_db_def)
qed

text \<open>
  \<open>DeleteServer\<close> is all or nothing and takes everything keyed on the id with it: after
  a success no server row, no rollup bucket of either tier and no group membership carries the
  id, and every other row is still there; after an error nothing has changed.
\<close>

theorem DeleteServer_complete:
  assumes "DeleteServer i d = (r, d')"
  shows "case r of
      Inl e \<Rightarrow> tables d' = tables d
    | Inr u \<Rightarrow> (\<forall>s. s \<in> set (servers d') \<longleftrightarrow> s \<in> set (servers d) \<and> srv_ID s \<noteq> i) \<and>
        (\<forall>m w b. ((i, m, w), b) \<notin> set (rollup_1m d') \<and> ((i, m, w), b) \<notin> set (rollup_1h d')) \<and>
        (\<forall>j m w b. j \<noteq> i \<longrightarrow>
           (((j, m, w), b) \<in> set (rollup_1m d') \<longleftrightarrow> ((j, m, w), b) \<in> set (rollup_1m d)) \<and>
           (((j, m, w), b) \<in> set (rollup_1h d') \<longleftrightarrow> ((j, m, w), b) \<in> set (rollup_1h d))) \<and>
        (\<forall>g j. (g, j) \<in> set (group_members d') \<longleftrightarrow> (g, j) \<in> set (group_members d) \<and> j \<noteq> i) \<and>
        server_groups d' = server_groups d \<and> settings_tab d' = settings_tab d \<and>
        mother_row d' = mother_row d"
proof (cases r)
  case (Inl e)
  with assms show ?thesis by (simp add: delete_server.error_keeps)
next
  case (Inr u)
  from delete_server.success_effect [OF assms [unfolded Inr]]
  have "tables d' = purge_server i (tables d)" .
  then have "servers d' = servers (purge_server i d)" "rollup_1m d' = rollup_1m (purge_server i d)"
    "rollup_1h d' = rollup_1h (purge_server i d)" "group_members d' = group_members (purge_server i d)"
    "server_groups d' = server_groups d" "settings_tab d' = settings_tab d" "mother_row d' = mother_row d"
    by (auto simp: purge_server_def dest: tables_effect)
  then show ?thesis by (auto simp: Inr purge_server_def)
qed

theorem DeleteServer_complete_witness:
  "let d = (empty_db :: int db)\<lparr>servers := [(new_server ''a'' ''t'' 0)\<lparr>srv_ID := 1\<rparr>,
       (new_server ''b'' ''u'' 0)\<lparr>srv_ID := 2\<rparr>], group_members := [(7, 1), (7, 2)]\<rparr>
   in (\<forall>s \<in> set (servers (snd (DeleteServer 1 d))). srv_ID s \<noteq> 1) \<and>
      (7, 1) \<notin> set (group_members (snd (DeleteServer 1 d))) \<and>
      (7, 2) \<in> set (group_members (snd (DeleteServer 1 d)))"
proof -
  let ?d = "(empty_db :: int db)\<lparr>servers := [(new_server ''a'' ''t'' 0)\<lparr>srv_ID := 1\<rparr>,
       (new_server ''b'' ''u'' 0)\<lparr>srv_ID := 2\<rparr>], group_members := [(7, 1), (7, 2)]\<rparr>"
  have "fst (DeleteServer 1 ?d) = Inr ()"
    by (simp add: DeleteServer_def in_tx_def bnd_def modify_def exec_def take_fault_def empty_db_def
        del_server_def del_rollup_1m_def del_rollup_1h_def del_members_def new_server_def)
  then have "DeleteServer 1 ?d = (Inr (), snd (DeleteServer 1 ?d))" by (metis prod.collapse)
  from DeleteServer_complete [OF this] show ?thesis by (simp add: Let_def)
qed

text \<open>
  Asking for an uninstall is idempotent: whatever follows the first request, succeeding or
  not, the row keeps the time it was first asked at.
\<close>

theorem RequestUninstall_idempotent:
  assumes first: "RequestUninstall now i d = (Inr (), d1)" and "unix now \<noteq> 0"
    and again: "RequestUninstall now' i d1 = (r, d2)"
    and s: "s \<in> set (servers d2)" "srv_ID s = i"
  shows "\<exists>s0 \<in> set (servers d). srv_ID s0 = i \<and> srv_UninstallRequestedAt s =
    (if srv_UninstallRequestedAt s0 = 0 then unix now else srv_UninstallRequestedAt s0)"
proof -
  let ?f = "\<lambda>t s. s\<lparr>srv_UninstallRequestedAt :=
     (if srv_UninstallRequestedAt s = 0 then unix t else srv_UninstallRequestedAt s)\<rparr>"
  have 1: "servers d1 = servers (upd_server i (?f now) d)"
    using tables_effect(1) [OF request_uninstall.success_effect [OF first]]
    by (simp add: upd_server_def)
  have "servers d2 = servers d1 \<or> servers d2 = servers (upd_server i (?f now') (tables d1))"
    using request_uninstall.outcome_of [of servers now' i d1, OF tables_sel(1)] unfolding again snd_conv .
  moreover have "servers (upd_server i (?f now') (tables d1)) = servers d1"
    using assms(2) by (auto simp: 1 upd_server_def)
  ultimately have "s \<in> set (servers d1)" using s(1) by (elim disjE) (simp_all only:)
  then obtain s0 where "s0 \<in> set (servers d)" "s = (if srv_ID s0 = i then ?f now s0 else s0)"
    by (auto simp: 1 upd_server_def)
  with s(2) show ?thesis by (intro bexI [of _ s0]) (simp_all split: if_splits)
qed

theorem RequestUninstall_idempotent_witness:
  "let d = (empty_db :: int db)\<lparr>servers := [(new_server ''a'' ''t'' 0)\<lparr>srv_ID := 1\<rparr>]\<rparr>;
       d2 = snd (RequestUninstall (90 * Second) 1 (snd (RequestUninstall (50 * Second) 1 d)))
   in \<forall>s \<in> set (servers d2). srv_UninstallRequestedAt s = 50"
proof -
  let ?d = "(empty_db :: int db)\<lparr>servers := [(new_server ''a'' ''t'' 0)\<lparr>srv_ID := 1\<rparr>]\<rparr>"
  let ?d1 = "snd (RequestUninstall (50 * Second) 1 ?d)"
  let ?d2 = "snd (RequestUninstall (90 * Second) 1 ?d1)"
  have u: "unix (50 * Second) = 50" by (simp add: unix_def)
  have 1: "RequestUninstall (50 * Second) 1 ?d = (Inr (), ?d1)"
    by (simp add: RequestUninstall_def upd_server_count_def bnd_def exec_def take_fault_def
        empty_db_def require_rows_def ret_def new_server_def)
  have 2: "RequestUninstall (90 * Second) 1 ?d1 = (fst (RequestUninstall (90 * Second) 1 ?d1), ?d2)" by simp
  have ids: "map srv_ID (servers (snd (RequestUninstall t i d))) = map srv_ID (servers d)" for t i and d :: "int db"
    using request_uninstall.outcome_of [of servers t i d, OF tables_sel(1)]
    by (elim disjE) (simp_all add: upd_server_def)
  have "map srv_ID (servers ?d2) = [1]"
    unfolding ids by (simp add: empty_db_def new_server_def)
  then have "\<forall>s \<in> set (servers ?d2). srv_ID s = 1" by (cases "servers ?d2") auto
  then have "srv_UninstallRequestedAt s = 50" if "s \<in> set (servers ?d2)" for s
    using RequestUninstall_idempotent [OF 1 _ 2 that] u that by (simp add: new_server_def)
  then show ?thesis by (simp add: Let_def)
qed

text \<open>
  A heartbeat writes only what the agent reports: the row of the pushing server gets the
  new version, push time and both error texts (an empty one clears the old), an empty host
  fact never erases a known one, and everything the operator set stays as it was; no other row
  changes.
\<close>

theorem TouchServer_writes:
  assumes "TouchServer i hb now d = (Inr u, d')"
  shows "length (servers d') = length (servers d) \<and>
    (\<forall>n < length (servers d). let s = servers d ! n; s' = servers d' ! n in
       if srv_ID s \<noteq> i then s' = s
       else srv_ID s' = i \<and> srv_Name s' = srv_Name s \<and> srv_Token s' = srv_Token s \<and>
         srv_Collectors s' = srv_Collectors s \<and> srv_DesiredVersion s' = srv_DesiredVersion s \<and>
         srv_UninstallRequestedAt s' = srv_UninstallRequestedAt s \<and>
         srv_Capabilities s' = srv_Capabilities s \<and>
         srv_AgentVersion s' = hb_AgentVersion hb \<and> srv_LastPush s' = now \<and>
         srv_UpdateError s' = hb_UpdateError hb \<and> srv_UninstallError s' = hb_UninstallError hb \<and>
         (srv_Hostname s \<noteq> '''' \<longrightarrow> srv_Hostname s' \<noteq> '''') \<and> (srv_IP s \<noteq> '''' \<longrightarrow> srv_IP s' \<noteq> '''') \<and>
         (hb_Hostname hb \<noteq> '''' \<longrightarrow> srv_Hostname s' = hb_Hostname hb) \<and>
         (hb_IP hb \<noteq> '''' \<longrightarrow> srv_IP s' = hb_IP hb))"
proof -
  have "servers d' = map (\<lambda>s. if srv_ID s = i then touch hb now s else s) (servers d)"
    using tables_effect(1) [OF touch_server.success_effect [OF assms]]
    by (simp add: upd_server_def)
  then show ?thesis by (simp add: Let_def touch_def keep_if_empty_def)
qed

theorem TouchServer_writes_witness:
  "let d = (empty_db :: int db)\<lparr>servers := [(new_server ''a'' ''t'' 0)\<lparr>srv_ID := 1, srv_IP := ''10.0.0.1''\<rparr>]\<rparr>;
       hb = \<lparr>hb_AgentVersion = ''v2'', hb_Hostname = ''h'', hb_IP = '''', hb_OS = '''', hb_Arch = '''',
             hb_UpdateError = '''', hb_UninstallError = ''''\<rparr>;
       s' = servers (snd (TouchServer 1 hb 99 d)) ! 0
   in srv_AgentVersion s' = ''v2'' \<and> srv_IP s' \<noteq> '''' \<and> srv_LastPush s' = 99"
proof -
  let ?d = "(empty_db :: int db)\<lparr>servers := [(new_server ''a'' ''t'' 0)\<lparr>srv_ID := 1, srv_IP := ''10.0.0.1''\<rparr>]\<rparr>"
  let ?hb = "\<lparr>hb_AgentVersion = ''v2'', hb_Hostname = ''h'', hb_IP = '''', hb_OS = '''', hb_Arch = '''',
             hb_UpdateError = '''', hb_UninstallError = ''''\<rparr>"
  have "TouchServer 1 ?hb 99 ?d = (Inr (), snd (TouchServer 1 ?hb 99 ?d))"
    by (simp add: TouchServer_def modify_def exec_def take_fault_def empty_db_def)
  from TouchServer_writes [OF this] show ?thesis
    by (simp add: Let_def new_server_def)
qed

end
