(* ===== verification/Rollup.thy ===== *)
theory Rollup
  imports Servers
begin

text \<open>
  The two rollup tiers: \<open>mother/store/rollup.go\<close> (folding a push into both tiers on arrival)
  and \<open>mother/store/retention.go\<close> (expiry and operator deletes).

  The samples of a push are the list of entries of the Go map in the order it is ranged
  over. The specification is an aggregate over the raw samples the program never stores:
  \<open>aggregate\<close> of all values whose timestamp falls in a bucket, in arrival order. The lemmas
  show that the incremental upsert computes it, that the iteration order of a push does not
  matter, and how the two tiers relate.
\<close>

section \<open>The upsert\<close>

definition width_1m :: int where "width_1m = 60"
definition width_1h :: int where "width_1h = 3600"

definition first_bucket :: "'v \<Rightarrow> 'v bucket" where
  "first_bucket v = \<lparr>bk_min = v, bk_max = v, bk_sum = v, bk_cnt = 1\<rparr>"

definition fold_bucket :: "'v::{linorder,plus} bucket \<Rightarrow> 'v \<Rightarrow> 'v bucket" where
  "fold_bucket b v = \<lparr>bk_min = min (bk_min b) v, bk_max = max (bk_max b) v,
     bk_sum = bk_sum b + v, bk_cnt = bk_cnt b + 1\<rparr>"

definition upsert_bucket :: "rollup_key \<Rightarrow> 'v::{linorder,plus} \<Rightarrow> 'v tier \<Rightarrow> 'v tier" where
  "upsert_bucket k v t = AList.update k
     (case map_of t k of None \<Rightarrow> first_bucket v | Some b \<Rightarrow> fold_bucket b v) t"

text \<open>One multi-row statement: every sample of the push into its bucket of one tier.\<close>

definition upsert_samples ::
  "int \<Rightarrow> int \<Rightarrow> int \<Rightarrow> (string \<times> 'v::{linorder,plus}) list \<Rightarrow> 'v tier \<Rightarrow> 'v tier" where
  "upsert_samples w sid ts samples t =
     foldl (\<lambda>t (metric, value). upsert_bucket (sid, metric, trunc_to w ts) value t) t samples"

definition wrap_error :: "string \<Rightarrow> store_error \<Rightarrow> store_error" where
  "wrap_error ctx e = (case e of ErrSql m \<Rightarrow> ErrSql (ctx @ m) | _ \<Rightarrow> e)"

definition upsert_1m ::
  "int \<Rightarrow> int \<Rightarrow> (string \<times> 'v::{linorder,plus}) list \<Rightarrow> 'v db \<Rightarrow> 'v db" where
  "upsert_1m sid ts samples d =
     d\<lparr>rollup_1m := upsert_samples width_1m sid ts samples (rollup_1m d)\<rparr>"

definition upsert_1h ::
  "int \<Rightarrow> int \<Rightarrow> (string \<times> 'v::{linorder,plus}) list \<Rightarrow> 'v db \<Rightarrow> 'v db" where
  "upsert_1h sid ts samples d =
     d\<lparr>rollup_1h := upsert_samples width_1h sid ts samples (rollup_1h d)\<rparr>"

definition ApplySamples ::
  "int \<Rightarrow> int \<Rightarrow> (string \<times> 'v::{linorder,plus}) list \<Rightarrow> ('v, unit) op" where
  "ApplySamples sid ts samples =
     (if length samples = 0 then ret ()
      else in_tx (
        bnd (on_error (modify (upsert_1m sid ts samples))
                      (wrap_error ''apply samples to rollup_1m: '')) (\<lambda>_.
        on_error (modify (upsert_1h sid ts samples))
                 (wrap_error ''apply samples to rollup_1h: ''))))"

definition fold_push ::
  "int \<Rightarrow> int \<Rightarrow> (string \<times> 'v::{linorder,plus}) list \<Rightarrow> 'v db \<Rightarrow> 'v db" where
  "fold_push sid ts samples d = d\<lparr>
     rollup_1m := upsert_samples width_1m sid ts samples (rollup_1m d),
     rollup_1h := upsert_samples width_1h sid ts samples (rollup_1h d)\<rparr>"

lemma on_error_Inr [simp]: "on_error m h d = (Inr a, d') \<longleftrightarrow> m d = (Inr a, d')"
  by (auto simp: on_error_def split: prod.splits sum.splits)

lemma table_fun_tiers [simp]:
  "table_fun (upsert_1m sid ts samples)" "table_fun (upsert_1h sid ts samples)"
  by (simp_all add: table_fun_def tables_def upsert_1m_def upsert_1h_def)

lemma fold_push_steps: "fold_push sid ts samples d = upsert_1h sid ts samples (upsert_1m sid ts samples d)"
  by (simp add: fold_push_def upsert_1m_def upsert_1h_def)

lemma fold_push_Nil [simp]: "fold_push sid ts [] d = d"
  by (simp add: fold_push_def upsert_samples_def)

lemma upsert_Nil [simp]: "upsert_1m sid ts [] d = d" "upsert_1h sid ts [] d = d"
  by (simp_all add: upsert_1m_def upsert_1h_def upsert_samples_def)

interpretation apply_samples: committed "ApplySamples sid ts samples" "fold_push sid ts samples"
proof
  fix d e d' assume "ApplySamples sid ts samples d = (Inl e, d')"
  then show "tables d' = tables d"
    by (auto simp: ApplySamples_def ret_def split: if_splits dest: atomic_opD [OF atomic_tx])
next
  fix d a d' assume "ApplySamples sid ts samples d = (Inr a, d')"
  then show "tables d' = fold_push sid ts samples (tables d)"
    by (auto simp: ApplySamples_def ret_def fold_push_steps [of sid ts samples] bnd_eq_Inr
        split: if_splits elim!: in_tx_Inr dest!: modify_Inr [rotated])
qed

section \<open>The tier as an aggregate of the raw samples\<close>

text \<open>One raw sample: server, timestamp, metric, value, in the order they arrived.\<close>

type_synonym 'v raw = "int \<times> int \<times> string \<times> 'v"

definition raw_key :: "int \<Rightarrow> 'v raw \<Rightarrow> rollup_key" where
  "raw_key w = (\<lambda>(sid, ts, m, v). (sid, m, trunc_to w ts))"

definition raw_val :: "'v raw \<Rightarrow> 'v" where
  "raw_val = (\<lambda>(sid, ts, m, v). v)"

definition in_bucket :: "int \<Rightarrow> rollup_key \<Rightarrow> 'v raw list \<Rightarrow> 'v list" where
  "in_bucket w k log = map raw_val (filter (\<lambda>r. raw_key w r = k) log)"

text \<open>Minimum, maximum, running sum and count of a non-empty list of values.\<close>

definition aggregate :: "'v::{linorder,plus} list \<Rightarrow> 'v bucket option" where
  "aggregate vs = (case vs of [] \<Rightarrow> None
     | x # xs \<Rightarrow> Some \<lparr>bk_min = foldl min x xs, bk_max = foldl max x xs,
         bk_sum = foldl (+) x xs, bk_cnt = 1 + int (length xs)\<rparr>)"

definition push_raw :: "int \<Rightarrow> 'v::{linorder,plus} tier \<Rightarrow> 'v raw \<Rightarrow> 'v tier" where
  "push_raw w t = (\<lambda>(sid, ts, m, v). upsert_bucket (sid, m, trunc_to w ts) v t)"

definition tier_of_log :: "int \<Rightarrow> 'v::{linorder,plus} raw list \<Rightarrow> 'v tier" where
  "tier_of_log w log = foldl (push_raw w) [] log"

lemma aggregate_snoc:
  "aggregate (vs @ [v]) =
     Some (case aggregate vs of None \<Rightarrow> first_bucket v | Some b \<Rightarrow> fold_bucket b v)"
  by (cases vs) (auto simp: aggregate_def first_bucket_def fold_bucket_def)

lemma map_of_upsert:
  "map_of (upsert_bucket k v t) k' =
     (if k' = k then Some (case map_of t k of None \<Rightarrow> first_bucket v | Some b \<Rightarrow> fold_bucket b v)
      else map_of t k')"
  by (simp add: upsert_bucket_def map_of_update)

lemma in_bucket_snoc:
  "in_bucket w k (log @ [r]) = in_bucket w k log @ (if raw_key w r = k then [raw_val r] else [])"
  by (simp add: in_bucket_def)

lemma map_of_tier_of_log: "map_of (tier_of_log w log) k = aggregate (in_bucket w k log)"
proof (induction log rule: rev_induct)
  case Nil
  then show ?case by (simp add: tier_of_log_def in_bucket_def aggregate_def)
next
  case (snoc r log)
  obtain sid ts m v where r: "r = (sid, ts, m, v)" by (cases r) auto
  have "tier_of_log w (log @ [r]) = upsert_bucket (raw_key w r) (raw_val r) (tier_of_log w log)"
    by (simp add: tier_of_log_def push_raw_def raw_key_def raw_val_def r)
  with snoc.IH show ?case
    by (cases "raw_key w r = k") (auto simp: map_of_upsert in_bucket_snoc aggregate_snoc)
qed

definition raws :: "int \<Rightarrow> int \<Rightarrow> (string \<times> 'v) list \<Rightarrow> 'v raw list" where
  "raws sid ts samples = map (\<lambda>(m, v). (sid, ts, m, v)) samples"

lemma upsert_samples_push: "upsert_samples w sid ts samples t = foldl (push_raw w) t (raws sid ts samples)"
  by (induction samples arbitrary: t) (auto simp: upsert_samples_def push_raw_def raws_def)

lemma upsert_samples_tier:
  "upsert_samples w sid ts samples (tier_of_log w log) = tier_of_log w (log @ raws sid ts samples)"
  by (simp add: upsert_samples_push tier_of_log_def)

text \<open>The refinement relation: the stored tiers are those of the log of raw samples.\<close>

definition tiers_of :: "'v::{linorder,plus} raw list \<Rightarrow> 'v db \<Rightarrow> bool" where
  "tiers_of log d \<longleftrightarrow> rollup_1m d = tier_of_log width_1m log \<and> rollup_1h d = tier_of_log width_1h log"

lemma fold_push_tiers_of: "tiers_of log d \<Longrightarrow> tiers_of (log @ raws sid ts samples) (fold_push sid ts samples d)"
  by (simp add: tiers_of_def fold_push_def upsert_samples_tier)

section \<open>Iteration order\<close>

lemma map_of_upsert_samples_notin:
  "\<forall>(m, v) \<in> set samples. (sid, m, trunc_to w ts) \<noteq> k \<Longrightarrow>
     map_of (upsert_samples w sid ts samples t) k = map_of t k"
  by (induction samples arbitrary: t) (auto simp: upsert_samples_def map_of_upsert split: prod.splits)

lemma map_of_upsert_samples:
  assumes "distinct (map fst samples)"
  shows "map_of (upsert_samples w sid ts samples t) (i, m, ws) =
    (if i = sid \<and> ws = trunc_to w ts then
       (case map_of samples m of
          None \<Rightarrow> map_of t (i, m, ws)
        | Some v \<Rightarrow> Some (case map_of t (i, m, ws) of None \<Rightarrow> first_bucket v | Some b \<Rightarrow> fold_bucket b v))
     else map_of t (i, m, ws))"
  using assms
proof (induction samples arbitrary: t)
  case Nil
  then show ?case by (simp add: upsert_samples_def)
next
  case (Cons s samples)
  obtain m' v where s: "s = (m', v)" by (cases s)
  have "upsert_samples w sid ts (s # samples) t =
      upsert_samples w sid ts samples (upsert_bucket (sid, m', trunc_to w ts) v t)"
    by (simp add: upsert_samples_def s)
  moreover have "m' = m \<Longrightarrow> map_of samples m = None"
    using Cons.prems by (auto simp: s map_of_eq_None_iff)
  ultimately show ?case
    using Cons.IH Cons.prems by (auto simp: s map_of_upsert split: option.split)
qed

lemma map_of_upsert_samples_perm:
  assumes "distinct (map fst samples)" and "mset samples' = mset samples"
  shows "map_of (upsert_samples w sid ts samples' t) = map_of (upsert_samples w sid ts samples t)"
proof
  fix k :: rollup_key
  obtain i m ws where k: "k = (i, m, ws)" by (cases k)
  have d': "distinct (map fst samples')"
    using assms by (metis mset_eq_imp_distinct_iff mset_map)
  moreover have "map_of samples' = map_of samples"
    using assms(1) d' assms(2) by (metis map_of_inject_set mset_eq_setD)
  ultimately show "map_of (upsert_samples w sid ts samples' t) k = map_of (upsert_samples w sid ts samples t) k"
    using assms(1) by (simp add: k map_of_upsert_samples)
qed

lemma distinct_upsert_samples:
  "distinct (map fst t) \<Longrightarrow> distinct (map fst (upsert_samples w sid ts samples t))"
  by (induction samples arbitrary: t)
     (auto simp: upsert_samples_def upsert_bucket_def distinct_update split: prod.splits)

lemma keys_upsert_bucket: "fst ` set (upsert_bucket k v t) = insert k (fst ` set t)"
  by (simp add: upsert_bucket_def fst_set_update)

lemma keys_upsert_samples:
  "fst ` set (upsert_samples w sid ts samples t) =
     (\<lambda>m. (sid, m, trunc_to w ts)) ` fst ` set samples \<union> fst ` set t"
proof (induction samples arbitrary: t)
  case (Cons s samples)
  obtain m v where s: "s = (m, v)" by (cases s)
  have "upsert_samples w sid ts (s # samples) t =
      upsert_samples w sid ts samples (upsert_bucket (sid, m, trunc_to w ts) v t)"
    by (simp add: upsert_samples_def s)
  then show ?case by (simp add: Cons.IH keys_upsert_bucket s)
qed (simp add: upsert_samples_def)

section \<open>The hourly tier against the minute tier\<close>

lemma trunc_to_nest: "0 \<le> t \<Longrightarrow> trunc_to width_1h (trunc_to width_1m t) = trunc_to width_1h t"
proof -
  assume t: "0 \<le> t"
  have "(60 * (t div 60)) div (60 * 60) = t div 60 div 60"
    by (rule div_mult_mult1) simp
  then have "t div 60 * 60 div 3600 = t div 3600"
    by (simp add: zdiv_zmult2_eq [symmetric] mult.commute)
  with t show ?thesis
    by (simp add: trunc_to_def sdiv_nonneg width_1m_def width_1h_def pos_imp_zdiv_nonneg_iff)
qed

lemma in_bucket_minute_hour:
  assumes "\<forall>(sid, ts, m, v) \<in> set log. 0 \<le> ts"
    and "v \<in> set (in_bucket width_1m (sid, m, ws) log)"
  shows "v \<in> set (in_bucket width_1h (sid, m, trunc_to width_1h ws) log)"
proof -
  from assms(2) obtain r where r: "r \<in> set log" "raw_key width_1m r = (sid, m, ws)" "v = raw_val r"
    by (auto simp: in_bucket_def)
  obtain i ts m' v' where r': "r = (i, ts, m', v')" by (cases r)
  have "0 \<le> ts" using assms(1) r(1) r' by auto
  then have "raw_key width_1h r = (sid, m, trunc_to width_1h ws)"
    using r(2) r' by (auto simp: raw_key_def trunc_to_nest)
  with r show ?thesis by (auto simp: in_bucket_def)
qed

lemma foldl_min_le: "(x::'v::linorder) \<in> set (y # ys) \<Longrightarrow> foldl min y ys \<le> x"
proof (induction ys arbitrary: x y)
  case (Cons z ys)
  have "foldl min (min y z) ys \<le> min y z" by (rule Cons.IH) simp
  with Cons show ?case by (auto intro: order_trans)
qed simp

lemma foldl_max_ge: "(x::'v::linorder) \<in> set (y # ys) \<Longrightarrow> x \<le> foldl max y ys"
proof (induction ys arbitrary: x y)
  case (Cons z ys)
  have "max y z \<le> foldl max (max y z) ys" by (rule Cons.IH) simp
  with Cons show ?case by (auto intro: order_trans)
qed simp

lemma foldl_min_in: "foldl min y ys \<in> set (y # (ys :: 'v::linorder list))"
  by (induction ys arbitrary: y) (fastforce simp: min_def)+

lemma foldl_max_in: "foldl max y ys \<in> set (y # (ys :: 'v::linorder list))"
  by (induction ys arbitrary: y) (fastforce simp: max_def)+

lemma aggregate_bounds:
  assumes "aggregate vs = Some b" and "v \<in> set vs"
  shows "bk_min b \<le> v" and "v \<le> bk_max b"
  using assms by (auto simp: aggregate_def simp del: set_simps foldl.simps split: list.splits
      intro: foldl_min_le foldl_max_ge)

lemma aggregate_attained:
  assumes "aggregate vs = Some b"
  shows "bk_min b \<in> set vs" and "bk_max b \<in> set vs" and "bk_cnt b = int (length vs)"
  using assms foldl_min_in foldl_max_in by (fastforce simp: aggregate_def split: list.splits)+

lemma aggregate_None [simp]: "aggregate vs = None \<longleftrightarrow> vs = []"
  by (simp add: aggregate_def split: list.splits)

section \<open>Retention\<close>

definition cutoff_days :: "int \<Rightarrow> int \<Rightarrow> int" where
  "cutoff_days now days = wrap64 (now - wrap64 (days * 86400))"

definition EnforceRetention :: "int \<Rightarrow> settings \<Rightarrow> ('v, unit) op" where
  "EnforceRetention now cfg =
     bnd (modify (del_rollup_1m (\<lambda>(sid, m, ws). ws < cutoff_days now (Retention1mDays cfg)))) (\<lambda>_.
     modify (del_rollup_1h (\<lambda>(sid, m, ws). ws < cutoff_days now (Retention1hDays cfg))))"

definition in_history :: "int \<Rightarrow> int \<Rightarrow> int \<Rightarrow> rollup_key \<Rightarrow> bool" where
  "in_history serverID from to = (\<lambda>(sid, m, ws).
     from \<le> ws \<and> ws \<le> to \<and> (serverID \<noteq> 0 \<longrightarrow> sid = serverID))"

definition DeleteHistory :: "int \<Rightarrow> int \<Rightarrow> int \<Rightarrow> ('v, unit) op" where
  "DeleteHistory serverID from to =
     bnd (modify (del_rollup_1m (in_history serverID from to))) (\<lambda>_.
     modify (del_rollup_1h (in_history serverID from to)))"

text \<open>
  The two deletes are separate statements: an error of the second one leaves the first
  applied. Whatever fails, a row is gone only if its own tier's rule says so.
\<close>

definition shrinks ::
  "(rollup_key \<Rightarrow> bool) \<Rightarrow> (rollup_key \<Rightarrow> bool) \<Rightarrow> 'v db \<Rightarrow> 'v db \<Rightarrow> bool" where
  "shrinks P Q d d' \<longleftrightarrow>
     rollup_1m d' \<in> {rollup_1m d, filter (\<lambda>(k, b). \<not> P k) (rollup_1m d)} \<and>
     rollup_1h d' \<in> {rollup_1h d, filter (\<lambda>(k, b). \<not> Q k) (rollup_1h d)} \<and>
     servers d' = servers d \<and> server_groups d' = server_groups d \<and>
     group_members d' = group_members d \<and> mother_row d' = mother_row d \<and>
     settings_tab d' = settings_tab d"

lemma two_deletes_shrink:
  "shrinks P Q d (snd (bnd (modify (del_rollup_1m P)) (\<lambda>_. modify (del_rollup_1h Q)) d))"
proof -
  have m: "tables (snd (modify f d0)) = tables d0 \<or> tables (snd (modify f d0)) = tables (f d0)"
    if "table_fun f" for f :: "'v db \<Rightarrow> 'v db" and d0
    using committed.outcome [OF committed_modify [OF that]] that by (metis table_fun_def)
  obtain r d1 where d1: "modify (del_rollup_1m P) d = (r, d1)" by fastforce
  have 1: "tables d1 = tables d \<or> tables d1 = tables (del_rollup_1m P d)"
    using m [of "del_rollup_1m P" d] d1 by simp
  obtain r' d2 where d2: "modify (del_rollup_1h Q) d1 = (r', d2)" by fastforce
  have 2: "tables d2 = tables d1 \<or> tables d2 = tables (del_rollup_1h Q d1)"
    using m [of "del_rollup_1h Q" d1] d2 by simp
  show ?thesis
    using 1 2 d1 d2 by (cases r)
      (auto simp: bnd_def shrinks_def tables_eq_iff del_rollup_1m_def del_rollup_1h_def)
qed

lemma two_deletes_Inr:
  assumes "bnd (modify (del_rollup_1m P)) (\<lambda>_. modify (del_rollup_1h Q)) d = (Inr a, d')"
  shows "tables d' = del_rollup_1h Q (del_rollup_1m P (tables d))"
  using assms by (auto simp: bnd_eq_Inr dest!: modify_Inr [rotated])

section \<open>Properties\<close>



lemma in_bucket_count:
  assumes "\<forall>(sid, ts, m, v) \<in> set log. 0 \<le> ts"
  shows "length (in_bucket width_1m (sid, m, ws) log) \<le>
    length (in_bucket width_1h (sid, m, trunc_to width_1h ws) log)"
  using assms
proof (induction log)
  case (Cons r log)
  have "raw_key width_1m r = (sid, m, ws) \<Longrightarrow> raw_key width_1h r = (sid, m, trunc_to width_1h ws)"
    using Cons.prems by (cases r) (auto simp: raw_key_def trunc_to_nest)
  with Cons show ?case by (auto simp: in_bucket_def)
qed (simp add: in_bucket_def)

text \<open>
  The hourly tier covers the minute tier: with both tiers those of the same samples, a
  minute bucket's hour has a bucket that spans its minimum and maximum and counts at least as
  many samples, so a chart over either tier bounds the same values.
\<close>

theorem hour_covers_minute:
  assumes tiers: "tiers_of log d" and ts: "\<forall>(sid, ts, m, v) \<in> set log. 0 \<le> ts"
    and b: "map_of (rollup_1m d) (sid, m, ws) = Some b"
  shows "\<exists>c. map_of (rollup_1h d) (sid, m, trunc_to width_1h ws) = Some c \<and>
    bk_min c \<le> bk_min b \<and> bk_max b \<le> bk_max c \<and> bk_cnt b \<le> bk_cnt c"
proof -
  let ?ms = "in_bucket width_1m (sid, m, ws) log"
  let ?hs = "in_bucket width_1h (sid, m, trunc_to width_1h ws) log"
  have agg: "aggregate ?ms = Some b"
    using b tiers by (simp add: tiers_of_def map_of_tier_of_log del: map_of_eq_Some_iff)
  note at = aggregate_attained [OF agg]
  have "bk_min b \<in> set ?hs" "bk_max b \<in> set ?hs"
    using at in_bucket_minute_hour [OF ts] by auto
  moreover from this obtain c where c: "aggregate ?hs = Some c"
    by (cases "aggregate ?hs") auto
  ultimately show ?thesis
    using aggregate_bounds [OF c] aggregate_attained(3) [OF c] at(3) in_bucket_count [OF ts, of sid m ws] tiers
    by (intro exI [of _ c]) (simp add: tiers_of_def map_of_tier_of_log del: map_of_eq_Some_iff)
qed

theorem hour_covers_minute_witness:
  "let log = [(1, 3599, ''cpu'', 7 :: int), (1, 3605, ''cpu'', 9)];
       d = empty_db\<lparr>rollup_1m := tier_of_log width_1m log, rollup_1h := tier_of_log width_1h log\<rparr>
   in \<exists>c. map_of (rollup_1h d) (1, ''cpu'', 0) = Some c \<and> bk_min c \<le> 7 \<and> 1 \<le> bk_cnt c"
proof -
  let ?log = "[(1 :: int, 3599 :: int, ''cpu'', 7 :: int), (1, 3605, ''cpu'', 9)]"
  let ?d = "(empty_db :: int db)\<lparr>rollup_1m := tier_of_log width_1m ?log, rollup_1h := tier_of_log width_1h ?log\<rparr>"
  have 1: "tiers_of ?log ?d" by (simp add: tiers_of_def)
  have 2: "\<forall>(sid, ts, m, v) \<in> set ?log. 0 \<le> ts" by simp
  have 3: "map_of (rollup_1m ?d) (1, ''cpu'', 3540) = Some (first_bucket 7)"
    by code_simp
  have "trunc_to width_1h 3540 = 0" by code_simp
  with hour_covers_minute [OF 1 2 3] show ?thesis
    by (auto simp add: Let_def first_bucket_def simp del: map_of_eq_Some_iff)
qed

text \<open>
  The iteration order of the sample map does not matter: two orders of the same push (one
  sample per metric) leave the same bucket under every key of both tiers.
\<close>

theorem ApplySamples_order:
  assumes "distinct (map fst samples)" and "mset samples' = mset samples" and "healthy d"
  shows "fst (ApplySamples sid ts samples' d) = Inr () \<and>
    fst (ApplySamples sid ts samples d) = Inr () \<and>
    map_of (rollup_1m (snd (ApplySamples sid ts samples' d))) =
      map_of (rollup_1m (snd (ApplySamples sid ts samples d))) \<and>
    map_of (rollup_1h (snd (ApplySamples sid ts samples' d))) =
      map_of (rollup_1h (snd (ApplySamples sid ts samples d)))"
proof -
  have run: "ApplySamples sid ts xs d = (Inr (), fold_push sid ts xs d)" for xs
    using assms(3)
    by (simp add: ApplySamples_def ret_def in_tx_def bnd_def on_error_def modify_def exec_def take_fault_def
        healthy_def fold_push_steps) (simp add: upsert_1m_def upsert_1h_def take_fault_def)
  show ?thesis
    unfolding run by (simp add: fold_push_def map_of_upsert_samples_perm [OF assms(1,2)])
qed

theorem ApplySamples_order_witness:
  "map_of (rollup_1m (snd (ApplySamples 1 60 [(''b'', 2), (''a'', 1 :: int)] empty_db))) =
   map_of (rollup_1m (snd (ApplySamples 1 60 [(''a'', 1), (''b'', 2)] empty_db)))"
  using ApplySamples_order [of "[(''a'', 1), (''b'', 2)]" "[(''b'', 2), (''a'', 1 :: int)]" empty_db 1 60]
  by (simp add: healthy_def empty_db_def)

lemma cutoff_days_exact:
  assumes "0 \<le> now" "now < 2 ^ 62" "0 \<le> days" "days \<le> 3650"
  shows "cutoff_days now days = now - days * 86400"
proof -
  have w: "wrap64 x = x" if "- (2 ^ 62) \<le> x" "x \<le> 2 ^ 62" for x
    using that by (simp add: wrap64_def)
  show ?thesis using assms by (simp add: cutoff_days_def w)
qed

text \<open>
  Retention: with limits a validated payload can hold and a clock in range, a run that
  succeeds keeps exactly the buckets that start within the configured days of its own tier and
  nothing else changes; a run that fails may have done the first delete only, and never removes
  a bucket younger than its tier's limit.
\<close>

theorem EnforceRetention_keeps_recent:
  assumes "0 \<le> now" "now < 2 ^ 62"
    and "1 \<le> Retention1mDays cfg" "Retention1mDays cfg \<le> 3650"
    and "1 \<le> Retention1hDays cfg" "Retention1hDays cfg \<le> 3650"
    and run: "EnforceRetention now cfg d = (r, d')"
  shows "(\<forall>sid m ws b. now - 86400 * Retention1mDays cfg \<le> ws \<longrightarrow>
        ((sid, m, ws), b) \<in> set (rollup_1m d) \<longrightarrow> ((sid, m, ws), b) \<in> set (rollup_1m d')) \<and>
    (\<forall>sid m ws b. now - 86400 * Retention1hDays cfg \<le> ws \<longrightarrow>
        ((sid, m, ws), b) \<in> set (rollup_1h d) \<longrightarrow> ((sid, m, ws), b) \<in> set (rollup_1h d')) \<and>
    set (rollup_1m d') \<subseteq> set (rollup_1m d) \<and> set (rollup_1h d') \<subseteq> set (rollup_1h d) \<and>
    servers d' = servers d \<and> settings_tab d' = settings_tab d \<and>
    (r = Inr () \<longrightarrow>
       (\<forall>sid m ws b. ((sid, m, ws), b) \<in> set (rollup_1m d') \<longrightarrow> now - 86400 * Retention1mDays cfg \<le> ws) \<and>
       (\<forall>sid m ws b. ((sid, m, ws), b) \<in> set (rollup_1h d') \<longrightarrow> now - 86400 * Retention1hDays cfg \<le> ws))"
proof -
  let ?P = "\<lambda>(sid, m, ws). ws < cutoff_days now (Retention1mDays cfg)"
  let ?Q = "\<lambda>(sid, m, ws). ws < cutoff_days now (Retention1hDays cfg)"
  have c: "cutoff_days now (Retention1mDays cfg) = now - 86400 * Retention1mDays cfg"
    "cutoff_days now (Retention1hDays cfg) = now - 86400 * Retention1hDays cfg"
    using assms(1-6) by (simp_all add: cutoff_days_exact)
  have s: "shrinks ?P ?Q d d'"
    using two_deletes_shrink [of ?P ?Q d] run by (simp add: EnforceRetention_def)
  have "r = Inr () \<Longrightarrow> rollup_1m d' = filter (\<lambda>(k, b). \<not> ?P k) (rollup_1m d) \<and>
      rollup_1h d' = filter (\<lambda>(k, b). \<not> ?Q k) (rollup_1h d)"
    using tables_effect [OF two_deletes_Inr [of ?P ?Q d "()" d']] run
    by (simp add: EnforceRetention_def del_rollup_1m_def del_rollup_1h_def)
  with s show ?thesis by (auto simp: shrinks_def c)
qed

theorem EnforceRetention_keeps_recent_witness:
  "let d = (empty_db :: int db)\<lparr>rollup_1m := [((1, ''cpu'', 0), first_bucket 1), ((1, ''cpu'', 1700000040), first_bucket 2)]\<rparr>;
       cfg = \<lparr>Interval = 10, HeartbeatMissThreshold = 3, Retention1mDays = 1, Retention1hDays = 1,
              LiveWindowMinutes = 60\<rparr>
   in ((1, ''cpu'', 1700000040), first_bucket 2) \<in> set (rollup_1m (snd (EnforceRetention 1700000099 cfg d)))"
proof -
  let ?d = "(empty_db :: int db)\<lparr>rollup_1m := [((1, ''cpu'', 0), first_bucket 1), ((1, ''cpu'', 1700000040), first_bucket 2)]\<rparr>"
  let ?cfg = "\<lparr>Interval = 10, HeartbeatMissThreshold = 3, Retention1mDays = 1, Retention1hDays = 1,
              LiveWindowMinutes = 60\<rparr>"
  show ?thesis
    using EnforceRetention_keeps_recent [of 1700000099 ?cfg ?d "fst (EnforceRetention 1700000099 ?cfg ?d)"
        "snd (EnforceRetention 1700000099 ?cfg ?d)"]
    by (simp add: Let_def)
qed

text \<open>
  A history delete touches only what it names: a bucket outside the range, or of another
  server when one is named, survives whatever happens; after a success no bucket of either tier
  within the range (and of the server) is left.
\<close>

theorem DeleteHistory_range:
  assumes "DeleteHistory serverID from to d = (r, d')"
  shows "\<forall>sid m ws b. (ws < from \<or> to < ws \<or> serverID \<noteq> 0 \<and> sid \<noteq> serverID \<longrightarrow>
        (((sid, m, ws), b) \<in> set (rollup_1m d') \<longleftrightarrow> ((sid, m, ws), b) \<in> set (rollup_1m d)) \<and>
        (((sid, m, ws), b) \<in> set (rollup_1h d') \<longleftrightarrow> ((sid, m, ws), b) \<in> set (rollup_1h d))) \<and>
      (r = Inr () \<and> from \<le> ws \<and> ws \<le> to \<and> (serverID = 0 \<or> sid = serverID) \<longrightarrow>
        ((sid, m, ws), b) \<notin> set (rollup_1m d') \<and> ((sid, m, ws), b) \<notin> set (rollup_1h d'))"
proof -
  let ?P = "in_history serverID from to"
  have s: "shrinks ?P ?P d d'"
    using two_deletes_shrink [of ?P ?P d] assms by (simp add: DeleteHistory_def)
  have "r = Inr () \<Longrightarrow> rollup_1m d' = filter (\<lambda>(k, b). \<not> ?P k) (rollup_1m d) \<and>
      rollup_1h d' = filter (\<lambda>(k, b). \<not> ?P k) (rollup_1h d)"
    using tables_effect [OF two_deletes_Inr [of ?P ?P d "()" d']] assms
    by (simp add: DeleteHistory_def del_rollup_1m_def del_rollup_1h_def)
  with s show ?thesis by (auto simp: shrinks_def in_history_def)
qed

theorem DeleteHistory_range_witness:
  "let d = (empty_db :: int db)\<lparr>rollup_1h := [((1, ''cpu'', 3600), first_bucket 1), ((2, ''cpu'', 3600), first_bucket 2)]\<rparr>
   in ((2, ''cpu'', 3600), first_bucket 2) \<in> set (rollup_1h (snd (DeleteHistory 1 0 9999 d)))"
proof -
  let ?d = "(empty_db :: int db)\<lparr>rollup_1h := [((1, ''cpu'', 3600), first_bucket 1), ((2, ''cpu'', 3600), first_bucket 2)]\<rparr>"
  show ?thesis
    using DeleteHistory_range [of 1 0 9999 ?d "fst (DeleteHistory 1 0 9999 ?d)" "snd (DeleteHistory 1 0 9999 ?d)"]
    by (simp add: Let_def)
qed

end
