(* ===== verification/Settings.thy ===== *)
theory Settings
  imports Rollup
begin

text \<open>
  The panel's settings: reading and saving them (\<open>mother/store/settings.go\<close>) and the
  validation of a payload before it is saved (\<open>mother/api/settings.go\<close>). Values are stored
  as decimal text, so a read parses them and refuses anything else. A save writes one key
  per statement in the iteration order of a Go map, which is the parameter \<open>ord\<close>.
\<close>

section \<open>Reading\<close>

definition DefaultLiveWindowMinutes :: int where "DefaultLiveWindowMinutes = 60"

definition defaultSettings :: settings where
  "defaultSettings = \<lparr>Interval = 10, HeartbeatMissThreshold = 3, Retention1mDays = 15,
     Retention1hDays = 75, LiveWindowMinutes = DefaultLiveWindowMinutes\<rparr>"

definition set_setting :: "string \<Rightarrow> int \<Rightarrow> settings \<Rightarrow> settings" where
  "set_setting k n out =
     (if k = ''interval'' then out\<lparr>Interval := n\<rparr>
      else if k = ''heartbeat_miss_threshold'' then out\<lparr>HeartbeatMissThreshold := n\<rparr>
      else if k = ''retention_1m_days'' then out\<lparr>Retention1mDays := n\<rparr>
      else if k = ''retention_1h_days'' then out\<lparr>Retention1hDays := n\<rparr>
      else if k = ''live_window_minutes'' then out\<lparr>LiveWindowMinutes := n\<rparr>
      else out)"

fun scan_settings :: "settings \<Rightarrow> (string \<times> string) list \<Rightarrow> store_error + settings" where
  "scan_settings out [] = Inr out"
| "scan_settings out ((k, v) # rows) =
     (case ParseInt v of
        None \<Rightarrow> Inl (ErrNonNumeric k v)
      | Some n \<Rightarrow> scan_settings (set_setting k n out) rows)"

definition lift_result :: "store_error + 'a \<Rightarrow> ('v, 'a) op" where
  "lift_result r = (case r of Inl e \<Rightarrow> fail e | Inr a \<Rightarrow> ret a)"

definition GetSettings :: "('v, settings) op" where
  "GetSettings = bnd (query settings_tab) (\<lambda>rows. lift_result (scan_settings defaultSettings rows))"

section \<open>Saving\<close>

definition settings_pairs :: "settings \<Rightarrow> (string \<times> string) list" where
  "settings_pairs s = [(''interval'', Itoa (Interval s)),
     (''heartbeat_miss_threshold'', Itoa (HeartbeatMissThreshold s)),
     (''retention_1m_days'', Itoa (Retention1mDays s)),
     (''retention_1h_days'', Itoa (Retention1hDays s)),
     (''live_window_minutes'', Itoa (LiveWindowMinutes s))]"

definition put_setting :: "string \<Rightarrow> string \<Rightarrow> 'v db \<Rightarrow> 'v db" where
  "put_setting k v d = d\<lparr>settings_tab := AList.update k v (settings_tab d)\<rparr>"

fun save_pairs :: "(string \<times> string) list \<Rightarrow> ('v, unit) op" where
  "save_pairs [] = ret ()"
| "save_pairs ((k, v) # ps) = bnd (modify (put_setting k v)) (\<lambda>_. save_pairs ps)"

definition SaveSettings ::
  "((string \<times> string) list \<Rightarrow> (string \<times> string) list) \<Rightarrow> settings \<Rightarrow> ('v, unit) op" where
  "SaveSettings ord s = save_pairs (ord (settings_pairs s))"

section \<open>Validation\<close>

record settings_payload =
  p_Interval :: "int option"
  p_HeartbeatMissThreshold :: "int option"
  p_Retention1mDays :: "int option"
  p_Retention1hDays :: "int option"
  p_LiveWindowMinutes :: "int option"
  p_RetentionRawHours :: "int option"

definition minInterval :: int where "minInterval = 2"
definition maxInterval :: int where "maxInterval = 3600"
definition minHeartbeatMiss :: int where "minHeartbeatMiss = 1"
definition maxHeartbeatMiss :: int where "maxHeartbeatMiss = 100"
definition maxRetentionDays :: int where "maxRetentionDays = 3650"
definition minLiveWindowMinutes :: int where "minLiveWindowMinutes = 1"
definition maxLiveWindowMinutes :: int where "maxLiveWindowMinutes = 60"

record bounds =
  bd_name :: string
  bd_value :: "int option"
  bd_min :: int
  bd_max :: int

definition settings_fields :: "settings_payload \<Rightarrow> bounds list" where
  "settings_fields p = [
     \<lparr>bd_name = ''interval'', bd_value = p_Interval p, bd_min = minInterval, bd_max = maxInterval\<rparr>,
     \<lparr>bd_name = ''heartbeat_miss_threshold'', bd_value = p_HeartbeatMissThreshold p,
       bd_min = minHeartbeatMiss, bd_max = maxHeartbeatMiss\<rparr>,
     \<lparr>bd_name = ''retention_1m_days'', bd_value = p_Retention1mDays p, bd_min = 1,
       bd_max = maxRetentionDays\<rparr>,
     \<lparr>bd_name = ''retention_1h_days'', bd_value = p_Retention1hDays p, bd_min = 1,
       bd_max = maxRetentionDays\<rparr>]"

definition range_message :: "string \<Rightarrow> int \<Rightarrow> int \<Rightarrow> string" where
  "range_message name lo hi = name @ '' must be between '' @ Itoa lo @ '' and '' @ Itoa hi"

fun check_fields :: "bounds list \<Rightarrow> string option" where
  "check_fields [] = None"
| "check_fields (f # fs) =
     (case bd_value f of
        None \<Rightarrow> Some (bd_name f @ '' is required; send the complete settings object'')
      | Some v \<Rightarrow> if v < bd_min f \<or> v > bd_max f
                  then Some (range_message (bd_name f) (bd_min f) (bd_max f))
                  else check_fields fs)"

definition validate :: "settings_payload \<Rightarrow> settings \<Rightarrow> string + settings" where
  "validate p current =
     (case check_fields (settings_fields p) of
        Some msg \<Rightarrow> Inl msg
      | None \<Rightarrow>
          let out = \<lambda>live. \<lparr>Interval = the (p_Interval p),
                HeartbeatMissThreshold = the (p_HeartbeatMissThreshold p),
                Retention1mDays = the (p_Retention1mDays p),
                Retention1hDays = the (p_Retention1hDays p), LiveWindowMinutes = live\<rparr>
          in (case p_LiveWindowMinutes p of
                None \<Rightarrow> Inr (out (LiveWindowMinutes current))
              | Some live \<Rightarrow>
                  if live < minLiveWindowMinutes \<or> live > maxLiveWindowMinutes
                  then Inl (range_message ''live_window_minutes'' minLiveWindowMinutes maxLiveWindowMinutes)
                  else Inr (out live)))"

lemmas settings_bounds = minInterval_def maxInterval_def minHeartbeatMiss_def maxHeartbeatMiss_def
  maxRetentionDays_def minLiveWindowMinutes_def maxLiveWindowMinutes_def

text \<open>What a validated payload guarantees of everything the program computes from it.\<close>

definition settings_ok :: "settings \<Rightarrow> bool" where
  "settings_ok s \<longleftrightarrow> 2 \<le> Interval s \<and> Interval s \<le> 3600 \<and>
     1 \<le> HeartbeatMissThreshold s \<and> HeartbeatMissThreshold s \<le> 100 \<and>
     1 \<le> Retention1mDays s \<and> Retention1mDays s \<le> 3650 \<and>
     1 \<le> Retention1hDays s \<and> Retention1hDays s \<le> 3650 \<and>
     1 \<le> LiveWindowMinutes s \<and> LiveWindowMinutes s \<le> 60"

lemma check_fields_None:
  "check_fields fs = None \<longleftrightarrow>
     (\<forall>f \<in> set fs. \<exists>v. bd_value f = Some v \<and> bd_min f \<le> v \<and> v \<le> bd_max f)"
  by (induction fs) (auto split: option.splits)

lemma validate_Inr:
  assumes "validate p current = Inr s"
  shows "p_Interval p = Some (Interval s)" "2 \<le> Interval s" "Interval s \<le> 3600"
    "p_HeartbeatMissThreshold p = Some (HeartbeatMissThreshold s)"
    "1 \<le> HeartbeatMissThreshold s" "HeartbeatMissThreshold s \<le> 100"
    "p_Retention1mDays p = Some (Retention1mDays s)" "1 \<le> Retention1mDays s" "Retention1mDays s \<le> 3650"
    "p_Retention1hDays p = Some (Retention1hDays s)" "1 \<le> Retention1hDays s" "Retention1hDays s \<le> 3650"
    "p_LiveWindowMinutes p = None \<and> LiveWindowMinutes s = LiveWindowMinutes current \<or>
     p_LiveWindowMinutes p = Some (LiveWindowMinutes s) \<and> 1 \<le> LiveWindowMinutes s \<and> LiveWindowMinutes s \<le> 60"
  using assms
  by (auto simp: validate_def Let_def check_fields_None settings_fields_def settings_bounds
      split: option.splits if_splits)

section \<open>Reading back what was saved\<close>

lemma table_fun_put_setting [simp]: "table_fun (put_setting k v)"
  by (simp add: table_fun_def put_setting_def tables_def)

interpretation setting_table: keyed_table "\<lambda>d. map_of (settings_tab d)" put_setting
  by unfold_locales (simp add: put_setting_def map_of_update)

lemma save_pairs_Inr:
  "save_pairs ps d = (Inr a, d') \<Longrightarrow> tables d' = setting_table.put_all ps (tables d)"
proof (induction ps arbitrary: d)
  case (Cons p ps)
  then show ?case by (cases p) (auto simp: bnd_eq_Inr dest!: modify_Inr [rotated])
qed (simp add: ret_def)

lemma save_pairs_prefix:
  "\<exists>n. tables (snd (save_pairs ps d)) = setting_table.put_all (take n ps) (tables d)"
proof (induction ps arbitrary: d)
  case Nil
  then show ?case by (simp add: ret_def)
next
  case (Cons p ps)
  obtain k v where p: "p = (k, v)" by (cases p)
  obtain r d1 where m: "modify (put_setting k v) d = (r, d1)" by fastforce
  show ?case
  proof (cases r)
    case (Inl e)
    then have "tables d1 = tables d" using m atomic_opD [OF atomic_modify] by blast
    then have "tables (snd (save_pairs (p # ps) d)) = setting_table.put_all (take 0 (p # ps)) (tables d)"
      using m Inl by (simp add: p bnd_def)
    then show ?thesis ..
  next
    case (Inr a)
    then have d1: "tables d1 = put_setting k v (tables d)" using m modify_Inr [OF table_fun_put_setting] by auto
    obtain n where "tables (snd (save_pairs ps d1)) = setting_table.put_all (take n ps) (tables d1)"
      using Cons.IH by blast
    then have "tables (snd (save_pairs (p # ps) d)) = setting_table.put_all (take (Suc n) (p # ps)) (tables d)"
      using m Inr d1 by (simp add: p bnd_def)
    then show ?thesis ..
  qed
qed

lemma distinct_settings_pairs [simp]: "distinct (map fst (settings_pairs s))"
  by (simp add: settings_pairs_def)

lemma any_order_pairs:
  assumes "any_order ord"
  shows "distinct (map fst (ord (settings_pairs s)))"
    and "map_of (ord (settings_pairs s)) = map_of (settings_pairs s)"
    and "set (ord (settings_pairs s)) = set (settings_pairs s)"
proof -
  have m: "mset (ord (settings_pairs s)) = mset (settings_pairs s)"
    using assms by (simp add: any_order_def)
  then show d: "distinct (map fst (ord (settings_pairs s)))"
    by (metis distinct_settings_pairs mset_eq_imp_distinct_iff mset_map)
  show s: "set (ord (settings_pairs s)) = set (settings_pairs s)"
    using m by (rule mset_eq_setD)
  show "map_of (ord (settings_pairs s)) = map_of (settings_pairs s)"
    using d s by (simp add: map_of_inject_set)
qed

lemma scan_settings_Inr:
  assumes "\<forall>(k, v) \<in> set rows. ParseInt v \<noteq> None"
  shows "\<exists>s. scan_settings out rows = Inr s"
  using assms by (induction rows arbitrary: out) auto

text \<open>With one row per key, a field of the result is its own row's value or the default.\<close>

definition setting_of :: "settings \<Rightarrow> string \<Rightarrow> int" where
  "setting_of s k = (if k = ''interval'' then Interval s
     else if k = ''heartbeat_miss_threshold'' then HeartbeatMissThreshold s
     else if k = ''retention_1m_days'' then Retention1mDays s
     else if k = ''retention_1h_days'' then Retention1hDays s
     else LiveWindowMinutes s)"

definition setting_keys :: "string set" where
  "setting_keys = {''interval'', ''heartbeat_miss_threshold'', ''retention_1m_days'',
     ''retention_1h_days'', ''live_window_minutes''}"

lemma setting_of_set: "k \<in> setting_keys \<Longrightarrow>
    setting_of (set_setting k' n out) k = (if k' = k then n else setting_of out k)"
  by (auto simp: setting_keys_def setting_of_def set_setting_def)

lemma settings_eqI:
  assumes "\<And>k. k \<in> setting_keys \<Longrightarrow> setting_of s k = setting_of t k"
  shows "s = t"
  using assms [of "''interval''"] assms [of "''heartbeat_miss_threshold''"]
    assms [of "''retention_1m_days''"] assms [of "''retention_1h_days''"]
    assms [of "''live_window_minutes''"]
  by (cases s; cases t) (simp add: setting_keys_def setting_of_def)

lemma scan_settings_field:
  assumes "scan_settings out rows = Inr s" and "distinct (map fst rows)" and "k \<in> setting_keys"
  shows "setting_of s k = (case map_of rows k of None \<Rightarrow> setting_of out k | Some v \<Rightarrow> the (ParseInt v))"
  using assms
proof (induction rows arbitrary: out)
  case (Cons r rows)
  obtain k' v where r: "r = (k', v)" by (cases r)
  then obtain n where n: "ParseInt v = Some n" "scan_settings (set_setting k' n out) rows = Inr s"
    using Cons.prems(1) by (auto split: option.splits)
  moreover have "k' = k \<Longrightarrow> map_of rows k = None"
    using Cons.prems(2) by (auto simp: r map_of_eq_None_iff)
  ultimately show ?case
    using Cons.IH [OF n(2)] Cons.prems by (auto simp: r setting_of_set split: option.split)
qed simp

lemma map_of_settings_pairs:
  "k \<in> setting_keys \<Longrightarrow> map_of (settings_pairs s) k = Some (Itoa (setting_of s k))"
  by (auto simp: setting_keys_def settings_pairs_def setting_of_def)

lemma keys_settings_pairs: "(k, v) \<in> set (settings_pairs s) \<Longrightarrow>
    k \<in> setting_keys \<and> v = Itoa (setting_of s k)"
  by (auto simp: setting_keys_def settings_pairs_def setting_of_def)

definition settings_int64 :: "settings \<Rightarrow> bool" where
  "settings_int64 s \<longleftrightarrow> (\<forall>k \<in> setting_keys. int64 (setting_of s k))"

text \<open>Every stored value is numeric and there is one row per key.\<close>

definition settings_tab_ok :: "(string \<times> string) list \<Rightarrow> bool" where
  "settings_tab_ok t \<longleftrightarrow> distinct (map fst t) \<and> (\<forall>(k, v) \<in> set t. ParseInt v \<noteq> None)"

lemma settings_tab_ok_map_of:
  "settings_tab_ok t \<longleftrightarrow> distinct (map fst t) \<and> (\<forall>k v. map_of t k = Some v \<longrightarrow> ParseInt v \<noteq> None)"
  by (auto simp: settings_tab_ok_def dest: map_of_SomeD)

lemma settings_tab_ok_put:
  "settings_tab_ok (settings_tab d) \<Longrightarrow> int64 n \<Longrightarrow> settings_tab_ok (settings_tab (put_setting k (Itoa n) d))"
  by (auto simp: settings_tab_ok_map_of put_setting_def map_of_update distinct_update)

lemma settings_tab_ok_put_all:
  assumes "settings_tab_ok (settings_tab d)" and "\<forall>(k, v) \<in> set ps. \<exists>n. int64 n \<and> v = Itoa n"
  shows "settings_tab_ok (settings_tab (setting_table.put_all ps d))"
  using assms by (induction ps arbitrary: d) (auto intro: settings_tab_ok_put)

lemma GetSettings_Inr:
  assumes "GetSettings d = (Inr s, d')"
  shows "scan_settings defaultSettings (settings_tab d) = Inr s" and "tables d' = tables d"
proof -
  from assms obtain rows d0 where q: "query settings_tab d = (Inr rows, d0)"
    and r: "lift_result (scan_settings defaultSettings rows) d0 = (Inr s, d')"
    by (auto simp: GetSettings_def bnd_eq_Inr)
  from query_Inr [OF q] have "rows = settings_tab d" "tables d0 = tables d"
    by (auto dest: tables_eqD)
  with r show "scan_settings defaultSettings (settings_tab d) = Inr s" "tables d' = tables d"
    by (auto simp: lift_result_def ret_def fail_def split: sum.splits)
qed

lemma read_only_lift_result: "read_only (lift_result r)"
  by (auto simp: lift_result_def read_only_ret read_only_fail split: sum.split)

lemma read_only_GetSettings: "read_only GetSettings"
  unfolding GetSettings_def by (intro read_only_rules read_only_lift_result)

lemma GetSettings_healthy:
  "healthy d \<Longrightarrow> GetSettings d = (scan_settings defaultSettings (settings_tab d), d)"
  by (simp add: GetSettings_def bnd_def lift_result_def ret_def fail_def split: sum.splits)

section \<open>Properties\<close>

definition in_range :: "int option \<Rightarrow> int \<Rightarrow> int \<Rightarrow> bool" where
  "in_range v lo hi \<longleftrightarrow> (case v of None \<Rightarrow> False | Some n \<Rightarrow> lo \<le> n \<and> n \<le> hi)"

text \<open>
  Validation accepts exactly the payloads in range: it answers a settings object if and
  only if every required field is present and within its bounds and the optional live window,
  when given, is within its own; the object then holds the payload's values and the current
  live window where none was given.
\<close>

theorem validate_exact:
  "(case validate p current of
      Inl msg \<Rightarrow> \<not> (in_range (p_Interval p) 2 3600 \<and> in_range (p_HeartbeatMissThreshold p) 1 100 \<and>
        in_range (p_Retention1mDays p) 1 3650 \<and> in_range (p_Retention1hDays p) 1 3650 \<and>
        (p_LiveWindowMinutes p = None \<or> in_range (p_LiveWindowMinutes p) 1 60))
    | Inr s \<Rightarrow> in_range (p_Interval p) 2 3600 \<and> in_range (p_HeartbeatMissThreshold p) 1 100 \<and>
        in_range (p_Retention1mDays p) 1 3650 \<and> in_range (p_Retention1hDays p) 1 3650 \<and>
        (p_LiveWindowMinutes p = None \<or> in_range (p_LiveWindowMinutes p) 1 60) \<and>
        p_Interval p = Some (Interval s) \<and> p_HeartbeatMissThreshold p = Some (HeartbeatMissThreshold s) \<and>
        p_Retention1mDays p = Some (Retention1mDays s) \<and> p_Retention1hDays p = Some (Retention1hDays s) \<and>
        LiveWindowMinutes s = (case p_LiveWindowMinutes p of None \<Rightarrow> LiveWindowMinutes current | Some n \<Rightarrow> n))"
  by (auto simp: validate_def Let_def settings_fields_def settings_bounds in_range_def split: option.split)

lemma saved_table:
  assumes "any_order ord"
  shows "map_of (settings_tab (setting_table.put_all (ord (settings_pairs s)) d)) k =
    (case map_of (settings_pairs s) k of None \<Rightarrow> map_of (settings_tab d) k | Some v \<Rightarrow> Some v)"
  using setting_table.lookup_put_all [OF any_order_pairs(1) [OF assms], of d s k] any_order_pairs(2) [OF assms, of s]
  by (simp del: map_of_eq_Some_iff)

text \<open>The table after a save that succeeded, and after one that failed part way.\<close>

lemma saved_scan:
  assumes ord: "any_order ord" and s: "settings_int64 s" and tab: "settings_tab_ok (settings_tab d)"
    and save: "SaveSettings ord s d = (Inr (), d1)"
  shows "scan_settings defaultSettings (settings_tab d1) = Inr s" "settings_tab_ok (settings_tab d1)"
proof -
  have d1: "settings_tab d1 = settings_tab (setting_table.put_all (ord (settings_pairs s)) (tables d))"
    using tables_effect(7) [OF save_pairs_Inr [OF save [unfolded SaveSettings_def]]] .
  have vals: "\<forall>(k, v) \<in> set (ord (settings_pairs s)). \<exists>n. int64 n \<and> v = Itoa n"
    using s any_order_pairs(3) [OF ord, of s] by (auto simp: settings_int64_def dest!: keys_settings_pairs)
  then have ok: "settings_tab_ok (settings_tab d1)"
    unfolding d1 using tab by (intro settings_tab_ok_put_all) simp_all
  then obtain t where t: "scan_settings defaultSettings (settings_tab d1) = Inr t"
    using scan_settings_Inr [of "settings_tab d1" defaultSettings] by (auto simp: settings_tab_ok_def)
  have "t = s"
  proof (rule settings_eqI)
    fix k assume k: "k \<in> setting_keys"
    have "map_of (settings_tab d1) k = Some (Itoa (setting_of s k))"
      unfolding d1 saved_table [OF ord] using map_of_settings_pairs [OF k, of s] by (simp del: map_of_eq_Some_iff)
    with scan_settings_field [OF t _ k] ok s k show "setting_of t k = setting_of s k"
      by (simp add: settings_tab_ok_def settings_int64_def del: map_of_eq_Some_iff)
  qed
  with t ok show "scan_settings defaultSettings (settings_tab d1) = Inr s" "settings_tab_ok (settings_tab d1)"
    by simp_all
qed

lemma saved_mixed:
  assumes ord: "any_order ord" and s: "settings_int64 s" and tab: "settings_tab_ok (settings_tab d)"
    and save: "SaveSettings ord s d = (r, d1)"
  shows "\<exists>old new. scan_settings defaultSettings (settings_tab d) = Inr old \<and>
    scan_settings defaultSettings (settings_tab d1) = Inr new \<and>
    (\<forall>k \<in> setting_keys. setting_of new k \<in> {setting_of old k, setting_of s k})"
proof -
  obtain n where n: "tables d1 = setting_table.put_all (take n (ord (settings_pairs s))) (tables d)"
    using save_pairs_prefix [of "ord (settings_pairs s)" d] save by (auto simp: SaveSettings_def)
  let ?ps = "take n (ord (settings_pairs s))"
  have mem: "(k, v) \<in> set ?ps \<Longrightarrow> k \<in> setting_keys \<and> v = Itoa (setting_of s k)" for k v
    using any_order_pairs(3) [OF ord, of s] by (blast dest: in_set_takeD keys_settings_pairs)
  have ok1: "settings_tab_ok (settings_tab d1)"
    unfolding tables_effect(7) [OF n]
    by (rule settings_tab_ok_put_all) (use tab s mem in \<open>auto simp: settings_int64_def\<close>)
  obtain old where old: "scan_settings defaultSettings (settings_tab d) = Inr old"
    using scan_settings_Inr [of "settings_tab d" defaultSettings] tab by (auto simp: settings_tab_ok_def)
  obtain new where new: "scan_settings defaultSettings (settings_tab d1) = Inr new"
    using scan_settings_Inr [of "settings_tab d1" defaultSettings] ok1 by (auto simp: settings_tab_ok_def)
  have dist: "distinct (map fst ?ps)"
    using any_order_pairs(1) [OF ord, of s] by (metis distinct_take take_map)
  have "setting_of new k \<in> {setting_of old k, setting_of s k}" if k: "k \<in> setting_keys" for k
  proof -
    have at: "map_of (settings_tab d1) k = (case map_of ?ps k of None \<Rightarrow> map_of (settings_tab d) k | Some v \<Rightarrow> Some v)"
      unfolding tables_effect(7) [OF n] 
      using setting_table.lookup_put_all [OF dist, of "tables d" k, unfolded tables_sel] .
    have f0: "setting_of old k = (case map_of (settings_tab d) k of None \<Rightarrow> setting_of defaultSettings k | Some v \<Rightarrow> the (ParseInt v))"
      by (rule scan_settings_field [OF old _ k]) (use tab in \<open>simp add: settings_tab_ok_def\<close>)
    have f1: "setting_of new k = (case map_of (settings_tab d1) k of None \<Rightarrow> setting_of defaultSettings k | Some v \<Rightarrow> the (ParseInt v))"
      by (rule scan_settings_field [OF new _ k]) (use ok1 in \<open>simp add: settings_tab_ok_def\<close>)
    show ?thesis
    proof (cases "map_of ?ps k")
      case None
      with f0 f1 at show ?thesis by (simp del: map_of_eq_None_iff)
    next
      case (Some v)
      then have "v = Itoa (setting_of s k)" using mem map_of_SomeD by fast
      with Some f1 at s k show ?thesis by (simp add: settings_int64_def del: map_of_eq_Some_iff)
    qed
  qed
  with old new show ?thesis by blast
qed

text \<open>
  What is saved is what is read: after a save that succeeds, in whatever order the fields
  were written and whatever the table held before (one numeric row per key), a read returns the
  saved settings.
\<close>

theorem SaveSettings_GetSettings:
  assumes "any_order ord" and "settings_int64 s" and "settings_tab_ok (settings_tab d)"
    and "SaveSettings ord s d = (Inr (), d1)" and "healthy d1"
  shows "GetSettings d1 = (Inr s, d1)"
  using saved_scan(1) [OF assms(1-4)] assms(5) by (simp add: GetSettings_healthy)

theorem SaveSettings_GetSettings_witness:
  "let s = defaultSettings\<lparr>Interval := 30\<rparr>; d1 = snd (SaveSettings rev s (empty_db :: int db))
   in GetSettings d1 = (Inr s, d1)"
proof -
  let ?s = "defaultSettings\<lparr>Interval := 30\<rparr>"
  let ?d1 = "snd (SaveSettings rev ?s (empty_db :: int db))"
  have "SaveSettings rev ?s (empty_db :: int db) = (Inr (), ?d1)" "healthy ?d1"
    by (simp_all add: SaveSettings_def settings_pairs_def bnd_def ret_def empty_db_def modify_def exec_def
        take_fault_def put_setting_def healthy_def)
  from SaveSettings_GetSettings [OF _ _ _ this] show ?thesis
    by (simp add: any_order_def settings_int64_def setting_keys_def setting_of_def defaultSettings_def
        DefaultLiveWindowMinutes_def int64_def settings_tab_ok_def empty_db_def)
qed

lemma scan_settings_int64:
  assumes "scan_settings out rows = Inr s" "settings_int64 out"
  shows "settings_int64 s"
  using assms
proof (induction rows arbitrary: out)
  case (Cons r rows)
  then show ?case
    by (cases r) (auto simp: settings_int64_def setting_of_set dest: ParseInt_range split: option.splits)
qed simp

lemma defaults_int64: "settings_int64 defaultSettings"
  by (simp add: settings_int64_def setting_keys_def setting_of_def defaultSettings_def DefaultLiveWindowMinutes_def int64_def)

lemma validate_int64:
  assumes "validate p current = Inr s" "settings_int64 current"
  shows "settings_int64 s"
  using validate_Inr [OF assms(1)] assms(2)
  by (auto simp: settings_int64_def setting_keys_def setting_of_def int64_def)

text \<open>Field by field, a mixture of two settings in range is in range.\<close>

lemma settings_ok_mixed:
  assumes "settings_ok old" "settings_ok s" "\<forall>k \<in> setting_keys. setting_of new k \<in> {setting_of old k, setting_of s k}"
  shows "settings_ok new"
proof -
  have f: "Interval new = Interval old \<or> Interval new = Interval s"
    "HeartbeatMissThreshold new = HeartbeatMissThreshold old \<or> HeartbeatMissThreshold new = HeartbeatMissThreshold s"
    "Retention1mDays new = Retention1mDays old \<or> Retention1mDays new = Retention1mDays s"
    "Retention1hDays new = Retention1hDays old \<or> Retention1hDays new = Retention1hDays s"
    "LiveWindowMinutes new = LiveWindowMinutes old \<or> LiveWindowMinutes new = LiveWindowMinutes s"
    using assms(3) by (simp_all add: setting_keys_def setting_of_def)
  note ok = assms(1,2) [unfolded settings_ok_def]
  from f(1) ok have "2 \<le> Interval new \<and> Interval new \<le> 3600" by (elim disjE) simp_all
  moreover from f(2) ok have "1 \<le> HeartbeatMissThreshold new \<and> HeartbeatMissThreshold new \<le> 100" by (elim disjE) simp_all
  moreover from f(3) ok have "1 \<le> Retention1mDays new \<and> Retention1mDays new \<le> 3650" by (elim disjE) simp_all
  moreover from f(4) ok have "1 \<le> Retention1hDays new \<and> Retention1hDays new \<le> 3650" by (elim disjE) simp_all
  moreover from f(5) ok have "1 \<le> LiveWindowMinutes new \<and> LiveWindowMinutes new \<le> 60" by (elim disjE) simp_all
  ultimately show ?thesis by (simp add: settings_ok_def)
qed

lemma validate_settings_ok: "validate p current = Inr s \<Longrightarrow> settings_ok current \<Longrightarrow> settings_ok s"
  using validate_Inr [of p current s] by (auto simp: settings_ok_def)

end
