(* ===== verification/Server_Groups.thy ===== *)
theory Server_Groups
  imports Rollup
begin

text \<open>
  Server groups: \<open>mother/store/groups.go\<close>. Names are bounded in runes and may not hold
  control characters; the engine's UNIQUE constraint is recognised by the text of its
  message, as the code does. Membership rows are pairs; the program declares no foreign
  key, so a membership may name a server that does not exist.
\<close>

section \<open>Names\<close>

definition maxGroupNameRunes :: nat where "maxGroupNameRunes = 64"

definition validGroupName :: "string \<Rightarrow> string option" where
  "validGroupName name =
     (let trimmed = TrimSpace name in
      if trimmed = '''' \<or> RuneCount trimmed > maxGroupNameRunes then None
      else if list_ex (\<lambda>(r, b). rune_is_control r) (runes trimmed) then None
      else Some trimmed)"

section \<open>Operations\<close>

definition unique_message :: string where
  "unique_message = ''UNIQUE constraint failed: server_groups.name''"

text \<open>\<open>strings.Contains(err.Error(), "UNIQUE constraint failed")\<close>\<close>

definition duplicate_error :: "store_error \<Rightarrow> store_error" where
  "duplicate_error e = (case e of
       ErrSql m \<Rightarrow> if Contains m ''UNIQUE constraint failed'' then ErrDuplicateGroupName else e
     | _ \<Rightarrow> e)"

definition insert_group ::
  "(int list \<Rightarrow> int) \<Rightarrow> string \<Rightarrow> int \<Rightarrow> 'v db \<Rightarrow> string + int \<times> 'v db" where
  "insert_group alloc name created d =
     (if \<exists>g \<in> set (server_groups d). gr_name g = name then Inl unique_message
      else let i = alloc (map gr_id (server_groups d))
           in Inr (i, d\<lparr>server_groups := server_groups d @
                     [\<lparr>gr_id = i, gr_name = name, gr_created_at = created\<rparr>]\<rparr>))"

definition CreateGroup :: "(int list \<Rightarrow> int) \<Rightarrow> int \<Rightarrow> string \<Rightarrow> ('v, group) op" where
  "CreateGroup alloc now name =
     (case validGroupName name of
        None \<Rightarrow> fail ErrInvalidGroupName
      | Some clean \<Rightarrow>
          bnd (on_error (exec (insert_group alloc clean (unix now))) duplicate_error)
              (\<lambda>i. ret \<lparr>g_ID = i, g_Name = clean, g_ServerCount = 0, g_CreatedAt = unix now\<rparr>))"

definition list_groups :: "'v db \<Rightarrow> group list" where
  "list_groups d =
     map (\<lambda>g. \<lparr>g_ID = gr_id g, g_Name = gr_name g,
               g_ServerCount = length (filter (\<lambda>(gid, sid). gid = gr_id g) (group_members d)),
               g_CreatedAt = gr_created_at g\<rparr>)
         (sort_key gr_name (server_groups d))"

definition ListGroups :: "('v, group list) op" where
  "ListGroups = query list_groups"

definition rename_group :: "int \<Rightarrow> string \<Rightarrow> 'v db \<Rightarrow> string + nat \<times> 'v db" where
  "rename_group i name d =
     (let n = length (filter (\<lambda>g. gr_id g = i) (server_groups d)) in
      if n \<noteq> 0 \<and> (\<exists>g \<in> set (server_groups d). gr_name g = name \<and> gr_id g \<noteq> i)
      then Inl unique_message
      else Inr (n, d\<lparr>server_groups :=
             map (\<lambda>g. if gr_id g = i then g\<lparr>gr_name := name\<rparr> else g) (server_groups d)\<rparr>))"

definition RenameGroup :: "int \<Rightarrow> string \<Rightarrow> ('v, unit) op" where
  "RenameGroup i name =
     (case validGroupName name of
        None \<Rightarrow> fail ErrInvalidGroupName
      | Some clean \<Rightarrow>
          bnd (on_error (exec (rename_group i clean)) duplicate_error) require_rows)"

definition del_groups :: "int \<Rightarrow> 'v db \<Rightarrow> 'v db" where
  "del_groups i d = d\<lparr>server_groups := filter (\<lambda>g. gr_id g \<noteq> i) (server_groups d)\<rparr>"

definition del_groups_count :: "int \<Rightarrow> ('v, nat) op" where
  "del_groups_count i =
     exec (\<lambda>d. Inr (length (filter (\<lambda>g. gr_id g = i) (server_groups d)), del_groups i d))"

definition DeleteGroup :: "int \<Rightarrow> ('v, unit) op" where
  "DeleteGroup i = in_tx (
     bnd (modify (del_members (\<lambda>(gid, sid). gid = i))) (\<lambda>_.
     bnd (del_groups_count i) require_rows))"

definition groupExists :: "int \<Rightarrow> ('v, unit) op" where
  "groupExists i =
     bnd (query (\<lambda>d. find (\<lambda>g. gr_id g = i) (server_groups d)))
         (\<lambda>r. case r of None \<Rightarrow> fail ErrNotFound | Some g \<Rightarrow> ret ())"

text \<open>\<open>INSERT OR IGNORE\<close> of one membership row per id.\<close>

definition add_members :: "int \<Rightarrow> int list \<Rightarrow> 'v db \<Rightarrow> 'v db" where
  "add_members gid ids d = d\<lparr>group_members :=
     foldl (\<lambda>ms sid. if (gid, sid) \<in> set ms then ms else ms @ [(gid, sid)]) (group_members d) ids\<rparr>"

definition SetGroupServers :: "int \<Rightarrow> int list \<Rightarrow> ('v, unit) op" where
  "SetGroupServers gid ids =
     bnd (groupExists gid) (\<lambda>_. in_tx (
       bnd (modify (del_members (\<lambda>(g, sid). g = gid))) (\<lambda>_.
       if length ids > 0
       then on_error (modify (add_members gid ids)) (wrap_error ''set group members: '')
       else ret ())))"

definition servers_in_group :: "int \<Rightarrow> 'v db \<Rightarrow> server list" where
  "servers_in_group gid d =
     sort_key srv_Name (filter (\<lambda>s. (gid, srv_ID s) \<in> set (group_members d)) (servers d))"

definition ServersInGroup :: "int \<Rightarrow> ('v, server list) op" where
  "ServersInGroup gid = query (servers_in_group gid)"

definition groups_of_server :: "'v db \<Rightarrow> int \<Rightarrow> group list" where
  "groups_of_server d sid =
     map (\<lambda>g. \<lparr>g_ID = gr_id g, g_Name = gr_name g, g_ServerCount = 0, g_CreatedAt = gr_created_at g\<rparr>)
         (filter (\<lambda>g. (gr_id g, sid) \<in> set (group_members d)) (sort_key gr_name (server_groups d)))"

definition GroupsByServer :: "('v, int \<Rightarrow> group list) op" where
  "GroupsByServer = query groups_of_server"

section \<open>Effects\<close>

definition purge_group :: "int \<Rightarrow> 'v db \<Rightarrow> 'v db" where
  "purge_group i d = d\<lparr>server_groups := filter (\<lambda>g. gr_id g \<noteq> i) (server_groups d),
     group_members := filter (\<lambda>(gid, sid). gid \<noteq> i) (group_members d)\<rparr>"

definition replace_members :: "int \<Rightarrow> int list \<Rightarrow> 'v db \<Rightarrow> 'v db" where
  "replace_members gid ids d = add_members gid ids (del_members (\<lambda>(g, sid). g = gid) d)"

lemma table_fun_groups [simp]: "table_fun (del_groups i)" "table_fun (add_members i ids)"
  by (simp_all add: table_fun_def tables_def del_groups_def add_members_def)

lemma set_add_members: "set (group_members (add_members gid ids d)) =
    set (group_members d) \<union> (\<lambda>sid. (gid, sid)) ` set ids"
proof -
  have "set (foldl (\<lambda>ms sid. if (gid, sid) \<in> set ms then ms else ms @ [(gid, sid)]) ms ids) =
      set ms \<union> (\<lambda>sid. (gid, sid)) ` set ids" for ms
    by (induction ids arbitrary: ms) auto
  then show ?thesis by (simp add: add_members_def)
qed

lemma distinct_add_members: "distinct (group_members d) \<Longrightarrow> distinct (group_members (add_members gid ids d))"
proof -
  have "distinct ms \<Longrightarrow>
      distinct (foldl (\<lambda>ms sid. if (gid, sid) \<in> set ms then ms else ms @ [(gid, sid)]) ms ids)" for ms
    by (induction ids arbitrary: ms) auto
  then show "distinct (group_members d) \<Longrightarrow> distinct (group_members (add_members gid ids d))"
    by (simp add: add_members_def)
qed

lemma set_replace_members: "set (group_members (replace_members gid ids d)) =
    {m \<in> set (group_members d). fst m \<noteq> gid} \<union> (\<lambda>sid. (gid, sid)) ` set ids"
  by (auto simp: replace_members_def set_add_members del_members_def)

lemma del_groups_count_Inr:
  assumes "del_groups_count i d = (Inr n, d')"
  shows "tables d' = del_groups i (tables d) \<and>
    n = length (filter (\<lambda>g. gr_id g = i) (server_groups d))"
proof -
  from assms obtain d0 where d0: "tables d0 = tables d" "d' = del_groups i d0"
    "n = length (filter (\<lambda>g. gr_id g = i) (server_groups d0))"
    by (auto simp: del_groups_count_def elim!: exec_Inr)
  have "tables (del_groups i d0) = del_groups i (tables d0)"
    using table_fun_groups(1) by (auto simp: table_fun_def)
  with d0 show ?thesis by (metis tables_sel(4))
qed

lemma purge_group_steps: "purge_group i d = del_groups i (del_members (\<lambda>(gid, sid). gid = i) d)"
  by (simp add: purge_group_def del_groups_def del_members_def case_prod_unfold)

interpretation delete_group: committed "DeleteGroup i" "purge_group i"
proof
  fix d e d' assume "DeleteGroup i d = (Inl e, d')"
  then show "tables d' = tables d"
    unfolding DeleteGroup_def by (rule atomic_opD [OF atomic_tx])
next
  fix d a d' assume run: "DeleteGroup i d = (Inr a, d')"
  then show "tables d' = purge_group i (tables d)"
    unfolding DeleteGroup_def
    by (auto simp: purge_group_steps bnd_eq_Inr require_rows_def ret_def fail_def split: if_splits
        elim!: in_tx_Inr dest!: modify_Inr [rotated] del_groups_count_Inr)
qed

lemma read_only_groupExists: "read_only (groupExists gid)"
  unfolding groupExists_def by (intro read_only_rules) (simp add: read_only_rules split: option.split)

lemma groupExists_Inr:
  assumes "groupExists gid d = (Inr a, d')"
  shows "tables d' = tables d \<and> (\<exists>g \<in> set (server_groups d). gr_id g = gid)"
proof -
  from assms obtain g d0 where q: "query (\<lambda>d. find (\<lambda>g. gr_id g = gid) (server_groups d)) d = (Inr (Some g), d0)"
    by (auto simp: groupExists_def bnd_eq_Inr ret_def fail_def split: option.splits)
  from query_Inr [OF q] have "find (\<lambda>g. gr_id g = gid) (server_groups d) = Some g"
    by (metis tables_eqD(4))
  then have "\<exists>g \<in> set (server_groups d). gr_id g = gid"
    by (blast dest: find_Some_mem)
  with read_onlyD [OF read_only_groupExists assms] show ?thesis by simp
qed

interpretation set_group_servers: committed "SetGroupServers gid ids" "replace_members gid ids"
proof
  fix d e d' assume "SetGroupServers gid ids d = (Inl e, d')"
  then show "tables d' = tables d"
    unfolding SetGroupServers_def
    by (rule atomic_opD [OF atomic_bnd [OF read_only_groupExists atomic_tx]])
next
  fix d a d' assume "SetGroupServers gid ids d = (Inr a, d')"
  then show "tables d' = replace_members gid ids (tables d)"
    by (auto simp: SetGroupServers_def replace_members_def bnd_eq_Inr ret_def add_members_def
        split: if_splits elim!: in_tx_Inr dest!: modify_Inr [rotated] groupExists_Inr)
qed

lemma insert_group_Inr:
  assumes "insert_group alloc name c d = Inr (i, d')"
  shows "i = alloc (map gr_id (server_groups d))" "\<forall>g \<in> set (server_groups d). gr_name g \<noteq> name"
    "d' = d\<lparr>server_groups := server_groups d @ [\<lparr>gr_id = i, gr_name = name, gr_created_at = c\<rparr>]\<rparr>"
  using assms by (auto simp: insert_group_def Let_def split: if_splits)

lemma CreateGroup_Inr:
  assumes "CreateGroup alloc now name d = (Inr g, d')"
  shows "validGroupName name = Some (g_Name g)"
    and "\<forall>r \<in> set (server_groups d). gr_name r \<noteq> g_Name g"
    and "g_ID g = alloc (map gr_id (server_groups d))"
    and "tables d' = tables (d\<lparr>server_groups := server_groups d @
           [\<lparr>gr_id = g_ID g, gr_name = g_Name g, gr_created_at = unix now\<rparr>]\<rparr>)"
proof -
  from assms obtain clean d0 i where clean: "validGroupName name = Some clean"
    and d0: "tables d0 = tables d" and ins: "insert_group alloc clean (unix now) d0 = Inr (i, d')"
    and g: "g = \<lparr>g_ID = i, g_Name = clean, g_ServerCount = 0, g_CreatedAt = unix now\<rparr>"
    by (auto simp: CreateGroup_def bnd_eq_Inr ret_def fail_def elim!: exec_Inr split: option.splits)
  from d0 have same: "server_groups d0 = server_groups d" by (rule tables_eqD)
  show "validGroupName name = Some (g_Name g)" using clean g by simp
  show "\<forall>r \<in> set (server_groups d). gr_name r \<noteq> g_Name g"
    using insert_group_Inr(2) [OF ins] same g by simp
  show "g_ID g = alloc (map gr_id (server_groups d))"
    using insert_group_Inr(1) [OF ins] same g by simp
  show "tables d' = tables (d\<lparr>server_groups := server_groups d @
           [\<lparr>gr_id = g_ID g, gr_name = g_Name g, gr_created_at = unix now\<rparr>]\<rparr>)"
    using insert_group_Inr(3) [OF ins] d0 same g by (simp add: tables_eq_iff)
qed

lemma CreateGroup_Inl: "CreateGroup alloc now name d = (Inl e, d') \<Longrightarrow> tables d' = tables d"
  by (auto simp: CreateGroup_def bnd_eq_Inl ret_def fail_def on_error_def
      split: option.splits prod.splits sum.splits dest: exec_Inl)

section \<open>Properties\<close>

text \<open>
  Setting a group's servers replaces its membership as a whole: after a success the group
  holds exactly the ids given, each once, and no other group's membership has changed; when any
  statement fails, or the group does not exist, no membership has changed.
\<close>

theorem SetGroupServers_replaces:
  assumes "SetGroupServers gid ids d = (r, d')"
  shows "case r of
      Inl e \<Rightarrow> tables d' = tables d
    | Inr u \<Rightarrow> (\<exists>g \<in> set (server_groups d). gr_id g = gid) \<and>
        (\<forall>sid. (gid, sid) \<in> set (group_members d') \<longleftrightarrow> sid \<in> set ids) \<and>
        (\<forall>g sid. g \<noteq> gid \<longrightarrow> ((g, sid) \<in> set (group_members d') \<longleftrightarrow> (g, sid) \<in> set (group_members d))) \<and>
        (distinct (group_members d) \<longrightarrow> distinct (group_members d')) \<and>
        servers d' = servers d \<and> server_groups d' = server_groups d"
proof (cases r)
  case (Inl e)
  with assms show ?thesis by (simp add: set_group_servers.error_keeps)
next
  case (Inr u)
  note e = tables_effect [OF set_group_servers.success_effect [OF assms [unfolded Inr]]]
  have "\<exists>g \<in> set (server_groups d). gr_id g = gid"
    using assms Inr by (auto simp: SetGroupServers_def bnd_eq_Inr dest!: groupExists_Inr)
  moreover have "distinct (group_members (replace_members gid ids (tables d)))" if "distinct (group_members d)"
    using that unfolding replace_members_def by (intro distinct_add_members) (simp add: del_members_def)
  moreover have "servers d' = servers d" "server_groups d' = server_groups d"
    using e(1,4) by (simp_all add: replace_members_def add_members_def del_members_def)
  ultimately show ?thesis
    by (auto simp: Inr e(5) set_replace_members)
qed

theorem SetGroupServers_replaces_witness:
  "let d = (empty_db :: int db)\<lparr>server_groups := [\<lparr>gr_id = 1, gr_name = ''g'', gr_created_at = 0\<rparr>],
       group_members := [(1, 4), (2, 4)]\<rparr>;
       d' = snd (SetGroupServers 1 [5, 5, 6] d)
   in (1, 4) \<notin> set (group_members d') \<and> (1, 5) \<in> set (group_members d') \<and> (2, 4) \<in> set (group_members d')"
proof -
  let ?d = "(empty_db :: int db)\<lparr>server_groups := [\<lparr>gr_id = 1, gr_name = ''g'', gr_created_at = 0\<rparr>],
       group_members := [(1, 4), (2, 4)]\<rparr>"
  have "fst (SetGroupServers 1 [5, 5, 6] ?d) = Inr ()"
    by (simp add: SetGroupServers_def groupExists_def query_def in_tx_def bnd_def ret_def on_error_def
        modify_def exec_def take_fault_def empty_db_def del_members_def add_members_def)
  then have "SetGroupServers 1 [5, 5, 6] ?d = (Inr (), snd (SetGroupServers 1 [5, 5, 6] ?d))"
    by (metis prod.collapse)
  from SetGroupServers_replaces [OF this] show ?thesis by (simp add: Let_def)
qed

end
