(* ===== verification/Mother_Row.thy ===== *)
theory Mother_Row
  imports Rollup
begin

text \<open>
  The mother's own rollout intent, one row: \<open>mother/store/motherupdate.go\<close>. The row is
  created by the first write; its absence reads as the zero intent.
\<close>

definition zero_mother_update :: mother_update where
  "zero_mother_update = \<lparr>mu_DesiredVersion = '''', mu_StagedVersion = '''', mu_Attempts = 0,
     mu_Error = '''', mu_RequestedAt = 0, mu_AppliedAt = 0\<rparr>"

definition mother_intent :: "'v db \<Rightarrow> mother_update" where
  "mother_intent d = (case mother_row d of None \<Rightarrow> zero_mother_update | Some r \<Rightarrow> r)"

definition MotherUpdate :: "('v, mother_update) op" where
  "MotherUpdate = query mother_intent"

definition upd_mother :: "(mother_update \<Rightarrow> mother_update) \<Rightarrow> 'v db \<Rightarrow> 'v db" where
  "upd_mother f d = d\<lparr>mother_row := map_option f (mother_row d)\<rparr>"

definition upsert_mother ::
  "mother_update \<Rightarrow> (mother_update \<Rightarrow> mother_update) \<Rightarrow> 'v db \<Rightarrow> 'v db" where
  "upsert_mother new f d = d\<lparr>mother_row :=
     Some (case mother_row d of None \<Rightarrow> new | Some r \<Rightarrow> f r)\<rparr>"

definition SetMotherDesiredVersion :: "string \<Rightarrow> int \<Rightarrow> ('v, unit) op" where
  "SetMotherDesiredVersion version now = modify (upsert_mother
     (zero_mother_update\<lparr>mu_DesiredVersion := version, mu_RequestedAt := now\<rparr>)
     (\<lambda>r. r\<lparr>mu_DesiredVersion := version, mu_StagedVersion := '''', mu_Attempts := 0,
            mu_Error := '''', mu_RequestedAt := now\<rparr>))"

definition BeginMotherAttempt :: "('v, int) op" where
  "BeginMotherAttempt =
     bnd (modify (upd_mother (\<lambda>r. r\<lparr>mu_Attempts := mu_Attempts r + 1, mu_Error := ''''\<rparr>)))
         (\<lambda>_. bnd MotherUpdate (\<lambda>row. ret (mu_Attempts row)))"

definition StageMotherUpdate :: "string \<Rightarrow> ('v, unit) op" where
  "StageMotherUpdate version = modify (upd_mother (\<lambda>r. r\<lparr>mu_StagedVersion := version\<rparr>))"

definition RecordMotherUpdateError :: "string \<Rightarrow> ('v, unit) op" where
  "RecordMotherUpdateError msg = modify (upd_mother (\<lambda>r. r\<lparr>mu_Error := msg\<rparr>))"

definition FailMotherUpdate :: "string \<Rightarrow> ('v, unit) op" where
  "FailMotherUpdate msg = modify (upd_mother
     (\<lambda>r. r\<lparr>mu_DesiredVersion := '''', mu_StagedVersion := '''', mu_Error := msg\<rparr>))"

definition ClearMotherUpdate :: "int \<Rightarrow> ('v, unit) op" where
  "ClearMotherUpdate appliedAt = modify (upsert_mother
     (zero_mother_update\<lparr>mu_AppliedAt := appliedAt\<rparr>)
     (\<lambda>r. r\<lparr>mu_DesiredVersion := '''', mu_StagedVersion := '''', mu_Attempts := 0,
            mu_Error := '''', mu_AppliedAt := appliedAt\<rparr>))"

section \<open>Effects\<close>

lemma table_fun_mother [simp]: "table_fun (upd_mother f)" "table_fun (upsert_mother r f)"
  by (simp_all add: table_fun_def tables_def upd_mother_def upsert_mother_def)

lemma mother_intent_tables [simp]: "mother_intent (tables d) = mother_intent d"
  by (simp add: mother_intent_def)

lemma mother_intent_cong: "tables d = tables d' \<Longrightarrow> mother_intent d = mother_intent d'"
  by (metis mother_intent_tables)

lemma mother_intent_upsert: "mother_intent (upsert_mother r f d) =
    (case mother_row d of None \<Rightarrow> r | Some x \<Rightarrow> f x)"
  by (simp add: mother_intent_def upsert_mother_def)

lemma mother_intent_upd: "mother_row d \<noteq> None \<Longrightarrow> mother_intent (upd_mother f d) = f (mother_intent d)"
  by (auto simp: mother_intent_def upd_mother_def)

lemma mother_row_exists: "mu_DesiredVersion (mother_intent d) \<noteq> '''' \<Longrightarrow> mother_row d \<noteq> None"
  by (cases "mother_row d") (auto simp: mother_intent_def zero_mother_update_def)

lemma MotherUpdate_Inr:
  assumes "MotherUpdate d = (Inr r, d')"
  shows "r = mother_intent d" and "tables d' = tables d"
  using query_Inr [OF assms [unfolded MotherUpdate_def]] mother_intent_cong by fastforce+

interpretation set_mother_desired: committed "SetMotherDesiredVersion version now"
  "upsert_mother (zero_mother_update\<lparr>mu_DesiredVersion := version, mu_RequestedAt := now\<rparr>)
     (\<lambda>r. r\<lparr>mu_DesiredVersion := version, mu_StagedVersion := '''', mu_Attempts := 0,
            mu_Error := '''', mu_RequestedAt := now\<rparr>)"
  unfolding SetMotherDesiredVersion_def by (rule committed_modify) simp

interpretation stage_mother: committed "StageMotherUpdate version"
  "upd_mother (\<lambda>r. r\<lparr>mu_StagedVersion := version\<rparr>)"
  unfolding StageMotherUpdate_def by (rule committed_modify) simp

interpretation record_mother_error: committed "RecordMotherUpdateError msg"
  "upd_mother (\<lambda>r. r\<lparr>mu_Error := msg\<rparr>)"
  unfolding RecordMotherUpdateError_def by (rule committed_modify) simp

interpretation fail_mother: committed "FailMotherUpdate msg"
  "upd_mother (\<lambda>r. r\<lparr>mu_DesiredVersion := '''', mu_StagedVersion := '''', mu_Error := msg\<rparr>)"
  unfolding FailMotherUpdate_def by (rule committed_modify) simp

interpretation clear_mother: committed "ClearMotherUpdate appliedAt"
  "upsert_mother (zero_mother_update\<lparr>mu_AppliedAt := appliedAt\<rparr>)
     (\<lambda>r. r\<lparr>mu_DesiredVersion := '''', mu_StagedVersion := '''', mu_Attempts := 0,
            mu_Error := '''', mu_AppliedAt := appliedAt\<rparr>)"
  unfolding ClearMotherUpdate_def by (rule committed_modify) simp

text \<open>
  Counting an attempt is two statements, an update and a read: after an error the count may
  or may not have been spent, and it is never lost.
\<close>

lemma BeginMotherAttempt_Inr:
  assumes "BeginMotherAttempt d = (Inr n, d')"
  shows "tables d' = upd_mother (\<lambda>r. r\<lparr>mu_Attempts := mu_Attempts r + 1, mu_Error := ''''\<rparr>) (tables d)"
    and "n = mu_Attempts (mother_intent d')"
proof -
  from assms obtain a d1 row d2 where m: "modify (upd_mother
      (\<lambda>r. r\<lparr>mu_Attempts := mu_Attempts r + 1, mu_Error := ''''\<rparr>)) d = (Inr a, d1)"
    and q: "MotherUpdate d1 = (Inr row, d2)" and r: "n = mu_Attempts row" "d' = d2"
    by (auto simp: BeginMotherAttempt_def bnd_eq_Inr ret_def)
  from modify_Inr [OF _ m] MotherUpdate_Inr(2) [OF q] r(2)
  show "tables d' = upd_mother (\<lambda>r. r\<lparr>mu_Attempts := mu_Attempts r + 1, mu_Error := ''''\<rparr>) (tables d)"
    by simp
  show "n = mu_Attempts (mother_intent d')"
    using MotherUpdate_Inr [OF q] r mother_intent_cong by metis
qed

lemma BeginMotherAttempt_Inl:
  assumes "BeginMotherAttempt d = (Inl e, d')"
  shows "tables d' = tables d \<or>
    tables d' = upd_mother (\<lambda>r. r\<lparr>mu_Attempts := mu_Attempts r + 1, mu_Error := ''''\<rparr>) (tables d)"
  using assms unfolding BeginMotherAttempt_def
  by (auto simp: bnd_eq_Inl ret_def MotherUpdate_def dest!: query_Inl
      dest: atomic_opD [OF atomic_modify] modify_Inr [rotated])

end
