(* ===== verification/Store.thy ===== *)
theory Store
  imports Settings Server_Groups Mother_Row
begin

text \<open>
  The store as a whole: the invariant of its tables, and the proof that every operation of
  \<open>mother/store\<close> keeps it, whichever of its statements fail. The states are those any
  sequence of calls reaches from an empty database, with the environment deciding before
  each call which of the following statements will fail.
\<close>

section \<open>The invariant\<close>

definition bucket_ok :: "'v::linorder bucket \<Rightarrow> bool" where
  "bucket_ok b \<longleftrightarrow> bk_min b \<le> bk_max b \<and> 1 \<le> bk_cnt b"

definition tier_ok :: "'v::linorder tier \<Rightarrow> bool" where
  "tier_ok t \<longleftrightarrow> distinct (map fst t) \<and> (\<forall>(k, b) \<in> set t. bucket_ok b)"

definition servers_ok :: "server list \<Rightarrow> bool" where
  "servers_ok ss \<longleftrightarrow> distinct (map srv_ID ss) \<and> distinct (map srv_Name ss) \<and>
     distinct (map srv_Token ss) \<and> (\<forall>s \<in> set ss. validName (srv_Name s))"

definition group_name_ok :: "string \<Rightarrow> bool" where
  "group_name_ok n \<longleftrightarrow> n \<noteq> '''' \<and> RuneCount n \<le> maxGroupNameRunes \<and>
     (\<forall>(r, b) \<in> set (runes n). \<not> rune_is_control r)"

definition groups_ok :: "group_row list \<Rightarrow> bool" where
  "groups_ok gs \<longleftrightarrow> distinct (map gr_id gs) \<and> distinct (map gr_name gs) \<and>
     (\<forall>g \<in> set gs. group_name_ok (gr_name g))"

definition db_ok :: "'v::linorder db \<Rightarrow> bool" where
  "db_ok d \<longleftrightarrow> servers_ok (servers d) \<and> tier_ok (rollup_1m d) \<and> tier_ok (rollup_1h d) \<and>
     groups_ok (server_groups d) \<and> distinct (group_members d) \<and> settings_tab_ok (settings_tab d)"

text \<open>What the engine promises of the row ids it chooses.\<close>

definition fresh_rowid :: "(int list \<Rightarrow> int) \<Rightarrow> bool" where
  "fresh_rowid alloc \<longleftrightarrow> (\<forall>ids. alloc ids \<notin> set ids)"

text \<open>
  SQLite's choice for an \<open>INTEGER PRIMARY KEY\<close> without \<open>AUTOINCREMENT\<close>, used to
  instantiate \<open>alloc\<close>: one more than the largest id in the table.
\<close>

definition next_rowid :: "int list \<Rightarrow> int" where
  "next_rowid ids = foldr max ids 0 + 1"

lemma fresh_next_rowid: "fresh_rowid next_rowid"
proof -
  have "i \<in> set ids \<Longrightarrow> i \<le> foldr max ids 0" for i :: int and ids
    by (induction ids) auto
  then show ?thesis by (force simp: fresh_rowid_def next_rowid_def)
qed

lemma table_pred_db_ok [simp]: "table_pred db_ok"
  by (auto simp: table_pred_def db_ok_def dest: tables_eqD)

lemma db_ok_empty: "db_ok empty_db"
  by (simp add: db_ok_def empty_db_def servers_ok_def tier_ok_def groups_ok_def settings_tab_ok_def)

lemma db_ok_tables [simp]: "db_ok (tables d) = db_ok d"
  by (simp add: db_ok_def)

section \<open>Pure updates\<close>

lemma servers_ok_map:
  assumes "servers_ok ss" and "\<And>s. srv_ID (f s) = srv_ID s" "\<And>s. srv_Name (f s) = srv_Name s"
    "\<And>s. srv_Token (f s) = srv_Token s"
  shows "servers_ok (map (\<lambda>s. if srv_ID s = i then f s else s) ss)"
proof -
  let ?h = "\<lambda>s. if srv_ID s = i then f s else s"
  have "map srv_ID (map ?h ss) = map srv_ID ss" "map srv_Name (map ?h ss) = map srv_Name ss"
    "map srv_Token (map ?h ss) = map srv_Token ss"
    by (simp_all add: assms(2-4))
  moreover have "\<forall>s \<in> set (map ?h ss). validName (srv_Name s)"
    using assms(1,3) by (auto simp: servers_ok_def)
  ultimately show ?thesis
    using assms(1) unfolding servers_ok_def by (intro conjI) (simp_all only:)
qed

lemma servers_ok_filter: "servers_ok ss \<Longrightarrow> servers_ok (filter P ss)"
  by (simp add: servers_ok_def distinct_map_filter)

lemma groups_ok_filter: "groups_ok gs \<Longrightarrow> groups_ok (filter P gs)"
  by (simp add: groups_ok_def distinct_map_filter)

lemma tier_ok_filter: "tier_ok t \<Longrightarrow> tier_ok (filter P t)"
  by (simp add: tier_ok_def distinct_map_filter)

lemma bucket_ok_upsert:
  "bucket_ok (first_bucket v)" "bucket_ok b \<Longrightarrow> bucket_ok (fold_bucket b v)"
  by (auto simp: bucket_ok_def first_bucket_def fold_bucket_def min_def max_def)

lemma tier_ok_map_of: "tier_ok t \<longleftrightarrow> distinct (map fst t) \<and> (\<forall>k b. map_of t k = Some b \<longrightarrow> bucket_ok b)"
  by (auto simp: tier_ok_def dest: map_of_SomeD)

lemma tier_ok_upsert: "tier_ok t \<Longrightarrow> tier_ok (upsert_bucket k v t)"
proof -
  assume t: "tier_ok t"
  then have "distinct (map fst (upsert_bucket k v t))"
    by (simp add: tier_ok_def upsert_bucket_def distinct_update)
  with t show ?thesis
    by (auto simp: tier_ok_map_of map_of_upsert bucket_ok_upsert split: option.splits if_splits)
qed

lemma tier_ok_upsert_samples: "tier_ok t \<Longrightarrow> tier_ok (upsert_samples w sid ts samples t)"
  by (induction samples arbitrary: t) (auto simp: upsert_samples_def tier_ok_upsert)

lemma group_name_ok_valid: "validGroupName name = Some n \<Longrightarrow> group_name_ok n"
  by (auto simp: validGroupName_def group_name_ok_def Let_def list_ex_iff not_less split: if_splits)

section \<open>Operations keep it\<close>

lemma db_ok_upd_server:
  assumes "db_ok d" and "\<And>s. srv_ID (f s) = srv_ID s" "\<And>s. srv_Name (f s) = srv_Name s"
    "\<And>s. srv_Token (f s) = srv_Token s"
  shows "db_ok (upd_server i f d)"
  using assms by (simp add: db_ok_def upd_server_def servers_ok_map)

lemma keeps_upd_server_count:
  assumes "\<And>s. srv_ID (f s) = srv_ID s" "\<And>s. srv_Name (f s) = srv_Name s"
    "\<And>s. srv_Token (f s) = srv_Token s"
  shows "keeps db_ok (upd_server_count i f)"
  unfolding upd_server_count_def
  by (rule keeps_exec) (use assms in \<open>auto intro: db_ok_upd_server\<close>)

lemma keeps_require_rows: "keeps P (require_rows n)"
  by (simp add: require_rows_def keeps_rules)

lemma keeps_AddServer:
  assumes "fresh_rowid alloc"
  shows "keeps db_ok (AddServer alloc rnd now name)"
  unfolding keeps_def
proof (intro allI impI)
  fix d :: "'v::linorder db" assume ok: "db_ok d"
  obtain r d' where run: "AddServer alloc rnd now name d = (r, d')" by fastforce
  show "db_ok (snd (AddServer alloc rnd now name d))"
  proof (cases r)
    case (Inl e)
    with run ok show ?thesis by (auto dest!: AddServer_Inl simp: table_predD [OF table_pred_db_ok])
  next
    case (Inr s)
    note a = AddServer_Inr [OF run [unfolded Inr]]
    have "alloc (map srv_ID (servers d)) \<notin> srv_ID ` set (servers d)"
      using assms by (metis fresh_rowid_def set_map)
    then have "servers_ok (servers d @ [s])"
      using ok a(1,3) by (auto simp: a(2) db_ok_def servers_ok_def new_server_def)
    then have "db_ok (d\<lparr>servers := servers d @ [s]\<rparr>)"
      using ok by (simp add: db_ok_def)
    with run a(4) show ?thesis by (auto intro: table_predD [OF table_pred_db_ok])
  qed
qed

lemma keeps_modify_db_ok: "(\<And>d. db_ok d \<Longrightarrow> db_ok (f d)) \<Longrightarrow> keeps db_ok (modify f)"
  by (rule keeps_modify) simp_all

lemma db_ok_dels:
  "db_ok d \<Longrightarrow> db_ok (del_server i d)" "db_ok d \<Longrightarrow> db_ok (del_rollup_1m P d)"
  "db_ok d \<Longrightarrow> db_ok (del_rollup_1h P d)" "db_ok d \<Longrightarrow> db_ok (del_members Q d)"
  "db_ok d \<Longrightarrow> db_ok (del_groups i d)"
  "db_ok d \<Longrightarrow> db_ok (upd_mother f d)" "db_ok d \<Longrightarrow> db_ok (upsert_mother r f d)"
  by (simp_all add: db_ok_def del_server_def del_rollup_1m_def del_rollup_1h_def del_members_def
      del_groups_def servers_ok_filter tier_ok_filter groups_ok_filter upd_mother_def
      upsert_mother_def)

lemma db_ok_upserts:
  "db_ok d \<Longrightarrow> db_ok (upsert_1m sid ts samples d)" "db_ok d \<Longrightarrow> db_ok (upsert_1h sid ts samples d)"
  by (simp_all add: db_ok_def upsert_1m_def upsert_1h_def tier_ok_upsert_samples)

lemma add_members_sel [simp]:
  "servers (add_members g ids d) = servers d" "rollup_1m (add_members g ids d) = rollup_1m d"
  "rollup_1h (add_members g ids d) = rollup_1h d" "server_groups (add_members g ids d) = server_groups d"
  "settings_tab (add_members g ids d) = settings_tab d" "mother_row (add_members g ids d) = mother_row d"
  by (simp_all add: add_members_def)

lemma db_ok_add_members: "db_ok d \<Longrightarrow> db_ok (add_members g ids d)"
  by (simp add: db_ok_def distinct_add_members)

lemma keeps_deletes [keeps_rules]:
  "keeps db_ok (DeleteServer i)" "keeps db_ok (EnforceRetention now cfg)"
  "keeps db_ok (DeleteHistory sid from to)"
  by (auto simp: DeleteServer_def EnforceRetention_def DeleteHistory_def
      intro!: keeps_rules keeps_modify_db_ok db_ok_dels)

lemma db_ok_put_setting: "db_ok d \<Longrightarrow> int64 n \<Longrightarrow> db_ok (put_setting k (Itoa n) d)"
  using settings_tab_ok_put [of d n k] by (simp add: db_ok_def put_setting_def)

lemma keeps_save_pairs:
  "\<forall>(k, v) \<in> set ps. \<exists>n. int64 n \<and> v = Itoa n \<Longrightarrow> keeps db_ok (save_pairs ps)"
proof (induction ps)
  case (Cons p ps)
  obtain k v where p: "p = (k, v)" by (cases p)
  with Cons.prems obtain n where "int64 n" "v = Itoa n" by auto
  with Cons p show ?case
    by (auto intro!: keeps_rules keeps_modify_db_ok db_ok_put_setting)
qed (simp add: keeps_rules)

lemma keeps_SaveSettings [keeps_rules]:
  assumes "any_order ord" and "settings_int64 s"
  shows "keeps db_ok (SaveSettings ord s)"
  unfolding SaveSettings_def
proof (rule keeps_save_pairs, clarify)
  fix k v assume "(k, v) \<in> set (ord (settings_pairs s))"
  then have "k \<in> setting_keys" "v = Itoa (setting_of s k)"
    using any_order_pairs(3) [OF assms(1)] keys_settings_pairs by auto
  with assms(2) show "\<exists>n. int64 n \<and> v = Itoa n" by (auto simp: settings_int64_def)
qed

lemma keeps_server_updates [keeps_rules]:
  "keeps db_ok (TouchServer i hb now)" "keeps db_ok (SetDesiredVersion i v)"
  "keeps db_ok (SetCapabilities i cs)" "keeps db_ok (SetCollectors i cs)"
  "keeps db_ok (RequestUninstall now i)"
  unfolding TouchServer_def SetDesiredVersion_def SetCapabilities_def SetCollectors_def
    RequestUninstall_def
  by (auto intro!: keeps_rules keeps_modify_db_ok keeps_upd_server_count keeps_require_rows
      db_ok_upd_server simp: touch_def)

lemma keeps_ApplySamples [keeps_rules]: "keeps db_ok (ApplySamples sid ts samples)"
  unfolding ApplySamples_def
  by (intro keeps_rules keeps_modify_db_ok db_ok_upserts table_pred_db_ok)

lemma keeps_mother_updates [keeps_rules]:
  "keeps db_ok (SetMotherDesiredVersion v now)" "keeps db_ok BeginMotherAttempt"
  "keeps db_ok (StageMotherUpdate v)" "keeps db_ok (RecordMotherUpdateError msg)"
  "keeps db_ok (FailMotherUpdate msg)" "keeps db_ok (ClearMotherUpdate t)"
  unfolding SetMotherDesiredVersion_def BeginMotherAttempt_def StageMotherUpdate_def
    RecordMotherUpdateError_def FailMotherUpdate_def ClearMotherUpdate_def MotherUpdate_def
  by (auto intro!: keeps_rules keeps_modify_db_ok db_ok_dels table_pred_db_ok)

lemma keeps_CreateGroup:
  assumes "fresh_rowid alloc"
  shows "keeps db_ok (CreateGroup alloc now name)"
  unfolding keeps_def
proof (intro allI impI)
  fix d :: "'v::linorder db" assume ok: "db_ok d"
  obtain r d' where run: "CreateGroup alloc now name d = (r, d')" by fastforce
  show "db_ok (snd (CreateGroup alloc now name d))"
  proof (cases r)
    case (Inl e)
    with run ok show ?thesis by (auto dest!: CreateGroup_Inl simp: table_predD [OF table_pred_db_ok])
  next
    case (Inr g)
    note c = CreateGroup_Inr [OF run [unfolded Inr]]
    have "g_ID g \<notin> gr_id ` set (server_groups d)"
      using assms c(3) by (metis fresh_rowid_def set_map)
    then have "groups_ok (server_groups d @
        [\<lparr>gr_id = g_ID g, gr_name = g_Name g, gr_created_at = unix now\<rparr>])"
      using ok c(1,2) by (auto simp: db_ok_def groups_ok_def dest: group_name_ok_valid)
    then have "db_ok (d\<lparr>server_groups := server_groups d @
        [\<lparr>gr_id = g_ID g, gr_name = g_Name g, gr_created_at = unix now\<rparr>]\<rparr>)"
      using ok by (simp add: db_ok_def)
    with run c(4) show ?thesis by (auto intro: table_predD [OF table_pred_db_ok])
  qed
qed

lemma groups_ok_rename:
  assumes "groups_ok gs" and "group_name_ok name"
    and "\<forall>g \<in> set gs. gr_name g = name \<longrightarrow> gr_id g = i"
  shows "groups_ok (map (\<lambda>g. if gr_id g = i then g\<lparr>gr_name := name\<rparr> else g) gs)"
proof -
  let ?h = "\<lambda>g. if gr_id g = i then g\<lparr>gr_name := name\<rparr> else g"
  have "map gr_id (map ?h gs) = map gr_id gs" by simp
  moreover have "distinct (map gr_name (map ?h gs))"
    using assms(1,3) by (auto simp: groups_ok_def distinct_map inj_on_def split: if_splits)
  moreover have "\<forall>g \<in> set (map ?h gs). group_name_ok (gr_name g)"
    using assms(1,2) by (auto simp: groups_ok_def)
  ultimately show ?thesis
    using assms(1) unfolding groups_ok_def by (intro conjI) (simp_all only:)
qed

lemma keeps_RenameGroup [keeps_rules]: "keeps db_ok (RenameGroup i name)"
proof (cases "validGroupName name")
  case None
  then show ?thesis by (simp add: RenameGroup_def keeps_rules)
next
  case (Some clean)
  have "keeps db_ok (exec (rename_group i clean))"
  proof (rule keeps_exec)
    fix d :: "'v::linorder db" and n d'
    assume ok: "db_ok d" and run: "rename_group i clean d = Inr (n, d')"
    from run have d': "d' = d\<lparr>server_groups :=
             map (\<lambda>g. if gr_id g = i then g\<lparr>gr_name := clean\<rparr> else g) (server_groups d)\<rparr>"
      and cond: "filter (\<lambda>g. gr_id g = i) (server_groups d) = [] \<or>
        (\<forall>g \<in> set (server_groups d). gr_name g = clean \<longrightarrow> gr_id g = i)"
      by (auto simp: rename_group_def Let_def split: if_splits)
    from cond have "groups_ok (server_groups d')"
    proof
      assume "filter (\<lambda>g. gr_id g = i) (server_groups d) = []"
      then have "server_groups d' = server_groups d"
        by (auto simp: d' filter_empty_conv intro!: map_idI)
      with ok show ?thesis by (simp add: db_ok_def)
    next
      assume "\<forall>g \<in> set (server_groups d). gr_name g = clean \<longrightarrow> gr_id g = i"
      with ok group_name_ok_valid [OF Some] show ?thesis
        by (simp add: d' db_ok_def groups_ok_rename)
    qed
    with ok d' show "db_ok d'" by (simp add: db_ok_def)
  qed simp
  with Some show ?thesis
    by (auto simp: RenameGroup_def intro!: keeps_rules keeps_require_rows)
qed

lemma keeps_DeleteGroup [keeps_rules]: "keeps db_ok (DeleteGroup i)"
proof -
  have "keeps db_ok (del_groups_count i)"
    unfolding del_groups_count_def by (rule keeps_exec) (auto intro: db_ok_dels)
  then show ?thesis
    unfolding DeleteGroup_def
    by (intro keeps_rules keeps_modify_db_ok db_ok_dels table_pred_db_ok keeps_require_rows)
qed

lemma keeps_SetGroupServers [keeps_rules]: "keeps db_ok (SetGroupServers gid ids)"
proof -
  have "keeps db_ok (groupExists gid)"
    unfolding groupExists_def
    by (intro keeps_rules table_pred_db_ok) (auto simp: keeps_rules split: option.split)
  then show ?thesis
    unfolding SetGroupServers_def
    by (intro keeps_rules keeps_modify_db_ok db_ok_dels db_ok_add_members table_pred_db_ok)
qed

section \<open>Reachable states\<close>

text \<open>
  One call of an operation that writes, on a state whose next faults the environment has
  just chosen. The rows of a run are those of the operations the mother calls.
\<close>

inductive store_step :: "(int list \<Rightarrow> int) \<Rightarrow> 'v::{linorder,plus} db \<Rightarrow> 'v db \<Rightarrow> bool" for alloc where
  faults: "store_step alloc d (d\<lparr>faults := fs\<rparr>)"
| add_server: "store_step alloc d (snd (AddServer alloc rnd now name d))"
| touch_server: "store_step alloc d (snd (TouchServer i hb t d))"
| set_desired: "store_step alloc d (snd (SetDesiredVersion i v d))"
| set_capabilities: "store_step alloc d (snd (SetCapabilities i cs d))"
| set_collectors: "store_step alloc d (snd (SetCollectors i cs d))"
| request_uninstall: "store_step alloc d (snd (RequestUninstall now i d))"
| delete_server: "store_step alloc d (snd (DeleteServer i d))"
| apply_samples: "store_step alloc d (snd (ApplySamples i ts samples d))"
| enforce_retention: "store_step alloc d (snd (EnforceRetention t cfg d))"
| delete_history: "store_step alloc d (snd (DeleteHistory i from to d))"
| save_settings: "any_order ord \<Longrightarrow> settings_int64 s \<Longrightarrow>
    store_step alloc d (snd (SaveSettings ord s d))"
| create_group: "store_step alloc d (snd (CreateGroup alloc now name d))"
| rename_group: "store_step alloc d (snd (RenameGroup i name d))"
| delete_group: "store_step alloc d (snd (DeleteGroup i d))"
| set_group_servers: "store_step alloc d (snd (SetGroupServers i ids d))"
| set_mother: "store_step alloc d (snd (SetMotherDesiredVersion v t d))"
| begin_mother: "store_step alloc d (snd (BeginMotherAttempt d))"
| stage_mother: "store_step alloc d (snd (StageMotherUpdate v d))"
| record_mother: "store_step alloc d (snd (RecordMotherUpdateError msg d))"
| fail_mother: "store_step alloc d (snd (FailMotherUpdate msg d))"
| clear_mother: "store_step alloc d (snd (ClearMotherUpdate t d))"

inductive store_reachable :: "(int list \<Rightarrow> int) \<Rightarrow> 'v::{linorder,plus} db \<Rightarrow> bool" for alloc where
  start: "store_reachable alloc empty_db"
| step: "store_reachable alloc d \<Longrightarrow> store_step alloc d d' \<Longrightarrow> store_reachable alloc d'"

lemma store_step_db_ok:
  assumes "store_step alloc d d'" and "fresh_rowid alloc" and "db_ok d"
  shows "db_ok d'"
  using assms(1,3)
proof (cases rule: store_step.cases)
  case (faults fs)
  with assms(3) show ?thesis by (auto intro: table_predD [OF table_pred_db_ok])
qed (auto intro: keepsD keeps_rules keeps_AddServer [OF assms(2)] keeps_CreateGroup [OF assms(2)])

section \<open>Properties\<close>

text \<open>
  The store's integrity: in every state the store's operations reach from an empty
  database, whatever statements failed on the way, server ids, names and tokens are unique and
  every name is well formed, each rollup bucket appears once and is consistent, group names are
  unique and printable, a membership is listed once, and every settings row is numeric.
\<close>

theorem store_reachable_db_ok:
  assumes "fresh_rowid alloc" and "store_reachable alloc d"
  shows "db_ok d"
  using assms(2,1) by induction (blast intro: db_ok_empty store_step_db_ok)+

theorem store_reachable_db_ok_witness:
  "db_ok (snd (ApplySamples 1 60 [(''cpu'', 3 :: int)]
     (snd (AddServer next_rowid [1] 0 ''web-1'' (empty_db\<lparr>faults := [None, None, Some ''io'']\<rparr>)))))"
  by (intro store_reachable_db_ok [of next_rowid] fresh_next_rowid
      store_reachable.step [OF _ store_step.apply_samples] store_reachable.step [OF _ store_step.add_server]
      store_reachable.step [OF _ store_step.faults] store_reachable.start)

end
