(* ===== verification/Live.thy ===== *)
theory Live
  imports Prelude
begin

text \<open>
  The in-memory tail of every server's samples: \<open>mother/live/live.go\<close>. The nested maps are
  association lists; the clock reading an operation takes is an argument in nanoseconds. The
  lemmas give the invariant (points ascending, nothing empty, the metric cap), what a read
  returns in terms of the points held, and what eviction drops.
\<close>

section \<open>State\<close>

definition MaxMetricsPerServer :: nat where "MaxMetricsPerServer = 256"

record 'v point =
  pt_TS :: int
  pt_Value :: 'v

type_synonym 'v metrics = "(string \<times> 'v point list) list"

record 'v live =
  lv_window :: int
  lv_series :: "(int \<times> 'v metrics) list"

definition new_live :: "int \<Rightarrow> 'v live" where
  "new_live window = \<lparr>lv_window = (if window \<le> 0 then Minute else window), lv_series = []\<rparr>"

section \<open>Eviction\<close>

text \<open>The loop \<open>for keep < len(points) && points[keep].TS < cutoff\<close> and its three outcomes.\<close>

definition evict_points :: "int \<Rightarrow> 'v point list \<Rightarrow> 'v point list option" where
  "evict_points cutoff points =
     (let keep = length (takeWhile (\<lambda>p. pt_TS p < cutoff) points) in
      if keep = 0 then Some points
      else if keep = length points then None
      else Some (drop keep points))"

definition evict_metrics :: "int \<Rightarrow> 'v metrics \<Rightarrow> 'v metrics" where
  "evict_metrics cutoff byMetric =
     List.map_filter (\<lambda>(m, points). map_option (Pair m) (evict_points cutoff points)) byMetric"

definition live_cutoff :: "int \<Rightarrow> 'v live \<Rightarrow> int" where
  "live_cutoff now s = unix (now - lv_window s)"

definition evictLocked :: "int \<Rightarrow> int \<Rightarrow> 'v live \<Rightarrow> 'v live" where
  "evictLocked now serverID s =
     (case map_of (lv_series s) serverID of
        None \<Rightarrow> s
      | Some byMetric \<Rightarrow>
          let byMetric' = evict_metrics (live_cutoff now s) byMetric in
          if byMetric' = [] then s\<lparr>lv_series := AList.delete serverID (lv_series s)\<rparr>
          else s\<lparr>lv_series := AList.update serverID byMetric' (lv_series s)\<rparr>)"

section \<open>Operations\<close>

definition add_point :: "int \<Rightarrow> 'v metrics \<Rightarrow> string \<times> 'v \<Rightarrow> 'v metrics" where
  "add_point ts byMetric = (\<lambda>(metric, value).
     if map_of byMetric metric = None \<and> length byMetric \<ge> MaxMetricsPerServer then byMetric
     else AList.update metric
       ((case map_of byMetric metric of None \<Rightarrow> [] | Some ps \<Rightarrow> ps) @ [\<lparr>pt_TS = ts, pt_Value = value\<rparr>])
       byMetric)"

definition held :: "int \<Rightarrow> 'v live \<Rightarrow> 'v metrics" where
  "held serverID s = (case map_of (lv_series s) serverID of None \<Rightarrow> [] | Some bm \<Rightarrow> bm)"

definition live_Add :: "int \<Rightarrow> int \<Rightarrow> int \<Rightarrow> (string \<times> 'v) list \<Rightarrow> 'v live \<Rightarrow> 'v live" where
  "live_Add now serverID ts samples s =
     (if length samples = 0 then s
      else evictLocked now serverID
        (s\<lparr>lv_series := AList.update serverID (foldl (add_point ts) (held serverID s) samples)
             (lv_series s)\<rparr>))"

text \<open>\<open>sort.Search\<close>: the halving loop over \<open>[i, j)\<close>.\<close>

function go_search :: "(nat \<Rightarrow> bool) \<Rightarrow> nat \<Rightarrow> nat \<Rightarrow> nat" where
  "go_search f i j =
     (if i < j then
        let h = (i + j) div 2 in
        if \<not> f h then go_search f (h + 1) j else go_search f i h
      else i)"
  by pat_completeness auto
termination
  by (relation "measure (\<lambda>(f, i, j). j - i)") auto

declare go_search.simps [simp del]

definition points_of :: "int \<Rightarrow> string \<Rightarrow> 'v live \<Rightarrow> 'v point list" where
  "points_of serverID metric s =
     (case map_of (held serverID s) metric of None \<Rightarrow> [] | Some ps \<Rightarrow> ps)"

definition SeriesSince :: "int \<Rightarrow> int \<Rightarrow> string \<Rightarrow> int \<Rightarrow> 'v live \<Rightarrow> 'v point list \<times> 'v live" where
  "SeriesSince now serverID metric since s =
     (let s' = evictLocked now serverID s;
          src = points_of serverID metric s';
          first = go_search (\<lambda>i. pt_TS (src ! i) > since) 0 (length src)
      in (if first = length src then [] else drop first src, s'))"

definition Series :: "int \<Rightarrow> int \<Rightarrow> string \<Rightarrow> 'v live \<Rightarrow> 'v point list \<times> 'v live" where
  "Series now serverID metric s = SeriesSince now serverID metric 0 s"

definition Latest :: "int \<Rightarrow> int \<Rightarrow> 'v live \<Rightarrow> ((string \<times> 'v) list \<times> int) \<times> 'v live" where
  "Latest now serverID s =
     (let s' = evictLocked now serverID s;
          byMetric = held serverID s'
      in ((map (\<lambda>(m, ps). (m, pt_Value (last ps))) byMetric,
           foldl (\<lambda>newest (m, ps). if pt_TS (last ps) > newest then pt_TS (last ps) else newest)
             0 byMetric), s'))"

definition MetricCount :: "int \<Rightarrow> int \<Rightarrow> 'v live \<Rightarrow> nat \<times> 'v live" where
  "MetricCount now serverID s =
     (let s' = evictLocked now serverID s in (length (held serverID s'), s'))"

definition Forget :: "int \<Rightarrow> 'v live \<Rightarrow> 'v live" where
  "Forget serverID s = s\<lparr>lv_series := AList.delete serverID (lv_series s)\<rparr>"

text \<open>The clock is read again for every server: \<open>now\<close> gives the reading taken for each.\<close>

definition SetWindow :: "(int \<Rightarrow> int) \<Rightarrow> int \<Rightarrow> 'v live \<Rightarrow> 'v live" where
  "SetWindow now window s =
     (if window \<le> 0 then s
      else foldl (\<lambda>s serverID. evictLocked (now serverID) serverID s)
             (s\<lparr>lv_window := window\<rparr>) (map fst (lv_series s)))"

section \<open>Binary search\<close>

lemma go_search_stop: "\<not> i < j \<Longrightarrow> go_search f i j = i"
  by (subst go_search.simps) simp

lemma go_search_bounds: "i \<le> j \<Longrightarrow> i \<le> go_search f i j \<and> go_search f i j \<le> j"
proof (induction f i j rule: go_search.induct)
  case (1 f i j)
  show ?case
  proof (cases "i < j")
    case True
    let ?h = "(i + j) div 2"
    have h: "i \<le> ?h" "?h < j" using True by auto
    show ?thesis
    proof (cases "f ?h")
      case t: True
      have "i \<le> go_search f i ?h \<and> go_search f i ?h \<le> ?h" using "1.IH"(2) True t h by simp
      with True t h show ?thesis by (simp add: go_search.simps [of f i j] Let_def)
    next
      case f: False
      have "?h + 1 \<le> go_search f (?h + 1) j \<and> go_search f (?h + 1) j \<le> j"
        using "1.IH"(1) True f h by simp
      with True f h show ?thesis by (simp add: go_search.simps [of f i j] Let_def)
    qed
  qed (use 1 in \<open>simp add: go_search_stop\<close>)
qed

text \<open>For a predicate that stays true once it is, the loop finds its first index.\<close>

lemma go_search_first:
  assumes "\<And>a b. a \<le> b \<Longrightarrow> b < j \<Longrightarrow> f a \<Longrightarrow> f b" and "i \<le> j"
  shows "(\<forall>k. i \<le> k \<and> k < go_search f i j \<longrightarrow> \<not> f k) \<and> (go_search f i j < j \<longrightarrow> f (go_search f i j))"
  using assms
proof (induction f i j rule: go_search.induct)
  case (1 f i j)
  show ?case
  proof (cases "i < j")
    case True
    let ?h = "(i + j) div 2"
    have h: "i \<le> ?h" "?h < j" using True by auto
    show ?thesis
    proof (cases "f ?h")
      case t: True
      have ih: "(\<forall>k. i \<le> k \<and> k < go_search f i ?h \<longrightarrow> \<not> f k) \<and>
          (go_search f i ?h < ?h \<longrightarrow> f (go_search f i ?h))"
        by (rule "1.IH"(2)) (use True t h "1.prems" in auto)
      have eq: "go_search f i j = go_search f i ?h"
        using True t by (simp add: go_search.simps [of f i j] Let_def)
      have "go_search f i ?h \<le> ?h" using go_search_bounds h(1) by blast
      with ih t show ?thesis unfolding eq by (metis le_neq_implies_less)
    next
      case f: False
      have ih: "(\<forall>k. ?h + 1 \<le> k \<and> k < go_search f (?h + 1) j \<longrightarrow> \<not> f k) \<and>
          (go_search f (?h + 1) j < j \<longrightarrow> f (go_search f (?h + 1) j))"
        by (rule "1.IH"(1)) (use True f h "1.prems" in auto)
      have "\<not> f k" if "k \<le> ?h" for k
        using that f h(2) "1.prems"(1) by blast
      then show ?thesis
        using ih True f by (simp add: go_search.simps [of f i j] Let_def) (metis not_less_eq_eq Suc_eq_plus1)
    qed
  qed (auto simp: go_search_stop)
qed

definition ascending :: "'v point list \<Rightarrow> bool" where
  "ascending ps \<longleftrightarrow> sorted (map pt_TS ps)"

lemma ascending_dropWhile_filter:
  "ascending ps \<Longrightarrow> dropWhile (\<lambda>p. pt_TS p < c) ps = filter (\<lambda>p. c \<le> pt_TS p) ps"
proof (induction ps)
  case (Cons p ps)
  then show ?case
    by (auto simp: ascending_def intro!: filter_True [symmetric])
qed simp

lemma ascending_filter: "ascending ps \<Longrightarrow> ascending (filter P ps)"
  by (simp add: ascending_def sorted_filter)

lemma drop_search:
  assumes "ascending src"
  shows "drop (go_search (\<lambda>i. pt_TS (src ! i) > since) 0 (length src)) src =
    filter (\<lambda>p. since < pt_TS p) src"
proof -
  let ?n = "go_search (\<lambda>i. pt_TS (src ! i) > since) 0 (length src)"
  have mono: "pt_TS (src ! a) \<le> pt_TS (src ! b)" if "a \<le> b" "b < length src" for a b
    using that assms sorted_nth_mono [of "map pt_TS src" a b] by (simp add: ascending_def)
  have first: "(\<forall>k. 0 \<le> k \<and> k < ?n \<longrightarrow> \<not> pt_TS (src ! k) > since) \<and>
      (?n < length src \<longrightarrow> pt_TS (src ! ?n) > since)"
    by (rule go_search_first) (auto dest: mono intro: less_le_trans)
  have n: "?n \<le> length src" using go_search_bounds [of 0 "length src"] by blast
  have "filter (\<lambda>p. since < pt_TS p) (take ?n src) = []"
    using first n by (auto simp: filter_empty_conv in_set_conv_nth)
  moreover have "filter (\<lambda>p. since < pt_TS p) (drop ?n src) = drop ?n src"
  proof (rule filter_True, clarify)
    fix p assume "p \<in> set (drop ?n src)"
    then obtain k where k: "k < length src - ?n" "p = src ! (?n + k)"
      by (auto simp: in_set_conv_nth)
    then have "since < pt_TS (src ! ?n)" using first by auto
    also have "\<dots> \<le> pt_TS p" using mono [of ?n "?n + k"] k by simp
    finally show "since < pt_TS p" .
  qed
  ultimately show ?thesis
    by (metis append_Nil append_take_drop_id filter_append)
qed

section \<open>The invariant\<close>

definition metrics_ok :: "'v metrics \<Rightarrow> bool" where
  "metrics_ok bm \<longleftrightarrow> bm \<noteq> [] \<and> distinct (map fst bm) \<and> length bm \<le> MaxMetricsPerServer \<and>
     (\<forall>(m, ps) \<in> set bm. ps \<noteq> [] \<and> ascending ps)"

definition live_ok :: "'v live \<Rightarrow> bool" where
  "live_ok s \<longleftrightarrow> 0 < lv_window s \<and> distinct (map fst (lv_series s)) \<and>
     (\<forall>(i, bm) \<in> set (lv_series s). metrics_ok bm)"

lemma live_ok_new: "live_ok (new_live w)"
  by (simp add: live_ok_def new_live_def)

lemma evict_points_ascending:
  assumes "ascending ps" and "ps \<noteq> []"
  shows "evict_points c ps =
    (case filter (\<lambda>p. c \<le> pt_TS p) ps of [] \<Rightarrow> None | q # qs \<Rightarrow> Some (q # qs))"
proof -
  let ?P = "\<lambda>p. pt_TS p < c"
  have d: "drop (length (takeWhile ?P ps)) ps = filter (\<lambda>p. c \<le> pt_TS p) ps"
    using ascending_dropWhile_filter [OF assms(1)] by (simp add: dropWhile_eq_drop [symmetric])
  have full: "length (takeWhile ?P ps) = length ps \<longleftrightarrow> filter (\<lambda>p. c \<le> pt_TS p) ps = []"
    using d length_takeWhile_le [of ?P ps] by (metis drop_eq_Nil le_antisym order_refl)
  show ?thesis
    using d full assms(2) by (auto simp: evict_points_def Let_def split: list.split)
qed

lemma evict_metrics_conv:
  assumes "\<forall>(m, ps) \<in> set bm. ps \<noteq> [] \<and> ascending ps"
  shows "evict_metrics c bm =
    filter (\<lambda>(m, ps). ps \<noteq> []) (map (\<lambda>(m, ps). (m, filter (\<lambda>p. c \<le> pt_TS p) ps)) bm)"
  using assms
  by (induction bm)
     (auto simp: evict_metrics_def map_filter_simps evict_points_ascending split: list.splits)

lemma metrics_ok_evict:
  assumes "metrics_ok bm" and "evict_metrics c bm \<noteq> []"
  shows "metrics_ok (evict_metrics c bm)"
proof -
  have ok: "\<forall>(m, ps) \<in> set bm. ps \<noteq> [] \<and> ascending ps"
    using assms(1) by (simp add: metrics_ok_def)
  let ?f = "\<lambda>(m, ps). (m, filter (\<lambda>p. c \<le> pt_TS p) ps)"
  let ?g = "filter (\<lambda>(m, ps). ps \<noteq> []) (map ?f bm)"
  have "map fst (map ?f bm) = map fst bm" by (simp add: case_prod_unfold comp_def)
  then have "distinct (map fst (map ?f bm))"
    using assms(1) unfolding metrics_ok_def by (simp only:)
  then have "distinct (map fst ?g)" by (rule distinct_map_filter)
  moreover have "length ?g \<le> MaxMetricsPerServer"
    using assms(1) le_trans [OF length_filter_le [of "\<lambda>(m, ps). ps \<noteq> []" "map ?f bm"]]
    by (simp add: metrics_ok_def)
  moreover have "\<forall>(m, ps) \<in> set ?g. ps \<noteq> [] \<and> ascending ps"
    using ok by (auto intro: ascending_filter)
  ultimately show ?thesis
    using assms(2) unfolding metrics_ok_def evict_metrics_conv [OF ok] by blast
qed

lemma held_map_of: "held i s = (case map_of (lv_series s) i of None \<Rightarrow> [] | Some bm \<Rightarrow> bm)"
  by (rule held_def)

lemma map_of_delete: "map_of (AList.delete k t) k' = (if k' = k then None else map_of t k')"
  by (simp add: delete_conv')

lemma held_evict:
  "held i (evictLocked now j s) =
     (if i = j then evict_metrics (live_cutoff now s) (held i s) else held i s)"
  by (auto simp: held_def evictLocked_def Let_def map_of_update map_of_delete evict_metrics_def
      map_filter_simps split: option.splits)

lemma window_evict [simp]: "lv_window (evictLocked now j s) = lv_window s"
  by (auto simp: evictLocked_def Let_def split: option.splits)

lemma live_ok_map_of:
  "live_ok s \<longleftrightarrow> 0 < lv_window s \<and> distinct (map fst (lv_series s)) \<and>
     (\<forall>i bm. map_of (lv_series s) i = Some bm \<longrightarrow> metrics_ok bm)"
  unfolding live_ok_def
  by (metis (mono_tags, lifting) case_prodI2 case_prod_conv map_of_SomeD map_of_is_SomeI)

lemma live_ok_update:
  assumes "live_ok s" "metrics_ok bm"
  shows "live_ok (s\<lparr>lv_series := AList.update i bm (lv_series s)\<rparr>)"
  using assms unfolding live_ok_map_of
  by (simp add: distinct_update map_of_update del: map_of_eq_Some_iff)

lemma live_ok_Forget: "live_ok s \<Longrightarrow> live_ok (Forget j s)"
  unfolding live_ok_map_of
  by (simp add: Forget_def distinct_delete map_of_delete del: map_of_eq_Some_iff)

lemma live_ok_evict:
  assumes ok: "live_ok s"
  shows "live_ok (evictLocked now j s)"
proof (cases "map_of (lv_series s) j")
  case None
  with ok show ?thesis by (simp add: evictLocked_def)
next
  case (Some bm)
  then have bm: "metrics_ok bm" using ok unfolding live_ok_map_of by blast
  show ?thesis
  proof (cases "evict_metrics (live_cutoff now s) bm = []")
    case True
    with Some live_ok_Forget [OF ok, of j] show ?thesis
      by (simp add: evictLocked_def Forget_def Let_def)
  next
    case False
    with Some live_ok_update [OF ok metrics_ok_evict [OF bm False]] show ?thesis
      by (simp add: evictLocked_def Let_def)
  qed
qed

text \<open>A push at or after every point held for the server keeps the points ascending.\<close>

definition no_later :: "int \<Rightarrow> int \<Rightarrow> 'v live \<Rightarrow> bool" where
  "no_later serverID ts s \<longleftrightarrow> (\<forall>(m, ps) \<in> set (held serverID s). \<forall>p \<in> set ps. pt_TS p \<le> ts)"

lemma map_of_add_point:
  "map_of (add_point ts bm (m, v)) m' =
     (if m' = m \<and> (map_of bm m \<noteq> None \<or> length bm < MaxMetricsPerServer)
      then Some ((case map_of bm m of None \<Rightarrow> [] | Some ps \<Rightarrow> ps) @ [\<lparr>pt_TS = ts, pt_Value = v\<rparr>])
      else map_of bm m')"
  by (auto simp: add_point_def map_of_update)

lemma length_update: "length (AList.update k v t) = (if k \<in> fst ` set t then length t else Suc (length t))"
  by (induction t) auto

lemma add_point_ok:
  assumes "distinct (map fst bm)" "length bm \<le> MaxMetricsPerServer"
    "\<forall>(m, ps) \<in> set bm. ps \<noteq> [] \<and> ascending ps \<and> (\<forall>p \<in> set ps. pt_TS p \<le> ts)"
  shows "distinct (map fst (add_point ts bm x)) \<and> length (add_point ts bm x) \<le> MaxMetricsPerServer \<and>
    (\<forall>(m, ps) \<in> set (add_point ts bm x). ps \<noteq> [] \<and> ascending ps \<and> (\<forall>p \<in> set ps. pt_TS p \<le> ts))"
proof -
  obtain m v where x: "x = (m, v)" by (cases x)
  have d: "distinct (map fst (add_point ts bm x))"
    using assms(1) by (simp add: add_point_def x distinct_update)
  have l: "length (add_point ts bm x) \<le> MaxMetricsPerServer"
    using assms(2) by (auto simp: add_point_def x length_update not_le map_of_eq_None_iff)
  let ?Q = "\<lambda>ps. ps \<noteq> [] \<and> ascending ps \<and> (\<forall>p \<in> set ps. pt_TS p \<le> ts)"
  have Q: "?Q ps" if "map_of bm m' = Some ps" for m' ps
    using assms(3) map_of_SomeD [OF that] by fast
  have snoc: "?Q (ps @ [\<lparr>pt_TS = ts, pt_Value = v\<rparr>])" if "ps = [] \<or> ?Q ps" for ps
    using that by (auto simp: ascending_def sorted_append)
  have "?Q ps" if "map_of (add_point ts bm x) m' = Some ps" for m' ps
  proof (cases "map_of bm m")
    case None
    then show ?thesis using that Q [of m'] snoc [of "[]"]
      by (auto simp add: x map_of_add_point simp del: map_of_eq_Some_iff split: if_splits)
  next
    case (Some qs)
    then show ?thesis using that Q [of m'] snoc [of qs] Q [OF Some]
      by (auto simp add: x map_of_add_point simp del: map_of_eq_Some_iff split: if_splits)
  qed
  with d l show ?thesis by (auto intro: map_of_is_SomeI)
qed

lemma foldl_add_point_ok:
  assumes "distinct (map fst bm)" "length bm \<le> MaxMetricsPerServer"
    "\<forall>(m, ps) \<in> set bm. ps \<noteq> [] \<and> ascending ps \<and> (\<forall>p \<in> set ps. pt_TS p \<le> ts)"
  shows "distinct (map fst (foldl (add_point ts) bm samples)) \<and>
    length (foldl (add_point ts) bm samples) \<le> MaxMetricsPerServer \<and>
    (\<forall>(m, ps) \<in> set (foldl (add_point ts) bm samples).
       ps \<noteq> [] \<and> ascending ps \<and> (\<forall>p \<in> set ps. pt_TS p \<le> ts))"
  using assms
proof (induction samples arbitrary: bm)
  case (Cons x samples)
  from add_point_ok [OF Cons.prems, of x] Cons.IH [of "add_point ts bm x"] show ?case by simp
qed simp

lemma held_ok:
  assumes "live_ok s"
  shows "distinct (map fst (held i s))" "length (held i s) \<le> MaxMetricsPerServer"
    "\<forall>(m, ps) \<in> set (held i s). ps \<noteq> [] \<and> ascending ps"
proof -
  have "held i s = [] \<or> metrics_ok (held i s)"
    using assms by (cases "map_of (lv_series s) i") (simp_all add: held_def live_ok_map_of del: map_of_eq_Some_iff)
  then show "distinct (map fst (held i s))" "length (held i s) \<le> MaxMetricsPerServer"
    "\<forall>(m, ps) \<in> set (held i s). ps \<noteq> [] \<and> ascending ps"
    by (auto simp: metrics_ok_def)
qed

lemma add_point_nonempty: "bm \<noteq> [] \<or> samples \<noteq> [] \<Longrightarrow> foldl (add_point ts) bm samples \<noteq> []"
proof (induction samples arbitrary: bm)
  case (Cons x samples)
  have "add_point ts bm x \<noteq> []"
    by (cases x; cases bm) (auto simp: add_point_def MaxMetricsPerServer_def)
  then show ?case by (simp add: Cons.IH)
qed simp

lemma held_update:
  "held j (s\<lparr>lv_series := AList.update i bm (lv_series s)\<rparr>) = (if j = i then bm else held j s)"
  by (simp add: held_def map_of_update)

definition add_samples :: "int \<Rightarrow> int \<Rightarrow> (string \<times> 'v) list \<Rightarrow> 'v live \<Rightarrow> 'v live" where
  "add_samples i ts samples s =
     s\<lparr>lv_series := AList.update i (foldl (add_point ts) (held i s) samples) (lv_series s)\<rparr>"

lemma live_Add_split:
  "live_Add now i ts samples s = (if samples = [] then s else evictLocked now i (add_samples i ts samples s))"
  by (simp add: live_Add_def add_samples_def)

lemma live_ok_add_samples:
  assumes "live_ok s" "no_later i ts s" "samples \<noteq> []"
  shows "live_ok (add_samples i ts samples s)"
proof -
  have "\<forall>(m, ps) \<in> set (held i s). ps \<noteq> [] \<and> ascending ps \<and> (\<forall>p \<in> set ps. pt_TS p \<le> ts)"
    using held_ok(3) [OF assms(1)] assms(2) by (fastforce simp: no_later_def)
  from foldl_add_point_ok [OF held_ok(1,2) [OF assms(1)] this]
  have "metrics_ok (foldl (add_point ts) (held i s) samples)"
    using add_point_nonempty [of "held i s" samples] assms(3) by (auto simp: metrics_ok_def)
  with assms(1) show ?thesis unfolding add_samples_def by (rule live_ok_update)
qed

lemma add_samples_facts [simp]:
  "lv_window (add_samples i ts samples s) = lv_window s"
  "live_cutoff now (add_samples i ts samples s) = live_cutoff now s"
  "j \<noteq> i \<Longrightarrow> held j (add_samples i ts samples s) = held j s"
  "j \<noteq> i \<Longrightarrow> points_of j m (add_samples i ts samples s) = points_of j m s"
  by (simp_all add: add_samples_def live_cutoff_def points_of_def held_update)

lemma live_ok_Add: "live_ok s \<Longrightarrow> no_later i ts s \<Longrightarrow> live_ok (live_Add now i ts samples s)"
  by (simp add: live_Add_split live_ok_add_samples live_ok_evict)

lemma live_ok_SetWindow: "live_ok s \<Longrightarrow> live_ok (SetWindow now w s)"
proof -
  have fold: "live_ok t \<Longrightarrow> live_ok (foldl (\<lambda>s i. evictLocked (now i) i s) t is)" for t :: "'v live" and "is"
    by (induction "is" arbitrary: t) (auto intro: live_ok_evict)
  assume s: "live_ok s"
  then have "live_ok (s\<lparr>lv_window := w\<rparr>)" if "0 < w" using that by (simp add: live_ok_def)
  with s fold [of "s\<lparr>lv_window := w\<rparr>"] show ?thesis
    by (cases "w \<le> 0") (simp_all add: SetWindow_def)
qed

section \<open>What a read returns\<close>

lemma points_of_ok: "live_ok s \<Longrightarrow> ascending (points_of i m s)"
  using held_ok(3) [of s i]
  by (force simp: points_of_def ascending_def dest: map_of_SomeD split: option.splits)

lemma map_of_filter_val:
  "distinct (map fst t) \<Longrightarrow> map_of (filter (\<lambda>(k, v). P v) (map (\<lambda>(k, v). (k, f v)) t)) k =
     (case map_of t k of None \<Rightarrow> None | Some v \<Rightarrow> if P (f v) then Some (f v) else None)"
proof (induction t)
  case (Cons x t)
  have "map_of t (fst x) = None" using Cons.prems by (simp add: map_of_eq_None_iff)
  with Cons show ?case by (cases x; cases "k = fst x") (simp_all del: map_of_eq_None_iff)
qed simp

lemma points_of_evict:
  assumes "live_ok s"
  shows "points_of i m (evictLocked now j s) =
    (if i = j then filter (\<lambda>p. live_cutoff now s \<le> pt_TS p) (points_of i m s) else points_of i m s)"
proof (cases "i = j")
  case True
  let ?f = "filter (\<lambda>p. live_cutoff now s \<le> pt_TS p)"
  have "map_of (evict_metrics (live_cutoff now s) (held j s)) m =
      (case map_of (held j s) m of None \<Rightarrow> None | Some ps \<Rightarrow> if ?f ps \<noteq> [] then Some (?f ps) else None)"
    unfolding evict_metrics_conv [OF held_ok(3) [OF assms]]
    by (rule map_of_filter_val [OF held_ok(1) [OF assms], of "\<lambda>ps. ps \<noteq> []"])
  with True show ?thesis
    by (simp add: points_of_def held_evict del: map_of_eq_Some_iff split: option.split)
qed (simp add: points_of_def held_evict)

lemma SeriesSince_points:
  assumes "live_ok s"
  shows "fst (SeriesSince now i m since s) =
    filter (\<lambda>p. since < pt_TS p \<and> live_cutoff now s \<le> pt_TS p) (points_of i m s)"
proof -
  let ?src = "points_of i m (evictLocked now i s)"
  let ?n = "go_search (\<lambda>k. pt_TS (?src ! k) > since) 0 (length ?src)"
  have "fst (SeriesSince now i m since s) = drop ?n ?src"
    by (simp add: SeriesSince_def Let_def)
  also have "\<dots> = filter (\<lambda>p. since < pt_TS p) ?src"
    by (rule drop_search) (rule points_of_ok [OF live_ok_evict [OF assms]])
  also have "\<dots> = filter (\<lambda>p. since < pt_TS p \<and> live_cutoff now s \<le> pt_TS p) (points_of i m s)"
    by (simp add: points_of_evict assms conj_commute)
  finally show ?thesis .
qed

section \<open>Properties\<close>

text \<open>
  A live read returns exactly the points held for that server and metric that are newer
  than \<open>since\<close> and still inside the window, in order: the binary search and the eviction
  lose nothing and keep nothing stale. It applies in every state whose points are ascending
  within their series (\<open>live_ok\<close>).
\<close>

theorem SeriesSince_exact:
  assumes "live_ok s"
  shows "fst (SeriesSince now i m since s) =
      filter (\<lambda>p. since < pt_TS p \<and> unix (now - lv_window s) \<le> pt_TS p) (points_of i m s) \<and>
    live_ok (snd (SeriesSince now i m since s))"
  using SeriesSince_points [OF assms] live_ok_evict [OF assms]
  by (simp add: live_cutoff_def SeriesSince_def Let_def)

theorem SeriesSince_exact_witness:
  "fst (SeriesSince (200 * Second) 1 ''cpu'' 150
     \<lparr>lv_window = Minute, lv_series = [(1, [(''cpu'', [\<lparr>pt_TS = 100, pt_Value = 1 :: int\<rparr>,
        \<lparr>pt_TS = 150, pt_Value = 2\<rparr>, \<lparr>pt_TS = 160, pt_Value = 3\<rparr>])])]\<rparr>) = [\<lparr>pt_TS = 160, pt_Value = 3\<rparr>]"
proof -
  let ?s = "\<lparr>lv_window = Minute, lv_series = [(1, [(''cpu'', [\<lparr>pt_TS = 100, pt_Value = 1 :: int\<rparr>,
        \<lparr>pt_TS = 150, pt_Value = 2\<rparr>, \<lparr>pt_TS = 160, pt_Value = 3\<rparr>])])]\<rparr>"
  have "live_ok ?s" by (simp add: live_ok_def metrics_ok_def ascending_def MaxMetricsPerServer_def)
  from SeriesSince_exact [OF this, of "200 * Second" 1 "''cpu''" 150] show ?thesis
    by (simp add: points_of_def held_def unix_def)
qed

text \<open>
  The live store stays bounded and ordered: any push stamped no earlier than what the
  server already holds, any eviction, \<open>Forget\<close> and change of window keep every series
  ascending and non-empty and at most 256 metrics per server, however the agent names its
  metrics; and after \<open>Forget\<close> nothing of that server is left.
\<close>

theorem live_bounded:
  assumes "live_ok s"
  shows "(no_later i ts s \<longrightarrow> live_ok (live_Add now i ts samples s)) \<and>
    live_ok (evictLocked now i s) \<and> live_ok (Forget i s) \<and> live_ok (SetWindow clock w s) \<and>
    length (held j s) \<le> 256 \<and> held i (Forget i s) = [] \<and>
    (j \<noteq> i \<longrightarrow> held j (Forget i s) = held j s)"
proof -
  have "held i (Forget i s) = []" "j \<noteq> i \<longrightarrow> held j (Forget i s) = held j s"
    by (simp_all add: held_def Forget_def map_of_delete)
  then show ?thesis
    using live_ok_Add [OF assms] live_ok_evict [OF assms] live_ok_Forget [OF assms]
      live_ok_SetWindow [OF assms] held_ok(2) [OF assms, of j]
    by (simp add: MaxMetricsPerServer_def)
qed

theorem live_bounded_witness:
  "live_ok (live_Add 0 1 0 [(''cpu'', 7 :: int)] (new_live 0))"
proof -
  have "no_later 1 0 (new_live 0 :: int live)" by (simp add: no_later_def held_def new_live_def)
  with live_bounded [OF live_ok_new, of 1 0 0 0 "[(''cpu'', 7 :: int)]"] show ?thesis by blast
qed

lemma foldl_add_point_map_of:
  assumes "distinct (map fst bm)" "distinct (map fst samples)"
    "card (fst ` set bm \<union> fst ` set samples) \<le> MaxMetricsPerServer"
  shows "map_of (foldl (add_point ts) bm samples) m =
    (case map_of samples m of
       Some v \<Rightarrow> Some ((case map_of bm m of None \<Rightarrow> [] | Some ps \<Rightarrow> ps) @ [\<lparr>pt_TS = ts, pt_Value = v\<rparr>])
     | None \<Rightarrow> map_of bm m)"
  using assms
proof (induction samples arbitrary: bm)
  case (Cons x samples)
  obtain m' v where x: "x = (m', v)" by (cases x)
  have room: "map_of bm m' \<noteq> None \<or> length bm < MaxMetricsPerServer"
  proof (cases "m' \<in> fst ` set bm")
    case False
    have "length bm = card (fst ` set bm)" using Cons.prems(1) distinct_card [of "map fst bm"] by simp
    also have "\<dots> < card (insert m' (fst ` set bm))" using False by simp
    also have "\<dots> \<le> card (fst ` set bm \<union> fst ` set (x # samples))" by (rule card_mono) (auto simp: x)
    finally show ?thesis using Cons.prems(3) by simp
  qed (simp add: map_of_eq_None_iff)
  have look: "map_of (add_point ts bm x) k = (if k = m'
      then Some ((case map_of bm m' of None \<Rightarrow> [] | Some ps \<Rightarrow> ps) @ [\<lparr>pt_TS = ts, pt_Value = v\<rparr>])
      else map_of bm k)" for k
    using room by (auto simp: x map_of_add_point)
  have keys: "fst ` set (add_point ts bm x) = insert m' (fst ` set bm)"
    using look by (auto simp: dom_map_of_conv_image_fst [symmetric] split: if_splits)
  have d: "distinct (map fst (add_point ts bm x))"
    using Cons.prems(1) by (simp add: add_point_def x distinct_update)
  have c: "card (fst ` set (add_point ts bm x) \<union> fst ` set samples) \<le> MaxMetricsPerServer"
    using Cons.prems(3) by (simp add: keys) (simp add: x)
  have "map_of samples m' = None" using Cons.prems(2) x by (simp add: map_of_eq_None_iff)
  then show ?case
    using Cons.IH [OF d _ c] Cons.prems(2)
    by (cases "m = m'"; cases "map_of samples m") (simp_all add: x look [unfolded x] del: map_of_eq_None_iff)
qed simp


text \<open>
  A push of at most 256 metrics to a server that holds none is recorded whole: each of its
  samples is then the last point of its series, unless the window has already passed it.
\<close>

theorem live_Add_recorded:
  assumes "live_ok s" "held i s = []" "distinct (map fst samples)" "length samples \<le> 256"
    and "(m, v) \<in> set samples" and "unix (now - lv_window s) \<le> ts"
  shows "points_of i m (live_Add now i ts samples s) = [\<lparr>pt_TS = ts, pt_Value = v\<rparr>]"
proof -
  have ne: "samples \<noteq> []" using assms(5) by auto
  have "no_later i ts s" by (simp add: no_later_def assms(2))
  from live_ok_add_samples [OF assms(1) this ne] have ok: "live_ok (add_samples i ts samples s)" .
  have "card (fst ` set samples) \<le> MaxMetricsPerServer"
    using assms(4) card_length [of "map fst samples"] by (simp add: MaxMetricsPerServer_def)
  with foldl_add_point_map_of [of "[]" samples ts m] assms(2,3,5)
  have "points_of i m (add_samples i ts samples s) = [\<lparr>pt_TS = ts, pt_Value = v\<rparr>]"
    by (simp add: points_of_def add_samples_def held_update)
  with points_of_evict [OF ok, of i m now i] ne assms(6) show ?thesis
    by (simp add: live_Add_split live_cutoff_def add_samples_def)
qed

theorem live_Add_recorded_witness:
  "points_of 1 ''cpu'' (live_Add (100 * Second) 1 100 [(''mem'', 3), (''cpu'', 7 :: int)] (new_live 0)) =
     [\<lparr>pt_TS = 100, pt_Value = 7\<rparr>]"
  by (rule live_Add_recorded [OF live_ok_new]) (simp_all add: held_def new_live_def unix_def)

end
