(* ===== verification/Version_Order.thy ===== *)
theory Version_Order
  imports Go_Strings "HOL-Library.Product_Lexorder"
begin

text \<open>
  The order of the version lists: \<open>naturalLess\<close> and \<open>leadingChunk\<close> of
  \<open>mother/release/order.go\<close>. A version is read as a list of chunks; on canonical versions
  (digit runs without leading zeros that fit 64 bits) the comparison is the lexicographic
  order of the chunk lists, hence a strict linear order. On arbitrary strings it is not an
  order at all.
\<close>

section \<open>The comparison\<close>

definition leadingChunk :: "string \<Rightarrow> string \<times> string" where
  "leadingChunk s =
     (let digits = is_digit (hd s) in
      (takeWhile (\<lambda>c. is_digit c = digits) s, dropWhile (\<lambda>c. is_digit c = digits) s))"

lemma leadingChunk_cons: "leadingChunk (x # s) =
    (x # takeWhile (\<lambda>c. is_digit c = is_digit x) s, dropWhile (\<lambda>c. is_digit c = is_digit x) s)"
  by (simp add: leadingChunk_def Let_def)

lemma leadingChunk_shorter: "s \<noteq> [] \<Longrightarrow> length (snd (leadingChunk s)) < length s"
  by (cases s) (auto simp: leadingChunk_cons intro: le_imp_less_Suc length_dropWhile_le)

function naturalLess :: "string \<Rightarrow> string \<Rightarrow> bool" where
  "naturalLess a b =
     (if a \<noteq> [] \<and> b \<noteq> [] then
        let (an, arest) = leadingChunk a; (bn, brest) = leadingChunk b in
        if an \<noteq> bn then
          (case (ParseInt an, ParseInt bn) of
             (Some ai, Some bi) \<Rightarrow> ai < bi
           | _ \<Rightarrow> an < bn)
        else naturalLess arest brest
      else length a < length b)"
  by pat_completeness auto
termination
proof (relation "measure (\<lambda>(a, b). length a)", goal_cases)
  case (2 a b x an ar y bn br)
  then have "ar = snd (leadingChunk a)" by (metis snd_conv)
  with 2 leadingChunk_shorter [of a] show ?case by simp
qed simp

declare naturalLess.simps [simp del]

section \<open>Chunks\<close>

text \<open>
  What a chunk means to the comparison: a number, or text that sorts before or after every
  digit.
\<close>

datatype chunk = Low string | Number int | High string

fun chunk_rank :: "chunk \<Rightarrow> nat \<times> int \<times> string" where
  "chunk_rank (Low s) = (0, 0, s)"
| "chunk_rank (Number n) = (1, n, [])"
| "chunk_rank (High s) = (2, 0, s)"

lemma chunk_rank_inject: "chunk_rank c = chunk_rank d \<Longrightarrow> c = d"
  by (cases c; cases d) auto

instantiation chunk :: linorder
begin

definition less_eq_chunk :: "chunk \<Rightarrow> chunk \<Rightarrow> bool" where
  "c \<le> d \<longleftrightarrow> chunk_rank c \<le> chunk_rank d"

definition less_chunk :: "chunk \<Rightarrow> chunk \<Rightarrow> bool" where
  "c < d \<longleftrightarrow> chunk_rank c < chunk_rank d"

instance
  by standard (auto simp: less_eq_chunk_def less_chunk_def chunk_rank_inject)

end

function chunks :: "string \<Rightarrow> string list" where
  "chunks s = (if s = [] then [] else fst (leadingChunk s) # chunks (snd (leadingChunk s)))"
  by pat_completeness auto
termination
  by (relation "measure length") (auto intro: leadingChunk_shorter)

declare chunks.simps [simp del]

definition chunk_of :: "string \<Rightarrow> chunk" where
  "chunk_of c = (if is_digit (hd c) then Number (dec_val c)
     else if hd c < CHR ''0'' then Low c else High c)"

definition parts :: "string \<Rightarrow> chunk list" where
  "parts s = map chunk_of (chunks s)"

text \<open>One chunk, and a chunk in canonical form.\<close>

definition uniform :: "string \<Rightarrow> bool" where
  "uniform c \<longleftrightarrow> c \<noteq> [] \<and> (\<forall>x \<in> set c. is_digit x = is_digit (hd c))"

definition canonical_chunk :: "string \<Rightarrow> bool" where
  "canonical_chunk c \<longleftrightarrow> uniform c \<and>
     (is_digit (hd c) \<longrightarrow> (hd c = CHR ''0'' \<longrightarrow> c = ''0'') \<and> dec_val c < 2 ^ 63)"

definition canonical :: "string \<Rightarrow> bool" where
  "canonical s \<longleftrightarrow> list_all canonical_chunk (chunks s)"

lemma uniform_leadingChunk: "s \<noteq> [] \<Longrightarrow> uniform (fst (leadingChunk s))"
  by (cases s) (auto simp: leadingChunk_cons uniform_def dest: set_takeWhileD)

lemma concat_chunks: "concat (chunks s) = s"
proof (induction s rule: chunks.induct)
  case (1 s)
  show ?case
  proof (cases "s = []")
    case False
    with 1 show ?thesis by (subst chunks.simps) (simp add: leadingChunk_def Let_def)
  qed (simp add: chunks.simps)
qed

lemma chunks_Cons: "s \<noteq> [] \<Longrightarrow> chunks s = fst (leadingChunk s) # chunks (snd (leadingChunk s))"
  by (subst chunks.simps) simp

lemma chunks_Nil [simp]: "chunks [] = []"
  by (simp add: chunks.simps)

lemma canonical_Cons:
  assumes "s \<noteq> []" "canonical s"
  shows "canonical_chunk (fst (leadingChunk s))" "canonical (snd (leadingChunk s))"
  using assms by (simp_all add: canonical_def chunks_Cons)

lemma byte_zero: "byte c = 48 \<longleftrightarrow> c = CHR ''0''"
proof -
  have "byte CHR ''0'' = 48" by (simp add: byte_def)
  then show ?thesis by (metis byte_def char_of_char)
qed

lemma less_byte: "c < d \<longleftrightarrow> byte c < byte d"
  by (simp add: byte_def less_char_def)

lemma dec_val_nonneg: "list_all is_digit s \<Longrightarrow> 0 \<le> dec_val s"
  by (induction s rule: rev_induct) (auto simp: dec_val_def digit_val_def is_digit_byte)

lemma dec_val_pos: "list_all is_digit s \<Longrightarrow> s \<noteq> [] \<Longrightarrow> hd s \<noteq> CHR ''0'' \<Longrightarrow> 0 < dec_val s"
proof (induction s rule: rev_induct)
  case (snoc c s)
  show ?case
  proof (cases "s = []")
    case True
    have "byte c \<noteq> 48" using snoc.prems(3) True by (simp add: byte_zero)
    with True snoc.prems show ?thesis by (auto simp: dec_val_def digit_val_def is_digit_byte)
  next
    case False
    with snoc have "0 < dec_val s" by simp
    moreover have "0 \<le> digit_val c" using snoc.prems by (auto simp: digit_val_def is_digit_byte)
    ultimately show ?thesis by simp
  qed
qed simp

text \<open>A canonical digit run is the decimal form of its value, so equal values are equal runs.\<close>

lemma nat_dec_canonical:
  "list_all is_digit s \<Longrightarrow> s \<noteq> [] \<Longrightarrow> (hd s = CHR ''0'' \<longrightarrow> s = ''0'') \<Longrightarrow> nat_dec (nat (dec_val s)) = s"
proof (induction s rule: rev_induct)
  case (snoc c s)
  have c: "0 \<le> digit_val c" "digit_val c < 10" "char_of (nat (digit_val c) + 48) = c"
    using snoc.prems(1) by (auto simp: digit_val_def is_digit_byte byte_def nat_diff_distrib)
  show ?case
  proof (cases "s = []")
    case True
    with c show ?thesis by (subst nat_dec.simps) (simp add: dec_val_def nat_less_iff)
  next
    case False
    with snoc.prems have hd: "hd s \<noteq> CHR ''0''" by auto
    then have "0 < dec_val s" using False snoc.prems by (simp add: dec_val_pos)
    moreover have "nat_dec (nat (dec_val s)) = s" using snoc False hd by simp
    moreover have "nat (10 * dec_val s + digit_val c) div 10 = nat (dec_val s)"
      "nat (10 * dec_val s + digit_val c) mod 10 = nat (digit_val c)"
      using c calculation(1) by (simp_all add: nat_add_distrib nat_mult_distrib nat_less_iff)
    moreover have "\<not> nat (10 * dec_val s + digit_val c) < 10"
      using c(1) calculation(1) by linarith
    ultimately show ?thesis using c(3) by (subst nat_dec.simps) simp
  qed
qed simp

lemma chunk_of_inject:
  assumes "canonical_chunk c" "canonical_chunk d" "chunk_of c = chunk_of d"
  shows "c = d"
proof (cases "is_digit (hd c)")
  case True
  then have "is_digit (hd d)" and val: "dec_val c = dec_val d"
    using assms(3) by (auto simp: chunk_of_def split: if_splits)
  have dec: "nat_dec (nat (dec_val e)) = e" if "canonical_chunk e" "is_digit (hd e)" for e
    using that by (intro nat_dec_canonical) (auto simp: canonical_chunk_def uniform_def list_all_iff)
  from dec [OF assms(1) True] dec [OF assms(2) \<open>is_digit (hd d)\<close>] val show ?thesis by metis
next
  case False
  then show ?thesis using assms(3) by (auto simp: chunk_of_def split: if_splits)
qed

lemma parts_inject:
  assumes "canonical a" "canonical b" "parts a = parts b"
  shows "a = b"
proof -
  have "map chunk_of xs = map chunk_of ys \<Longrightarrow> list_all canonical_chunk xs \<Longrightarrow>
      list_all canonical_chunk ys \<Longrightarrow> xs = ys" for xs ys
    by (induction xs arbitrary: ys) (auto intro: chunk_of_inject)
  with assms have "chunks a = chunks b" by (simp add: parts_def canonical_def)
  then show ?thesis by (metis concat_chunks)
qed

lemma ParseInt_digits:
  assumes "uniform c" "is_digit (hd c)" "dec_val c < 2 ^ 63"
  shows "ParseInt c = Some (dec_val c)"
proof -
  obtain x xs where c: "c = x # xs" using assms(1) by (cases c) (auto simp: uniform_def)
  have all: "list_all is_digit c" using assms(1,2) by (auto simp: uniform_def list_all_iff)
  then have "0 \<le> dec_val c" by (rule dec_val_nonneg)
  with all assms(3) digit_not_sign [of x] show ?thesis
    by (auto simp: ParseInt_def c int64_def)
qed

lemma ParseInt_text:
  assumes "uniform c" "\<not> is_digit (hd c)"
  shows "ParseInt c = None"
proof -
  obtain x xs where c: "c = x # xs" using assms(1) by (cases c) (auto simp: uniform_def)
  then have "\<forall>y \<in> set xs. \<not> is_digit y" using assms by (auto simp: uniform_def)
  with c assms(2) show ?thesis
    by (cases xs) (auto simp: ParseInt_def Let_def)
qed

lemma less_string_hd: "c \<noteq> [] \<Longrightarrow> d \<noteq> [] \<Longrightarrow> hd c \<noteq> hd d \<Longrightarrow> (c < d) = (hd c < (hd d :: char))"
  by (cases c; cases d) auto

lemma digit_range: "is_digit x \<Longrightarrow> \<not> is_digit y \<Longrightarrow> y \<noteq> x \<and> (y < x \<longleftrightarrow> y < CHR ''0'')"
proof -
  assume x: "is_digit x" and y: "\<not> is_digit y"
  have z: "byte CHR ''0'' = 48" by (simp add: byte_def)
  have "byte y < byte x \<longleftrightarrow> byte y < 48" using x y unfolding is_digit_byte by linarith
  then show "y \<noteq> x \<and> (y < x \<longleftrightarrow> y < CHR ''0'')"
    unfolding less_byte z using x y by blast
qed

lemma chunk_compare:
  assumes "canonical_chunk c" "canonical_chunk d" "c \<noteq> d"
  shows "(case (ParseInt c, ParseInt d) of (Some m, Some n) \<Rightarrow> m < n | _ \<Rightarrow> c < d) \<longleftrightarrow> chunk_of c < chunk_of d"
proof -
  have u: "uniform c" "uniform d" "c \<noteq> []" "d \<noteq> []" using assms(1,2) unfolding canonical_chunk_def uniform_def by blast+
  consider "is_digit (hd c)" "is_digit (hd d)" | "is_digit (hd c)" "\<not> is_digit (hd d)"
    | "\<not> is_digit (hd c)" "is_digit (hd d)" | "\<not> is_digit (hd c)" "\<not> is_digit (hd d)" by blast
  then show ?thesis
  proof cases
    case 1
    with assms u show ?thesis
      by (simp add: ParseInt_digits canonical_chunk_def chunk_of_def less_chunk_def)
  next
    case 2
    have "c < d \<longleftrightarrow> hd c < hd d" using less_string_hd u digit_range [OF 2] by metis
    also have "\<dots> \<longleftrightarrow> \<not> hd d < CHR ''0''"
      using digit_range [OF 2] by (meson less_asym less_linear)
    finally have less: "c < d \<longleftrightarrow> \<not> hd d < CHR ''0''" .
    with 2 u show ?thesis
      by (cases "ParseInt c") (simp_all add: ParseInt_text chunk_of_def less_chunk_def)
  next
    case 3
    with u digit_range [OF 3(2,1)] show ?thesis
      by (auto simp: ParseInt_text chunk_of_def less_chunk_def less_string_hd)
  next
    case 4
    then show ?thesis
      using u less_string_hd [of c d]
      by (auto simp: ParseInt_text chunk_of_def less_chunk_def is_digit_def)
  qed
qed

lemma naturalLess_parts:
  "canonical a \<Longrightarrow> canonical b \<Longrightarrow> naturalLess a b \<longleftrightarrow> parts a < parts b"
proof (induction a b rule: naturalLess.induct)
  case (1 a b)
  show ?case
  proof (cases "a \<noteq> [] \<and> b \<noteq> []")
    case True
    obtain an ar bn br where l: "leadingChunk a = (an, ar)" "leadingChunk b = (bn, br)" by fastforce
    note ca = canonical_Cons [OF _ "1.prems"(1)] and cb = canonical_Cons [OF _ "1.prems"(2)]
    have p: "parts a = chunk_of an # parts ar" "parts b = chunk_of bn # parts br"
      using True l by (simp_all add: parts_def chunks_Cons)
    show ?thesis
    proof (cases "an = bn")
      case t: True
      have "naturalLess ar br \<longleftrightarrow> parts ar < parts br"
        by (rule "1.IH" [OF _ refl _ refl]) (use True l t ca cb in auto)
      with True l t p show ?thesis by (subst naturalLess.simps) simp
    next
      case False
      then have "chunk_of an \<noteq> chunk_of bn"
        using chunk_of_inject ca cb True l by fastforce
      with False True l p ca cb chunk_compare [of an bn] show ?thesis
        by (subst naturalLess.simps) simp
    qed
  next
    case False
    then show ?thesis
      by (subst naturalLess.simps) (cases a; cases b; auto simp: parts_def chunks_Cons)
  qed
qed

section \<open>Sorting under a strict linear order\<close>

text \<open>
  The insertion sort \<open>sort.Slice\<close> runs on short slices; on longer ones it promises the
  same list, because under a strict linear order the sorted arrangement is unique.
\<close>

fun insert_last :: "('a \<Rightarrow> 'a \<Rightarrow> bool) \<Rightarrow> 'a \<Rightarrow> 'a list \<Rightarrow> 'a list" where
  "insert_last lt x [] = [x]"
| "insert_last lt x (y # ys) = (if lt x y then y # insert_last lt x ys else x # y # ys)"

definition sort_slice :: "('a \<Rightarrow> 'a \<Rightarrow> bool) \<Rightarrow> 'a list \<Rightarrow> 'a list" where
  "sort_slice lt xs = rev (foldl (\<lambda>acc x. insert_last lt x acc) [] xs)"

lemma mset_insert_last: "mset (insert_last lt x ys) = add_mset x (mset ys)"
  by (induction ys) auto

lemma mset_sort_slice: "mset (sort_slice lt xs) = mset xs"
proof -
  have "mset (foldl (\<lambda>acc x. insert_last lt x acc) acc xs) = mset acc + mset xs" for acc
    by (induction xs arbitrary: acc) (auto simp: mset_insert_last)
  then show ?thesis by (simp add: sort_slice_def)
qed

lemma map_insert_last:
  "map f (insert_last (\<lambda>a b. lt (f a) (f b)) x ys) = insert_last lt (f x) (map f ys)"
  by (induction ys) auto

lemma map_sort_slice: "map f (sort_slice (\<lambda>a b. lt (f a) (f b)) xs) = sort_slice lt (map f xs)"
proof -
  have "map f (foldl (\<lambda>acc x. insert_last (\<lambda>a b. lt (f a) (f b)) x acc) acc xs) =
      foldl (\<lambda>acc x. insert_last lt x acc) (map f acc) (map f xs)" for acc
    by (induction xs arbitrary: acc) (auto simp: map_insert_last)
  then show ?thesis by (simp add: sort_slice_def rev_map [symmetric])
qed

locale strict_order =
  fixes lt :: "'a \<Rightarrow> 'a \<Rightarrow> bool" and carrier :: "'a set"
  assumes irrefl: "a \<in> carrier \<Longrightarrow> \<not> lt a a"
    and trans: "a \<in> carrier \<Longrightarrow> b \<in> carrier \<Longrightarrow> c \<in> carrier \<Longrightarrow> lt a b \<Longrightarrow> lt b c \<Longrightarrow> lt a c"
    and total: "a \<in> carrier \<Longrightarrow> b \<in> carrier \<Longrightarrow> a \<noteq> b \<Longrightarrow> lt a b \<or> lt b a"
begin

lemma sorted_insert_last:
  assumes "set (x # ys) \<subseteq> carrier" "x \<notin> set ys" "sorted_wrt (\<lambda>a b. lt b a) ys"
  shows "sorted_wrt (\<lambda>a b. lt b a) (insert_last lt x ys)"
  using assms
proof (induction ys)
  case (Cons y ys)
  have set: "set (insert_last lt x ys) = insert x (set ys)"
    using arg_cong [OF mset_insert_last [of lt x ys], of set_mset] by simp
  show ?case
  proof (cases "lt x y")
    case True
    with Cons set show ?thesis by auto
  next
    case False
    then have "lt y x" using total [of x y] Cons.prems by auto
    with Cons.prems False show ?thesis by (auto intro: trans)
  qed
qed simp

lemma sorted_sort_slice:
  assumes "set xs \<subseteq> carrier" "distinct xs"
  shows "sorted_wrt lt (sort_slice lt xs)"
proof -
  have "sorted_wrt (\<lambda>a b. lt b a) (foldl (\<lambda>acc x. insert_last lt x acc) acc xs)"
    if "set (acc @ xs) \<subseteq> carrier" "distinct (acc @ xs)" "sorted_wrt (\<lambda>a b. lt b a) acc" for acc
    using that
  proof (induction xs arbitrary: acc)
    case (Cons x xs)
    have set: "set (insert_last lt x acc) = insert x (set acc)"
      using arg_cong [OF mset_insert_last [of lt x acc], of set_mset] by simp
    have dist: "distinct (insert_last lt x acc)"
      using Cons.prems(2) mset_insert_last [of lt x acc]
      by (metis distinct.simps(2) distinct_append mset.simps(2) mset_eq_imp_distinct_iff
          not_distinct_conv_prefix append_Cons append.left_neutral Un_iff disjoint_iff set_append
          list.set_intros(1))
    have "sorted_wrt (\<lambda>a b. lt b a) (insert_last lt x acc)"
      using Cons.prems by (intro sorted_insert_last) auto
    with Cons.IH [of "insert_last lt x acc"] Cons.prems set dist show ?case by auto
  qed simp
  from this [of "[]"] assms show ?thesis by (simp add: sort_slice_def sorted_wrt_rev)
qed

lemma sorted_unique:
  assumes "set xs \<subseteq> carrier" "sorted_wrt lt xs" "sorted_wrt lt ys" "mset xs = mset ys"
  shows "xs = ys"
  using assms
proof (induction xs arbitrary: ys)
  case (Cons x xs)
  then obtain y zs where ys: "ys = y # zs" by (cases ys) auto
  have sets: "insert x (set xs) = insert y (set zs)"
    using Cons.prems(4) ys by (metis list.simps(15) mset_eq_setD)
  have "x = y"
  proof (rule ccontr)
    assume ne: "x \<noteq> y"
    then have "lt x y" "lt y x" using sets Cons.prems(2,3) ys by auto
    moreover have "x \<in> carrier" "y \<in> carrier" using Cons.prems(1) sets by auto
    ultimately show False using trans irrefl by blast
  qed
  with Cons ys show ?case by auto
qed simp

lemma sort_slice_unique:
  assumes "set xs \<subseteq> carrier" "distinct xs" "mset ys = mset xs" "sorted_wrt lt ys"
  shows "ys = sort_slice lt xs"
  using assms
  by (intro sorted_unique) (auto simp: mset_sort_slice sorted_sort_slice dest: mset_eq_setD)

end

interpretation newest: strict_order "\<lambda>a b. naturalLess b a" "{v. canonical v}"
proof
  show "\<not> naturalLess a a" if "a \<in> {v. canonical v}" for a
    using that by (simp add: naturalLess_parts)
  show "naturalLess c a" if "a \<in> {v. canonical v}" "b \<in> {v. canonical v}" "c \<in> {v. canonical v}"
    "naturalLess b a" "naturalLess c b" for a b c
    using that by (auto simp: naturalLess_parts)
  show "naturalLess b a \<or> naturalLess a b" if "a \<in> {v. canonical v}" "b \<in> {v. canonical v}" "a \<noteq> b" for a b
    using that parts_inject [of a b] by (auto simp: naturalLess_parts not_less_iff_gr_or_eq)
qed

section \<open>Properties\<close>

text \<open>
  C20. On canonical versions \<open>naturalLess\<close> is the lexicographic order of their chunks,
  numbers by value, and so a strict linear order: exactly one of two different versions is the
  newer one, and being newer is transitive.
\<close>

theorem naturalLess_linear:
  assumes "canonical a" "canonical b" "canonical c"
  shows "(naturalLess a b \<longleftrightarrow> parts a < parts b) \<and> \<not> naturalLess a a \<and>
    (a \<noteq> b \<longrightarrow> naturalLess a b \<noteq> naturalLess b a) \<and>
    (naturalLess a b \<and> naturalLess b c \<longrightarrow> naturalLess a c)"
  using assms parts_inject [of a b]
  by (auto simp: naturalLess_parts not_less_iff_gr_or_eq)

theorem naturalLess_linear_witness:
  "naturalLess ''v1.9.0'' ''v1.10.0'' \<and> \<not> naturalLess ''v1.10.0'' ''v1.9.0''"
proof -
  have "canonical ''v1.9.0''" "canonical ''v1.10.0''" "parts ''v1.9.0'' < parts ''v1.10.0''"
    by code_simp+
  with naturalLess_linear [of "''v1.9.0''" "''v1.10.0''" "''v1.9.0''"] show ?thesis by auto
qed

text \<open>
  Outside canonical versions \<open>naturalLess\<close> is not an order: a digit run too long for
  64 bits is compared as text, which closes a cycle of three versions each older than the next,
  and a leading zero makes two different versions neither older nor newer while a third one
  tells them apart.
\<close>

theorem naturalLess_not_an_order:
  "naturalLess ''5'' ''10'' \<and> naturalLess ''10'' ''100000000000000000000'' \<and>
   naturalLess ''100000000000000000000'' ''5'' \<and>
   \<not> naturalLess ''v1.4'' ''v01.0'' \<and> \<not> naturalLess ''v01.0'' ''v1.4'' \<and>
   \<not> naturalLess ''v01.0'' ''v1.5'' \<and> \<not> naturalLess ''v1.5'' ''v01.0'' \<and>
   naturalLess ''v1.4'' ''v1.5''"
  by (intro conjI) code_simp+

end
