(* ===== verification/Release_Index.thy ===== *)
theory Release_Index
  imports Version_Order
begin

text \<open>
  The mother's view of what builds exist: \<open>mother/release/index.go\<close>. A fetch from the
  source is one value: an error, or the two lists with the not-modified flag. The lemmas give
  the cache as a function of the fetches it has seen: the last good lists, never emptied by a
  failure.
\<close>

record build =
  bl_Version :: string
  bl_Platforms :: "string list"

definition SortDescending :: "build list \<Rightarrow> build list" where
  "SortDescending builds = sort_slice (\<lambda>a b. naturalLess (bl_Version b) (bl_Version a)) builds"

record snapshot =
  sn_Builds :: "build list"
  sn_Mother :: "build list"
  sn_CheckedAt :: int
  sn_Stale :: bool

type_synonym fetched = "string + build list \<times> build list \<times> bool"

definition cloneBuilds :: "build list \<Rightarrow> build list" where
  "cloneBuilds bs = map (\<lambda>b. \<lparr>bl_Version = bl_Version b, bl_Platforms = bl_Platforms b\<rparr>) bs"

definition NewCache :: snapshot where
  "NewCache = \<lparr>sn_Builds = [], sn_Mother = [], sn_CheckedAt = zeroTime, sn_Stale = True\<rparr>"

definition Refresh :: "int \<Rightarrow> fetched \<Rightarrow> snapshot \<Rightarrow> string option \<times> snapshot" where
  "Refresh now r snap = (case r of
       Inl err \<Rightarrow> (Some err, \<lparr>sn_Builds = sn_Builds snap, sn_Mother = sn_Mother snap,
                     sn_CheckedAt = sn_CheckedAt snap, sn_Stale = True\<rparr>)
     | Inr (agents, mother, notModified) \<Rightarrow>
         if notModified
         then (None, \<lparr>sn_Builds = sn_Builds snap, sn_Mother = sn_Mother snap,
                      sn_CheckedAt = now, sn_Stale = False\<rparr>)
         else (None, \<lparr>sn_Builds = cloneBuilds agents, sn_Mother = cloneBuilds mother,
                      sn_CheckedAt = now, sn_Stale = False\<rparr>))"

definition Snapshot :: "snapshot \<Rightarrow> snapshot" where
  "Snapshot snap = \<lparr>sn_Builds = cloneBuilds (sn_Builds snap), sn_Mother = cloneBuilds (sn_Mother snap),
     sn_CheckedAt = sn_CheckedAt snap, sn_Stale = sn_Stale snap\<rparr>"

text \<open>
  The polling loop: one refresh at once and one per tick until the context is done. Each
  element is the clock and the fetch of one refresh; the failures reported are returned.
\<close>

fun Poll :: "(int \<times> fetched) list \<Rightarrow> snapshot \<Rightarrow> string list \<times> snapshot" where
  "Poll [] snap = ([], snap)"
| "Poll ((now, r) # ticks) snap =
     (case Refresh now r snap of (err, snap') \<Rightarrow>
        case Poll ticks snap' of (errs, out) \<Rightarrow>
          ((case err of None \<Rightarrow> errs | Some e \<Rightarrow> e # errs), out))"

section \<open>What a cache holds\<close>

fun last_good :: "(int \<times> fetched) list \<Rightarrow> build list \<times> build list \<Rightarrow> build list \<times> build list" where
  "last_good [] acc = acc"
| "last_good ((now, r) # ticks) acc =
     last_good ticks (case r of Inr (agents, mother, False) \<Rightarrow> (agents, mother) | _ \<Rightarrow> acc)"

lemma cloneBuilds_id [simp]: "cloneBuilds bs = bs"
  by (simp add: cloneBuilds_def map_idI)

lemma Snapshot_id [simp]: "Snapshot snap = snap"
  by (simp add: Snapshot_def)

lemma Poll_lists:
  "(sn_Builds (snd (Poll ticks snap)), sn_Mother (snd (Poll ticks snap))) =
     last_good ticks (sn_Builds snap, sn_Mother snap)"
proof (induction ticks arbitrary: snap)
  case (Cons t ticks)
  obtain now r where t: "t = (now, r)" by (cases t)
  have "(sn_Builds (snd (Refresh now r snap)), sn_Mother (snd (Refresh now r snap))) =
      (case r of Inr (agents, mother, False) \<Rightarrow> (agents, mother) | _ \<Rightarrow> (sn_Builds snap, sn_Mother snap))"
    by (auto simp: Refresh_def split: sum.split prod.split bool.split)
  with Cons.IH [of "snd (Refresh now r snap)"] show ?case
    by (simp add: t case_prod_unfold Let_def)
qed simp

lemma Poll_stale:
  "sn_Stale (snd (Poll ticks snap)) =
     (case rev ticks of [] \<Rightarrow> sn_Stale snap | (now, r) # _ \<Rightarrow> isl r)"
proof (induction ticks arbitrary: snap)
  case (Cons t ticks)
  obtain now r where t: "t = (now, r)" by (cases t)
  have "sn_Stale (snd (Refresh now r snap)) = (isl r)"
    by (auto simp: Refresh_def split: sum.split prod.split)
  with Cons.IH [of "snd (Refresh now r snap)"] show ?case
    by (cases "rev ticks") (auto simp: t case_prod_unfold)
qed simp

lemma Poll_reports: "fst (Poll ticks snap) = [e. (now, Inl e) \<leftarrow> ticks]"
proof (induction ticks arbitrary: snap)
  case (Cons t ticks)
  obtain now r where t: "t = (now, r)" by (cases t)
  with Cons.IH [of "snd (Refresh now r snap)"] show ?case
    by (cases r) (auto simp: case_prod_unfold Refresh_def)
qed simp

lemma map_SortDescending:
  "map bl_Version (SortDescending bs) = sort_slice (\<lambda>a b. naturalLess b a) (map bl_Version bs)"
  unfolding SortDescending_def by (rule map_sort_slice)

lemma mset_SortDescending: "mset (SortDescending bs) = mset bs"
  by (simp add: SortDescending_def mset_sort_slice)

lemma sorted_SortDescending:
  assumes "\<forall>b \<in> set bs. canonical (bl_Version b)" and "distinct (map bl_Version bs)"
  shows "sorted_wrt (\<lambda>a b. naturalLess (bl_Version b) (bl_Version a)) (SortDescending bs)"
proof -
  have "set (map bl_Version bs) \<subseteq> {v. canonical v}" using assms(1) by auto
  from newest.sorted_sort_slice [OF this assms(2)] show ?thesis
    by (simp add: map_SortDescending [symmetric] sorted_wrt_map)
qed

section \<open>Properties\<close>

text \<open>
  The list a rollout is picked from: for distinct canonical versions, \<open>SortDescending\<close>
  is a permutation of the builds with the newest version first, and the only one, so any
  correct sort gives the same list and the same first element.
\<close>

theorem SortDescending_newest_first:
  assumes "\<forall>b \<in> set bs. canonical (bl_Version b)" and "distinct (map bl_Version bs)"
  shows "mset (SortDescending bs) = mset bs \<and>
    sorted_wrt (\<lambda>a b. naturalLess (bl_Version b) (bl_Version a)) (SortDescending bs) \<and>
    (mset cs = mset bs \<and> sorted_wrt (\<lambda>a b. naturalLess (bl_Version b) (bl_Version a)) cs \<longrightarrow>
       cs = SortDescending bs)"
proof -
  let ?vs = "map bl_Version bs"
  have carrier: "set ?vs \<subseteq> {v. canonical v}" using assms(1) by auto
  note sorted = sorted_SortDescending [OF assms]
  have "cs = SortDescending bs" if c: "mset cs = mset bs"
    "sorted_wrt (\<lambda>a b. naturalLess (bl_Version b) (bl_Version a)) cs" for cs
  proof -
    have "sorted_wrt (\<lambda>a b. naturalLess b a) (map bl_Version cs)"
      using c(2) by (simp add: sorted_wrt_map)
    moreover have "mset (map bl_Version cs) = mset ?vs" using c(1) by simp
    ultimately have "map bl_Version cs = map bl_Version (SortDescending bs)"
      unfolding map_SortDescending using newest.sort_slice_unique [OF carrier assms(2)] by blast
    moreover have "inj_on bl_Version (set cs \<union> set (SortDescending bs))"
      using assms(2) mset_eq_setD [OF c(1)] mset_eq_setD [OF mset_SortDescending [of bs]]
      by (simp add: distinct_map)
    ultimately show ?thesis by (rule map_inj_on)
  qed
  with sorted show ?thesis by (simp add: mset_SortDescending)
qed

theorem SortDescending_newest_first_witness:
  "sorted_wrt (\<lambda>a b. naturalLess (bl_Version b) (bl_Version a))
     (SortDescending [\<lparr>bl_Version = ''v1.9.0'', bl_Platforms = []\<rparr>, \<lparr>bl_Version = ''v1.10.0'', bl_Platforms = []\<rparr>])"
proof -
  have "canonical ''v1.9.0''" "canonical ''v1.10.0''" by code_simp+
  with SortDescending_newest_first
    [of "[\<lparr>bl_Version = ''v1.9.0'', bl_Platforms = []\<rparr>, \<lparr>bl_Version = ''v1.10.0'', bl_Platforms = []\<rparr>]" "[]"]
  show ?thesis by simp
qed

text \<open>
  The cache never loses the list it had: after any run of refreshes it holds the lists of
  the last fetch that delivered some, or what it started with; it is marked stale exactly when
  the last fetch failed, and every failure was reported, in order.
\<close>

theorem Poll_keeps_last_good:
  "(sn_Builds (Snapshot (snd (Poll ticks NewCache))), sn_Mother (Snapshot (snd (Poll ticks NewCache)))) =
     last_good ticks ([], []) \<and>
   (sn_Stale (snd (Poll ticks NewCache)) \<longleftrightarrow>
     (case rev ticks of [] \<Rightarrow> True | (now, r) # _ \<Rightarrow> isl r)) \<and>
   fst (Poll ticks NewCache) = [e. (now, Inl e) \<leftarrow> ticks]"
  using Poll_lists [of ticks NewCache] Poll_stale [of ticks NewCache] Poll_reports [of ticks NewCache]
  by (cases "rev ticks") (simp_all add: NewCache_def case_prod_unfold)

end
