(* ===== verification/Throttle.thy ===== *)
theory Throttle
  imports Prelude
begin

text \<open>
  The contract the program's three rate limiters share (one push per server and gap on the
  mother, one update attempt per target and one removal attempt per gap on the agent). An
  attempt happens in the course of an event that carries a clock reading. What is admitted is
  remembered as the last admission, what is refused changes nothing, and nothing is admitted
  within the gap of the last admission. Everything admitted in a run of usable events is then
  at least a gap apart.
\<close>

locale throttle =
  fixes gap :: int and last :: "'s \<Rightarrow> int option" and time :: "'e \<Rightarrow> int" and usable :: "'e \<Rightarrow> bool"
    and attempt :: "'e \<Rightarrow> 's \<Rightarrow> bool \<times> 's"
  assumes gap_range: "0 < gap" "gap \<le> maxDuration"
    and admits: "usable e \<Longrightarrow> attempt e s = (True, s') \<Longrightarrow> last s' = Some (time e)"
    and refuses: "usable e \<Longrightarrow> attempt e s = (False, s') \<Longrightarrow> last s' = last s"
    and spaced: "usable e \<Longrightarrow> last s = Some t \<Longrightarrow> time_sub (time e) t < gap \<Longrightarrow> \<not> fst (attempt e s)"
begin

fun admitted :: "'e list \<Rightarrow> 's \<Rightarrow> int list" where
  "admitted [] s = []"
| "admitted (e # es) s =
     (case attempt e s of (ok, s') \<Rightarrow> if ok then time e # admitted es s' else admitted es s')"

lemma admitted_after:
  "\<forall>e \<in> set es. usable e \<Longrightarrow> last s = Some t \<Longrightarrow> admitted es s = u # us \<Longrightarrow> gap \<le> u - t"
proof (induction es arbitrary: s)
  case (Cons e es)
  obtain ok s' where a: "attempt e s = (ok, s')" by fastforce
  have e: "usable e" using Cons.prems(1) by simp
  show ?case
  proof (cases ok)
    case True
    with a Cons.prems have "u = time e" by simp
    moreover have "\<not> time_sub (time e) t < gap"
      using spaced [OF e Cons.prems(2)] a True by fastforce
    ultimately show ?thesis
      using gap_range by (simp add: time_sub_less)
  next
    case False
    with a refuses [OF e] Cons.prems Cons.IH [of s'] show ?thesis by simp
  qed
qed simp

text \<open>Consecutive admissions are a gap apart.\<close>

lemma admitted_spaced: "\<forall>e \<in> set es. usable e \<Longrightarrow> successively (\<lambda>t u. gap \<le> u - t) (admitted es s)"
proof (induction es arbitrary: s)
  case (Cons e es)
  obtain ok s' where a: "attempt e s = (ok, s')" by fastforce
  have e: "usable e" and es: "\<forall>e \<in> set es. usable e" using Cons.prems by simp_all
  show ?case
  proof (cases ok)
    case True
    with admits [OF e] a have "last s' = Some (time e)" by simp
    with admitted_after [OF es, of s' "time e"] Cons.IH [OF es, of s'] a True show ?thesis
      by (cases "admitted es s'") auto
  next
    case False
    with a Cons.IH [OF es, of s'] show ?thesis by simp
  qed
qed simp

text \<open>So a stretch of time of a given length admits only so many.\<close>

lemma admitted_bounded:
  assumes "\<forall>e \<in> set es. usable e" "\<forall>e \<in> set es. from \<le> time e \<and> time e \<le> to"
  shows "int (length (admitted es s)) \<le> (if admitted es s = [] then 0 else (to - from) div gap + 1)"
proof -
  have sub: "set (admitted es s) \<subseteq> time ` set es" for es s
  proof (induction es arbitrary: s)
    case (Cons e es)
    then show ?case using Cons.IH [of "snd (attempt e s)"] by (auto simp: case_prod_unfold)
  qed simp
  have "successively (\<lambda>t u. gap \<le> u - t) xs \<Longrightarrow> \<forall>x \<in> set xs. x \<le> to \<Longrightarrow> xs \<noteq> [] \<Longrightarrow>
      gap * (int (length xs) - 1) \<le> to - hd xs" for xs
  proof (induction xs rule: induct_list012)
    case (3 x y zs)
    then have "gap * (int (length (y # zs)) - 1) \<le> to - y" "gap \<le> y - x" by auto
    then show ?case by (simp add: algebra_simps)
  qed auto
  note count = this
  have range: "from \<le> x \<and> x \<le> to" if "x \<in> set (admitted es s)" for x
    using sub [of es s] that assms(2) by auto
  have *: "gap * (int (length (admitted es s)) - 1) \<le> to - hd (admitted es s)" if "admitted es s \<noteq> []"
    by (rule count [OF admitted_spaced [OF assms(1)] _ that]) (simp add: range)
  show ?thesis
  proof (cases "admitted es s = []")
    case False
    then have "from \<le> hd (admitted es s)" using range hd_in_set by blast
    with * False have "gap * (int (length (admitted es s)) - 1) \<le> to - from" by linarith
    then have "int (length (admitted es s)) - 1 \<le> (to - from) div gap"
      using gap_range(1) zdiv_mono1 [of "gap * (int (length (admitted es s)) - 1)" "to - from" gap]
      by simp
    with False show ?thesis by simp
  qed simp
qed

end

end
