(* ===== verification/API_Base.thy ===== *)
theory API_Base
  imports Store Live Release_Index Throttle
begin

text \<open>
  What the mother's HTTP handlers share: the state of the \<open>API\<close> struct and the guards of
  \<open>mother/api/middleware.go\<close>. A handler is a function from a request's parts to a change of
  state with a response. The routes are in \<open>API_Routes\<close>; header encoding and JSON are the
  library's: a decoded body is an option, \<open>None\<close> for one that does not decode; a header or query
  parameter that is absent is the empty string, as Go returns it.
\<close>

section \<open>State\<close>

record 'v api =
  ap_db :: "'v db"
  ap_key :: string
  ap_releases :: snapshot
  ap_publicURL :: string
  ap_live :: "'v live"
  ap_lastPush :: "(int \<times> int) list"

definition minPushGap :: int where "minPushGap = 2 * Second"

definition New :: "'v db \<Rightarrow> string \<Rightarrow> snapshot \<Rightarrow> 'v api" where
  "New st apiKey releases = \<lparr>ap_db = st, ap_key = apiKey, ap_releases = releases,
     ap_publicURL = ''http://127.0.0.1:8443'', ap_live = new_live (DefaultLiveWindowMinutes * Minute),
     ap_lastPush = []\<rparr>"

definition SetPublicURL :: "string \<Rightarrow> 'v api \<Rightarrow> 'v api" where
  "SetPublicURL u a = a\<lparr>ap_publicURL := u\<rparr>"

definition ApplySettings :: "(int \<Rightarrow> int) \<Rightarrow> settings \<Rightarrow> 'v api \<Rightarrow> 'v api" where
  "ApplySettings clock s a =
     a\<lparr>ap_live := SetWindow clock (wrap64 (LiveWindowMinutes s * Minute)) (ap_live a)\<rparr>"

section \<open>Responses\<close>

text \<open>\<open>writeJSON(w, status, data, errMsg)\<close>; a success is an empty message.\<close>

record 'd response =
  rs_status :: nat
  rs_data :: "'d option"
  rs_error :: string

definition answer :: "nat \<Rightarrow> 'd \<Rightarrow> 'd response" where
  "answer st d = \<lparr>rs_status = st, rs_data = Some d, rs_error = ''''\<rparr>"

lemma answer_inject [simp]: "answer st d = answer st' d' \<longleftrightarrow> st = st' \<and> d = d'"
  by (auto simp: answer_def)

definition ok_empty :: "'d response" where
  "ok_empty = \<lparr>rs_status = 200, rs_data = None, rs_error = ''''\<rparr>"

definition refuse :: "nat \<Rightarrow> string \<Rightarrow> 'd response" where
  "refuse st msg = \<lparr>rs_status = st, rs_data = None, rs_error = msg\<rparr>"

abbreviation storage_failure :: "'d response" where
  "storage_failure \<equiv> refuse 500 ''storage failure''"

text \<open>A store call inside a handler.\<close>

definition call :: "('v, 'a) op \<Rightarrow> 'v api \<Rightarrow> (store_error + 'a) \<times> 'v api" where
  "call m a = (case m (ap_db a) of (r, d) \<Rightarrow> (r, a\<lparr>ap_db := d\<rparr>))"

section \<open>Guards\<close>

definition requireAPIKey :: "string \<Rightarrow> ('v api \<Rightarrow> 'd response \<times> 'v api) \<Rightarrow> 'v api \<Rightarrow> 'd response \<times> 'v api" where
  "requireAPIKey key next_h a =
     (if key \<noteq> ap_key a \<or> ap_key a = '''' then (refuse 401 ''invalid api key'', a) else next_h a)"

text \<open>The server a bearer token names, or the status to refuse with.\<close>

definition bearerServer :: "string \<Rightarrow> 'v api \<Rightarrow> (nat + server) \<times> 'v api" where
  "bearerServer authorization a =
     (case CutPrefix authorization ''Bearer '' of
        None \<Rightarrow> (Inl 401, a)
      | Some tok \<Rightarrow>
          if tok = '''' then (Inl 401, a)
          else (case call (ServerByToken tok) a of
              (Inl e, a') \<Rightarrow> (Inl (if e = ErrNotFound then 401 else 500), a')
            | (Inr srv, a') \<Rightarrow> (Inr srv, a')))"

definition allowPush :: "int \<Rightarrow> int \<Rightarrow> 'v api \<Rightarrow> bool \<times> 'v api" where
  "allowPush serverID now a =
     (case map_of (ap_lastPush a) serverID of
        Some prev \<Rightarrow>
          if time_sub now prev < minPushGap then (False, a)
          else (True, a\<lparr>ap_lastPush := AList.update serverID now (ap_lastPush a)\<rparr>)
      | None \<Rightarrow> (True, a\<lparr>ap_lastPush := AList.update serverID now (ap_lastPush a)\<rparr>))"

section \<open>Laws of the guards\<close>

lemma call_live [simp]: "ap_live (snd (call m a)) = ap_live a"
  by (simp add: call_def split: prod.split)

lemma call_fields:
  assumes "call m a = (r, a')"
  shows "m (ap_db a) = (r, ap_db a')" and "a' = a\<lparr>ap_db := ap_db a'\<rparr>"
  using assms by (auto simp: call_def split: prod.splits)

lemma call_ServerByID:
  assumes "call (ServerByID i) a = (Inr srv, a')"
  shows "srv \<in> set (servers (ap_db a))" "srv_ID srv = i"
proof -
  have "find (\<lambda>s. srv_ID s = i) (servers (ap_db a)) = Some srv"
    using call_fields(1) [OF assms] by (auto simp: ServerByID_def dest: select_server_Inr(1))
  then show "srv \<in> set (servers (ap_db a))" "srv_ID srv = i" by (auto dest: find_Some_mem)
qed

lemma call_eq: "m (ap_db a) = (r, d) \<Longrightarrow> call m a = (r, a\<lparr>ap_db := d\<rparr>)"
  by (simp add: call_def)

lemma call_tables:
  assumes "call m a = (r, a')" "read_only m"
  shows "tables (ap_db a') = tables (ap_db a)" "ap_live a' = ap_live a" "servers (ap_db a') = servers (ap_db a)"
proof -
  note f = call_fields [OF assms(1)]
  show t: "tables (ap_db a') = tables (ap_db a)" by (rule read_onlyD [OF assms(2) f(1)])
  show "ap_live a' = ap_live a" by (subst f(2)) simp
  show "servers (ap_db a') = servers (ap_db a)" by (rule tables_eqD [OF t])
qed

lemma read_only_select: "read_only (select_server P)"
  unfolding select_server_def by (intro read_only_rules) (simp add: read_only_rules split: option.split)

lemma live_same: "a' = a\<lparr>ap_db := d\<rparr> \<Longrightarrow> ap_live a' = ap_live a"
  by simp


lemma bearerServer_Inr:
  assumes "bearerServer auth a = (Inr srv, a')"
  shows "\<exists>tok. auth = ''Bearer '' @ tok \<and> tok \<noteq> '''' \<and> srv_Token srv = tok \<and> srv \<in> set (servers (ap_db a))"
    and "tables (ap_db a') = tables (ap_db a)" and "a' = a\<lparr>ap_db := ap_db a'\<rparr>"
proof -
  from assms obtain tok where t: "CutPrefix auth ''Bearer '' = Some tok" "tok \<noteq> ''''"
    and c: "call (ServerByToken tok) a = (Inr srv, a')"
    by (auto simp: bearerServer_def split: option.splits if_splits prod.splits sum.splits)
  from call_fields [OF c] have s: "ServerByToken tok (ap_db a) = (Inr srv, ap_db a')"
    and "a' = a\<lparr>ap_db := ap_db a'\<rparr>" by auto
  then show "a' = a\<lparr>ap_db := ap_db a'\<rparr>" by simp
  from select_server_Inr [OF s [unfolded ServerByToken_def]]
  show "tables (ap_db a') = tables (ap_db a)" by simp
  from select_server_Inr(1) [OF s [unfolded ServerByToken_def]] t
  show "\<exists>tok. auth = ''Bearer '' @ tok \<and> tok \<noteq> '''' \<and> srv_Token srv = tok \<and> srv \<in> set (servers (ap_db a))"
    by (auto simp: CutPrefix_Some find_Some_iff)
qed

lemma bearerServer_Inl:
  assumes "bearerServer auth a = (Inl st, a')"
  shows "st \<in> {401, 500} \<and> tables (ap_db a') = tables (ap_db a) \<and> a' = a\<lparr>ap_db := ap_db a'\<rparr>"
proof (cases "CutPrefix auth ''Bearer ''")
  case None
  with assms show ?thesis by (auto simp: bearerServer_def)
next
  case (Some tok)
  show ?thesis
  proof (cases "tok = ''''")
    case True
    with Some assms show ?thesis by (auto simp: bearerServer_def)
  next
    case False
    then obtain e where c: "call (ServerByToken tok) a = (Inl e, a')" and "st = (if e = ErrNotFound then 401 else 500)"
      using Some assms by (auto simp: bearerServer_def split: prod.splits sum.splits)
    with call_fields [OF c] select_server_Inl(1) [of _ "ap_db a"] show ?thesis
      by (auto simp: ServerByToken_def)
  qed
qed

text \<open>The mother's rate limiter meets the throttle's contract, per server.\<close>

interpretation push_throttle: throttle minPushGap "\<lambda>a. map_of (ap_lastPush a) serverID" "\<lambda>now. now" "\<lambda>now. True"
  "allowPush serverID"
  by unfold_locales
    (auto simp: minPushGap_def allowPush_def map_of_update split: option.splits if_splits)

lemma allowPush_other: "sid \<noteq> serverID \<Longrightarrow>
    map_of (ap_lastPush (snd (allowPush serverID now a))) sid = map_of (ap_lastPush a) sid"
  by (auto simp: allowPush_def map_of_update split: option.splits)

lemma allowPush_fields [simp]:
  "ap_db (snd (allowPush i now a)) = ap_db a" "ap_live (snd (allowPush i now a)) = ap_live a"
  "ap_key (snd (allowPush i now a)) = ap_key a" "ap_releases (snd (allowPush i now a)) = ap_releases a"
  by (auto simp: allowPush_def split: option.splits)

section \<open>Properties\<close>

text \<open>
  The push rate limit: however pushes of one server arrive, any two the mother admits are
  at least two seconds apart, a span of time admits at most one per two seconds of it (plus
  one), and a push of one server never uses up another's slot.
\<close>

theorem pushes_spaced:
  assumes "\<forall>now \<in> set nows. from \<le> now \<and> now \<le> to" and "from \<le> to"
  shows "successively (\<lambda>t u. 2 * Second \<le> u - t) (push_throttle.admitted serverID nows a) \<and>
    int (length (push_throttle.admitted serverID nows a)) \<le> (to - from) div (2 * Second) + 1 \<and>
    (sid \<noteq> serverID \<longrightarrow> fst (allowPush sid now (snd (allowPush serverID now' a))) = fst (allowPush sid now a))"
proof -
  have "fst (allowPush sid now (snd (allowPush serverID now' a))) = fst (allowPush sid now a)" if "sid \<noteq> serverID"
    using allowPush_other [OF that, of now' a]
    by (simp add: allowPush_def [of sid] del: map_of_eq_Some_iff split: option.split)
  moreover have "0 \<le> (to - from) div (2 * Second)"
    using assms(2) by (intro pos_imp_zdiv_nonneg_iff [THEN iffD2]) simp_all
  ultimately show ?thesis
    using push_throttle.admitted_spaced [of nows serverID a]
      push_throttle.admitted_bounded [OF _ assms(1), of serverID a]
    by (auto simp: minPushGap_def split: if_splits)
qed

theorem pushes_spaced_witness:
  "int (length (push_throttle.admitted 1 [0, Second, 3 * Second] (New (empty_db :: int db) ''k'' NewCache))) \<le> 2"
  using pushes_spaced [of "[0, Second, 3 * Second]" 0 "3 * Second" 1 "New (empty_db :: int db) ''k'' NewCache"]
  by simp

end
