(* ===== verification/Protocol.thy ===== *)
theory Protocol
  imports Prelude
begin

text \<open>
  The wire contract between agent and mother: \<open>shared/protocol/protocol.go\<close>. The sample map
  is an association list with distinct names.
\<close>

record 'v ingest_request =
  iq_Server :: string
  iq_AgentVersion :: string
  iq_Hostname :: string
  iq_IP :: string
  iq_OS :: string
  iq_Arch :: string
  iq_Capabilities :: "string list"
  iq_UpdateError :: string
  iq_UninstallError :: string
  iq_Samples :: "(string \<times> 'v) list"

record ingest_response =
  ir_Collectors :: "string list"
  ir_Interval :: int
  ir_DesiredVersion :: string
  ir_Uninstall :: bool

end
