(* ===== verification/API_Ingest.thy ===== *)
theory API_Ingest
  imports API_Base Protocol
begin

text \<open>
  An agent's push: \<open>mother/api/ingest.go\<close>. The handler's three ranges over the sample map and
  the clock readings it takes are arguments. The lemmas say what a push may write: nothing when
  it is refused, and otherwise exactly its samples into both tiers and the live tail.
\<close>

section \<open>Validation\<close>

definition maxSamplesPerPush :: nat where "maxSamplesPerPush = 256"
definition maxMetricNameLen :: nat where "maxMetricNameLen = 64"

definition metric_char :: "char \<Rightarrow> bool" where
  "metric_char c \<longleftrightarrow> is_lower c \<or> is_digit c \<or> c = CHR ''_''"

text \<open>
  The expression \<open>^[a-z][a-z0-9_]*(\.[a-z0-9_]+)*$\<close>, segment by segment: the first starts with
  a letter, none is empty.
\<close>

definition metricName :: "string \<Rightarrow> bool" where
  "metricName s \<longleftrightarrow>
     (case s of [] \<Rightarrow> False | c # cs \<Rightarrow> is_lower c) \<and>
     list_all (\<lambda>seg. seg \<noteq> [] \<and> list_all metric_char seg) (Split s CHR ''.'')"

text \<open>The first unacceptable key of the range, or the empty string.\<close>

definition invalidMetric :: "(string \<times> 'v) list \<Rightarrow> string" where
  "invalidMetric samples =
     (case find (\<lambda>(k, v). length k > maxMetricNameLen \<or> \<not> metricName k) samples of
        None \<Rightarrow> '''' | Some (k, v) \<Rightarrow> k)"

section \<open>The handler\<close>

record 'v push_env =
  pe_check :: "(string \<times> 'v) list \<Rightarrow> (string \<times> 'v) list"
  pe_rollup :: "(string \<times> 'v) list \<Rightarrow> (string \<times> 'v) list"
  pe_live :: "(string \<times> 'v) list \<Rightarrow> (string \<times> 'v) list"
  pe_gate_at :: int
  pe_now :: int
  pe_live_at :: int

definition heartbeat_of :: "'v ingest_request \<Rightarrow> heartbeat" where
  "heartbeat_of req = \<lparr>hb_AgentVersion = iq_AgentVersion req, hb_Hostname = iq_Hostname req,
     hb_IP = iq_IP req, hb_OS = iq_OS req, hb_Arch = iq_Arch req,
     hb_UpdateError = iq_UpdateError req, hb_UninstallError = iq_UninstallError req\<rparr>"

text \<open>The strictly-newer guard with the two destinations of a push.\<close>

definition fold_in ::
  "'v push_env \<Rightarrow> server \<Rightarrow> (string \<times> 'v::{linorder,plus}) list \<Rightarrow> 'v api \<Rightarrow> bool \<times> 'v api" where
  "fold_in env srv samples a =
     (let now = unix (pe_now env) in
      if now > srv_LastPush srv then
        (case call (ApplySamples (srv_ID srv) now (pe_rollup env samples)) a of
           (Inl e, a') \<Rightarrow> (False, a')
         | (Inr u, a') \<Rightarrow>
             (True, a'\<lparr>ap_live := live_Add (pe_live_at env) (srv_ID srv) now (pe_live env samples) (ap_live a')\<rparr>))
      else (True, a))"

definition handleIngest ::
  "'v push_env \<Rightarrow> string \<Rightarrow> 'v::{linorder,plus} ingest_request option \<Rightarrow> 'v api
     \<Rightarrow> ingest_response response \<times> 'v api" where
  "handleIngest env authorization body a =
     (case bearerServer authorization a of
        (Inl st, a1) \<Rightarrow> (refuse st (if st = 500 then ''storage failure'' else ''unauthorized''), a1)
      | (Inr srv, a1) \<Rightarrow>
          (case body of
             None \<Rightarrow> (refuse 400 ''malformed payload'', a1)
           | Some req \<Rightarrow>
               if length (iq_Samples req) > maxSamplesPerPush then (refuse 400 ''too many samples'', a1)
               else (case allowPush (srv_ID srv) (pe_gate_at env) a1 of
                   (False, a2) \<Rightarrow> (refuse 429 ''pushing too fast'', a2)
                 | (True, a2) \<Rightarrow>
                     if invalidMetric (pe_check env (iq_Samples req)) \<noteq> ''''
                     then (refuse 400 ''invalid metric name'', a2)
                     else (case fold_in env srv (iq_Samples req) a2 of
                         (False, a3) \<Rightarrow> (storage_failure, a3)
                       | (True, a3) \<Rightarrow>
                           let (r4, a4) = call (TouchServer (srv_ID srv) (heartbeat_of req) (unix (pe_now env))) a3;
                               (r5, a5) = call (SetCapabilities (srv_ID srv) (iq_Capabilities req)) a4
                           in (case call GetSettings a5 of
                                 (Inl e, a6) \<Rightarrow> (storage_failure, a6)
                               | (Inr settings, a6) \<Rightarrow>
                                   (answer 200 \<lparr>ir_Collectors = srv_Collectors srv, ir_Interval = Interval settings,
                                      ir_DesiredVersion = srv_DesiredVersion srv,
                                      ir_Uninstall = (srv_UninstallRequestedAt srv \<noteq> 0)\<rparr>, a6))))))"

section \<open>Effects\<close>

lemma TouchServer_tiers: "tiers_of log (snd (TouchServer i hb t d)) = tiers_of log d"
  using touch_server.outcome_of [of rollup_1m i hb t d, OF tables_sel(2)]
    touch_server.outcome_of [of rollup_1h i hb t d, OF tables_sel(3)]
  by (auto simp: tiers_of_def upd_server_def)

lemma SetCapabilities_tiers: "tiers_of log (snd (SetCapabilities i cs d)) = tiers_of log d"
  using set_capabilities.outcome_of [of rollup_1m i cs d, OF tables_sel(2)]
    set_capabilities.outcome_of [of rollup_1h i cs d, OF tables_sel(3)]
  by (auto simp: tiers_of_def upd_server_def split: if_splits)

lemma tiers_of_tables: "tables d = tables d' \<Longrightarrow> tiers_of log d = tiers_of log d'"
  by (simp add: tiers_of_def tables_eq_iff)

lemma GetSettings_tiers: "tiers_of log (snd (GetSettings d)) = tiers_of log d"
  using read_onlyD [OF read_only_GetSettings, of d] by (intro tiers_of_tables) (metis prod.collapse)

text \<open>What a push folds in, on success and on a storage failure.\<close>

lemma fold_in_effect:
  assumes "fold_in env srv samples a = (ok, a')" and "tiers_of log (ap_db a)"
  shows "if ok \<and> srv_LastPush srv < unix (pe_now env)
    then tiers_of (log @ raws (srv_ID srv) (unix (pe_now env)) (pe_rollup env samples)) (ap_db a') \<and>
      ap_live a' = live_Add (pe_live_at env) (srv_ID srv) (unix (pe_now env)) (pe_live env samples) (ap_live a)
    else tiers_of log (ap_db a') \<and> ap_live a' = ap_live a"
proof (cases "srv_LastPush srv < unix (pe_now env)")
  case True
  obtain r a1 where c: "call (ApplySamples (srv_ID srv) (unix (pe_now env)) (pe_rollup env samples)) a = (r, a1)"
    by fastforce
  note d = call_fields [OF c]
  have live: "ap_live a1 = ap_live a" by (subst d(2)) simp
  show ?thesis
  proof (cases r)
    case (Inl e)
    then have "tables (ap_db a1) = tables (ap_db a)" using d(1) apply_samples.error_keeps by blast
    with assms True c Inl live tiers_of_tables show ?thesis
      by (auto simp: fold_in_def Let_def)
  next
    case (Inr u)
    note e = tables_effect [OF apply_samples.success_effect [OF d(1) [unfolded Inr]]]
    have "tiers_of log (tables (ap_db a))" using assms(2) by (simp add: tiers_of_def)
    from fold_push_tiers_of [OF this] e
    have "tiers_of (log @ raws (srv_ID srv) (unix (pe_now env)) (pe_rollup env samples)) (ap_db a1)"
      by (simp add: tiers_of_def)
    with assms(1) True c Inr live show ?thesis by (auto simp: fold_in_def Let_def)
  qed
qed (use assms in \<open>simp add: fold_in_def Let_def\<close>)

lemma call_tiers:
  "(\<And>d. tiers_of log (snd (m d)) = tiers_of log d) \<Longrightarrow> tiers_of log (ap_db (snd (call m a))) = tiers_of log (ap_db a)"
  by (simp add: call_def split: prod.split) (metis snd_conv)

text \<open>The part of a push after its samples are in: it leaves tiers and live tail alone.\<close>

definition finish_push ::
  "'v push_env \<Rightarrow> server \<Rightarrow> 'v::{linorder,plus} ingest_request \<Rightarrow> 'v api \<Rightarrow> ingest_response response \<times> 'v api" where
  "finish_push env srv req a3 =
     (let (r4, a4) = call (TouchServer (srv_ID srv) (heartbeat_of req) (unix (pe_now env))) a3;
          (r5, a5) = call (SetCapabilities (srv_ID srv) (iq_Capabilities req)) a4
      in (case call GetSettings a5 of
            (Inl e, a6) \<Rightarrow> (storage_failure, a6)
          | (Inr settings, a6) \<Rightarrow>
              (answer 200 \<lparr>ir_Collectors = srv_Collectors srv, ir_Interval = Interval settings,
                 ir_DesiredVersion = srv_DesiredVersion srv,
                 ir_Uninstall = (srv_UninstallRequestedAt srv \<noteq> 0)\<rparr>, a6)))"

lemma finish_push_keeps:
  "tiers_of log (ap_db (snd (finish_push env srv req a))) = tiers_of log (ap_db a)"
  "ap_live (snd (finish_push env srv req a)) = ap_live a"
  "rs_status (fst (finish_push env srv req a)) \<in> {200, 500}"
proof -
  let ?a4 = "snd (call (TouchServer (srv_ID srv) (heartbeat_of req) (unix (pe_now env))) a)"
  let ?a5 = "snd (call (SetCapabilities (srv_ID srv) (iq_Capabilities req)) ?a4)"
  have snd: "snd (finish_push env srv req a) = snd (call GetSettings ?a5)"
    by (simp add: finish_push_def case_prod_unfold Let_def split: sum.split)
  show "tiers_of log (ap_db (snd (finish_push env srv req a))) = tiers_of log (ap_db a)"
    unfolding snd
    by (simp add: call_tiers [of log GetSettings, OF GetSettings_tiers]
        call_tiers [of log "SetCapabilities i cs" for i cs, OF SetCapabilities_tiers]
        call_tiers [of log "TouchServer i hb t" for i hb t, OF TouchServer_tiers])
  show "ap_live (snd (finish_push env srv req a)) = ap_live a"
    unfolding snd by simp
  show "rs_status (fst (finish_push env srv req a)) \<in> {200, 500}"
    by (simp add: finish_push_def case_prod_unfold Let_def answer_def refuse_def split: sum.split)
qed

text \<open>The handler's decisions, one equation per way it can end.\<close>

lemma handleIngest_cases:
  obtains (refused) st msg a1 where "handleIngest env auth body a = (refuse st msg, a1)" "st \<in> {400, 401, 429, 500}"
      "tables (ap_db a1) = tables (ap_db a)" "ap_live a1 = ap_live a"
  | (failed) srv req a1 a2 a3 where "bearerServer auth a = (Inr srv, a1)" "body = Some req"
      "length (iq_Samples req) \<le> maxSamplesPerPush" "allowPush (srv_ID srv) (pe_gate_at env) a1 = (True, a2)"
      "invalidMetric (pe_check env (iq_Samples req)) = ''''"
      "fold_in env srv (iq_Samples req) a2 = (False, a3)" "handleIngest env auth body a = (storage_failure, a3)"
  | (finished) srv req a1 a2 a3 where "bearerServer auth a = (Inr srv, a1)" "body = Some req"
      "length (iq_Samples req) \<le> maxSamplesPerPush" "allowPush (srv_ID srv) (pe_gate_at env) a1 = (True, a2)"
      "invalidMetric (pe_check env (iq_Samples req)) = ''''"
      "fold_in env srv (iq_Samples req) a2 = (True, a3)"
      "handleIngest env auth body a = finish_push env srv req a3"
proof -
  obtain r a1 where b: "bearerServer auth a = (r, a1)" by fastforce
  show ?thesis
  proof (cases r)
    case (Inl st)
    from bearerServer_Inl [OF b [unfolded Inl]] show ?thesis
      by (intro refused [of st _ a1]) (use b Inl in \<open>auto simp: handleIngest_def dest: arg_cong [where f = ap_live]\<close>)
  next
    case (Inr srv)
    note auth = bearerServer_Inr(2,3) [OF b [unfolded Inr]]
    have live: "ap_live a1 = ap_live a" by (subst auth(2)) simp
    obtain ok a2 where p: "allowPush (srv_ID srv) (pe_gate_at env) a1 = (ok, a2)" by fastforce
    have a2: "ap_db a2 = ap_db a1" "ap_live a2 = ap_live a1"
      using allowPush_fields(1,2) [of "srv_ID srv" "pe_gate_at env" a1] p by simp_all
    consider "body = None"
      | req where "body = Some req" "length (iq_Samples req) > maxSamplesPerPush"
      | req where "body = Some req" "length (iq_Samples req) \<le> maxSamplesPerPush" "\<not> ok"
      | req where "body = Some req" "length (iq_Samples req) \<le> maxSamplesPerPush" "ok"
          "invalidMetric (pe_check env (iq_Samples req)) \<noteq> ''''"
      | req where "body = Some req" "length (iq_Samples req) \<le> maxSamplesPerPush" "ok"
          "invalidMetric (pe_check env (iq_Samples req)) = ''''"
      by (cases body) force+
    then show ?thesis
    proof cases
      case 1
      then show ?thesis using b Inr auth live by (intro refused [of 400 "''malformed payload''" a1]) (auto simp: handleIngest_def)
    next
      case (2 req)
      then show ?thesis using b Inr auth live by (intro refused [of 400 "''too many samples''" a1]) (auto simp: handleIngest_def)
    next
      case (3 req)
      then show ?thesis using b Inr auth live p a2 by (intro refused [of 429 "''pushing too fast''" a2]) (auto simp: handleIngest_def)
    next
      case (4 req)
      then show ?thesis using b Inr auth live p a2 by (intro refused [of 400 "''invalid metric name''" a2]) (auto simp: handleIngest_def)
    next
      case (5 req)
      obtain ok' a3 where f: "fold_in env srv (iq_Samples req) a2 = (ok', a3)" by fastforce
      show ?thesis
      proof (cases ok')
        case True
        with 5 b Inr p f show ?thesis
          by (intro finished [of srv a1 req a2 a3]) (auto simp: handleIngest_def finish_push_def)
      next
        case False
        with 5 b Inr p f show ?thesis
          by (intro failed [of srv a1 req a2 a3]) (auto simp: handleIngest_def)
      qed
    qed
  qed
qed

section \<open>Properties\<close>

text \<open>
  C1. What a push may write: a push answered 400, 401 or 429 leaves every table and the live
  tail as they were; any other answer means an authenticated server sent at most 256 samples,
  and the tiers are then those of the log of raw samples before, extended by this push's samples
  at most once, and only if the push is strictly newer than the last one recorded for the
  server; the live tail gets the same samples in exactly the same cases.
\<close>

theorem handleIngest_writes:
  assumes run: "handleIngest env auth body a = (resp, a')" and log: "tiers_of log (ap_db a)"
  shows "(rs_status resp \<in> {400, 401, 429} \<longrightarrow> tables (ap_db a') = tables (ap_db a) \<and> ap_live a' = ap_live a) \<and>
    (tiers_of log (ap_db a') \<and> ap_live a' = ap_live a \<or>
     (\<exists>srv req. srv \<in> set (servers (ap_db a)) \<and> auth = ''Bearer '' @ srv_Token srv \<and> body = Some req \<and>
        length (iq_Samples req) \<le> 256 \<and> srv_LastPush srv < unix (pe_now env) \<and>
        tiers_of (log @ raws (srv_ID srv) (unix (pe_now env)) (pe_rollup env (iq_Samples req))) (ap_db a') \<and>
        ap_live a' = live_Add (pe_live_at env) (srv_ID srv) (unix (pe_now env)) (pe_live env (iq_Samples req)) (ap_live a)))"
proof (cases rule: handleIngest_cases [of env auth body a])
  case (refused st msg a1)
  with run tiers_of_tables [of "ap_db a1" "ap_db a" log] log show ?thesis by auto
next
  case (failed srv req a1 a2 a3)
  note auth = bearerServer_Inr [OF failed(1)]
  have a2: "ap_db a2 = ap_db a1" "ap_live a2 = ap_live a1"
    using allowPush_fields(1,2) [of "srv_ID srv" "pe_gate_at env" a1] failed(4) by simp_all
  have live: "ap_live a1 = ap_live a" by (subst auth(3)) simp
  have "tiers_of log (ap_db a2)" using log tiers_of_tables [OF auth(2)] a2 by simp
  from fold_in_effect [OF failed(6) this] live a2 failed(7) run show ?thesis
    by (auto simp: refuse_def)
next
  case (finished srv req a1 a2 a3)
  note auth = bearerServer_Inr [OF finished(1)]
  have a2: "ap_db a2 = ap_db a1" "ap_live a2 = ap_live a1"
    using allowPush_fields(1,2) [of "srv_ID srv" "pe_gate_at env" a1] finished(4) by simp_all
  have live: "ap_live a1 = ap_live a" by (subst auth(3)) simp
  have "tiers_of log (ap_db a2)" using log tiers_of_tables [OF auth(2)] a2 by simp
  note eff = fold_in_effect [OF finished(6) this]
  have fin: "tiers_of l (ap_db a') = tiers_of l (ap_db a3)" "ap_live a' = ap_live a3" "rs_status resp \<in> {200, 500}" for l
    using finish_push_keeps(1) [of l env srv req a3] finish_push_keeps(2,3) [of env srv req a3]
      run finished(7) by auto
  show ?thesis
  proof (cases "srv_LastPush srv < unix (pe_now env)")
    case True
    from auth(1) have "srv \<in> set (servers (ap_db a)) \<and> auth = ''Bearer '' @ srv_Token srv" by auto
    with eff True fin finished(2,3) live a2 show ?thesis
      by (auto simp: maxSamplesPerPush_def)
  next
    case False
    with eff fin live a2 show ?thesis by auto
  qed
qed

definition sample_request :: "int ingest_request" where
  "sample_request = \<lparr>iq_Server = ''web'', iq_AgentVersion = ''v1'', iq_Hostname = '''', iq_IP = '''', iq_OS = '''',
     iq_Arch = '''', iq_Capabilities = [], iq_UpdateError = '''', iq_UninstallError = '''',
     iq_Samples = [(''cpu.load'', 3)]\<rparr>"

definition sample_env :: "int push_env" where
  "sample_env = \<lparr>pe_check = (\<lambda>xs. xs), pe_rollup = (\<lambda>xs. xs), pe_live = (\<lambda>xs. xs),
     pe_gate_at = 100 * Second, pe_now = 100 * Second, pe_live_at = 100 * Second\<rparr>"

definition sample_api :: "int api" where
  "sample_api = New (empty_db\<lparr>servers := [(new_server ''web'' ''tk'' 0)\<lparr>srv_ID := 1\<rparr>]\<rparr>) ''key'' NewCache"

theorem handleIngest_writes_witness:
  "tiers_of [] (ap_db (snd (handleIngest sample_env ''Bearer tk'' (Some sample_request) sample_api))) \<or>
   tiers_of (raws 1 100 [(''cpu.load'', 3)])
     (ap_db (snd (handleIngest sample_env ''Bearer tk'' (Some sample_request) sample_api)))"
proof -
  have log: "tiers_of [] (ap_db sample_api)"
    by (simp add: tiers_of_def tier_of_log_def sample_api_def New_def empty_db_def)
  have srv: "servers (ap_db sample_api) = [(new_server ''web'' ''tk'' 0)\<lparr>srv_ID := 1\<rparr>]"
    by (simp add: sample_api_def New_def)
  show ?thesis
    using handleIngest_writes [OF surjective_pairing log, of sample_env "''Bearer tk''" "Some sample_request"]
    by (auto simp: srv sample_env_def sample_request_def new_server_def unix_def)
qed

lemma call_healthy:
  assumes "m (ap_db a) = (r, d)"
  shows "call m a = (r, a\<lparr>ap_db := d\<rparr>)"
  using assms by (rule call_eq)

lemma ApplySamples_healthy:
  assumes "healthy d"
  shows "ApplySamples sid ts xs d = (Inr (), fold_push sid ts xs d)"
  using assms
  by (simp add: ApplySamples_def ret_def in_tx_def bnd_def on_error_def modify_def exec_def take_fault_def
      healthy_def fold_push_steps) (simp add: upsert_1m_def upsert_1h_def take_fault_def)

lemma TouchServer_healthy: "healthy d \<Longrightarrow> TouchServer i hb t d = (Inr (), upd_server i (touch hb t) d)"
  by (simp add: TouchServer_def)

lemma SetCapabilities_healthy:
  "healthy d \<Longrightarrow> SetCapabilities i cs d =
     (Inr (), if cs = [] then d else upd_server i (\<lambda>s. s\<lparr>srv_Capabilities := cs\<rparr>) d)"
  by (simp add: SetCapabilities_def ret_def)

lemma ServerByToken_healthy:
  "healthy d \<Longrightarrow> ServerByToken tok d =
     ((case find (\<lambda>s. srv_Token s = tok) (servers d) of None \<Rightarrow> Inl ErrNotFound | Some s \<Rightarrow> Inr s), d)"
  by (simp add: ServerByToken_def select_server_def bnd_def ret_def fail_def split: option.split)

lemma healthy_upd [simp]:
  "healthy (upd_server i f d) = healthy d" "healthy (fold_push sid ts xs d) = healthy d"
  by (simp_all add: healthy_def upd_server_def fold_push_def)

text \<open>The tables after a push that was taken, and the row of its server.\<close>

definition row_pushed :: "'v push_env \<Rightarrow> 'v ingest_request \<Rightarrow> server \<Rightarrow> server" where
  "row_pushed env req s =
     (let s2 = touch (heartbeat_of req) (unix (pe_now env)) s in
      if iq_Capabilities req = [] then s2 else s2\<lparr>srv_Capabilities := iq_Capabilities req\<rparr>)"

definition pushed_db :: "'v push_env \<Rightarrow> int \<Rightarrow> 'v::{linorder,plus} ingest_request \<Rightarrow> 'v db \<Rightarrow> 'v db" where
  "pushed_db env i req d =
     upd_server i (row_pushed env req) (fold_push i (unix (pe_now env)) (pe_rollup env (iq_Samples req)) d)"

lemma row_pushed_fields [simp]:
  "srv_ID (row_pushed env req s) = srv_ID s" "srv_Token (row_pushed env req s) = srv_Token s"
  "srv_LastPush (row_pushed env req s) = unix (pe_now env)" "srv_DesiredVersion (row_pushed env req s) = srv_DesiredVersion s"
  "srv_AgentVersion (row_pushed env req s) = iq_AgentVersion req" "srv_UpdateError (row_pushed env req s) = iq_UpdateError req"
  "srv_UninstallError (row_pushed env req s) = iq_UninstallError req" "srv_Collectors (row_pushed env req s) = srv_Collectors s"
  "srv_UninstallRequestedAt (row_pushed env req s) = srv_UninstallRequestedAt s"
  by (simp_all add: row_pushed_def Let_def touch_def heartbeat_of_def)

lemma pushed_db_fields [simp]:
  "healthy (pushed_db env i req d) = healthy d" "settings_tab (pushed_db env i req d) = settings_tab d"
  "tiers_of log (pushed_db env i req d) = tiers_of log (fold_push i (unix (pe_now env)) (pe_rollup env (iq_Samples req)) d)"
  by (simp_all add: pushed_db_def fold_push_def upd_server_def healthy_def tiers_of_def)

lemma pushed_db_servers:
  "servers (pushed_db env i req d) = map (\<lambda>s. if srv_ID s = i then row_pushed env req s else s) (servers d)"
  by (simp add: pushed_db_def upd_server_def fold_push_def)

lemma find_pushed:
  assumes "find (\<lambda>s. srv_Token s = tok) (servers d) = Some srv"
  shows "find (\<lambda>s. srv_Token s = tok) (servers (pushed_db env (srv_ID srv) req d)) = Some (row_pushed env req srv)"
proof -
  have "find (\<lambda>s. srv_Token s = tok) (map (\<lambda>s. if srv_ID s = i then row_pushed env req s else s) ss) =
      map_option (\<lambda>s. if srv_ID s = i then row_pushed env req s else s) (find (\<lambda>s. srv_Token s = tok) ss)" for i ss
    by (induction ss) auto
  then show ?thesis by (simp add: pushed_db_servers assms)
qed

lemma upd_server_twice:
  "(\<And>s. srv_ID (f s) = srv_ID s) \<Longrightarrow> upd_server i g (upd_server i f d) = upd_server i (\<lambda>s. g (f s)) d"
  by (simp add: upd_server_def comp_def if_distrib cong: if_cong)

lemma bearer_known:
  assumes "healthy (ap_db a)" "find (\<lambda>s. srv_Token s = tok) (servers (ap_db a)) = Some srv" "tok \<noteq> ''''"
  shows "bearerServer (''Bearer '' @ tok) a = (Inr srv, a)"
  using assms(2,3) by (simp add: bearerServer_def CutPrefix_append [unfolded append_Cons append_Nil] call_def
      ServerByToken_healthy [OF assms(1)] CutPrefix_def HasPrefix_def)

text \<open>A push on a working mother, to its end.\<close>

lemma handleIngest_run:
  assumes up: "healthy (ap_db a)" and tok: "find (\<lambda>s. srv_Token s = tok) (servers (ap_db a)) = Some srv" "tok \<noteq> ''''"
    and set: "scan_settings defaultSettings (settings_tab (ap_db a)) = Inr cfg"
    and gate: "\<forall>t. map_of (ap_lastPush a) (srv_ID srv) = Some t \<longrightarrow> 2 * Second \<le> pe_gate_at env - t"
    and few: "length (iq_Samples req) \<le> 256" and names: "invalidMetric (pe_check env (iq_Samples req)) = ''''"
    and new: "srv_LastPush srv < unix (pe_now env)"
  shows "\<exists>a'. handleIngest env (''Bearer '' @ tok) (Some req) a =
      (answer 200 \<lparr>ir_Collectors = srv_Collectors srv, ir_Interval = Interval cfg,
         ir_DesiredVersion = srv_DesiredVersion srv, ir_Uninstall = (srv_UninstallRequestedAt srv \<noteq> 0)\<rparr>, a') \<and>
    ap_db a' = pushed_db env (srv_ID srv) req (ap_db a) \<and> ap_releases a' = ap_releases a"
proof -
  let ?d = "ap_db a" and ?now = "unix (pe_now env)" and ?i = "srv_ID srv"
  let ?d1 = "fold_push ?i ?now (pe_rollup env (iq_Samples req)) ?d"
  obtain a2 where gate': "allowPush ?i (pe_gate_at env) a = (True, a2)"
    using gate by (cases "map_of (ap_lastPush a) ?i")
      (simp_all add: allowPush_def minPushGap_def time_sub_less not_less del: map_of_eq_Some_iff)
  then have a2: "ap_db a2 = ?d" "ap_releases a2 = ap_releases a"
    using allowPush_fields(1,4) [of ?i "pe_gate_at env" a] by simp_all
  obtain a3 where f: "fold_in env srv (iq_Samples req) a2 = (True, a3)" and a3: "ap_db a3 = ?d1" "ap_releases a3 = ap_releases a"
    using new a2(2) by (simp add: fold_in_def Let_def call_def a2(1) ApplySamples_healthy [OF up])
  have touched: "srv_ID (touch hb t s) = srv_ID s" for hb t s by (simp add: touch_def)
  have "(if iq_Capabilities req = [] then upd_server ?i (touch (heartbeat_of req) ?now) ?d1
      else upd_server ?i (\<lambda>s. s\<lparr>srv_Capabilities := iq_Capabilities req\<rparr>) (upd_server ?i (touch (heartbeat_of req) ?now) ?d1)) =
      pushed_db env ?i req ?d"
    by (simp add: upd_server_twice [OF touched] pushed_db_def row_pushed_def [abs_def] Let_def)
  then have "finish_push env srv req a3 = (answer 200 \<lparr>ir_Collectors = srv_Collectors srv, ir_Interval = Interval cfg,
         ir_DesiredVersion = srv_DesiredVersion srv, ir_Uninstall = (srv_UninstallRequestedAt srv \<noteq> 0)\<rparr>,
         a3\<lparr>ap_db := pushed_db env ?i req ?d\<rparr>)"
    using up set by (simp add: finish_push_def call_def a3 TouchServer_healthy SetCapabilities_healthy GetSettings_healthy)
  moreover have "handleIngest env (''Bearer '' @ tok) (Some req) a = finish_push env srv req a3"
    using bearer_known [OF up tok] gate' few names f
    by (simp add: handleIngest_def finish_push_def maxSamplesPerPush_def)
  ultimately show ?thesis using a3(2) by simp
qed

text \<open>
  C2. A good push is taken whole: with a working store, for a server the token names, a push
  past the rate limit with valid names and a clock past the last recorded push is answered 200
  with the row's collectors and target and the stored interval; its samples are in both tiers
  and its time, version and errors are on the row.
\<close>

theorem handleIngest_accepts:
  assumes up: "healthy (ap_db a)" and tok: "find (\<lambda>s. srv_Token s = tok) (servers (ap_db a)) = Some srv" "tok \<noteq> ''''"
    and set: "scan_settings defaultSettings (settings_tab (ap_db a)) = Inr cfg"
    and gate: "\<forall>t. map_of (ap_lastPush a) (srv_ID srv) = Some t \<longrightarrow> 2 * Second \<le> pe_gate_at env - t"
    and few: "length (iq_Samples req) \<le> 256" and names: "invalidMetric (pe_check env (iq_Samples req)) = ''''"
    and new: "srv_LastPush srv < unix (pe_now env)" and log: "tiers_of log (ap_db a)"
  shows "\<exists>a'. handleIngest env (''Bearer '' @ tok) (Some req) a =
      (answer 200 \<lparr>ir_Collectors = srv_Collectors srv, ir_Interval = Interval cfg,
         ir_DesiredVersion = srv_DesiredVersion srv, ir_Uninstall = (srv_UninstallRequestedAt srv \<noteq> 0)\<rparr>, a') \<and>
    tiers_of (log @ raws (srv_ID srv) (unix (pe_now env)) (pe_rollup env (iq_Samples req))) (ap_db a') \<and>
    (\<exists>s' \<in> set (servers (ap_db a')). srv_ID s' = srv_ID srv \<and> srv_LastPush s' = unix (pe_now env) \<and>
       srv_AgentVersion s' = iq_AgentVersion req \<and> srv_UpdateError s' = iq_UpdateError req \<and>
       srv_UninstallError s' = iq_UninstallError req \<and> srv_DesiredVersion s' = srv_DesiredVersion srv)"
proof -
  from handleIngest_run [OF up tok set gate few names new] obtain a' where
    run: "handleIngest env (''Bearer '' @ tok) (Some req) a =
      (answer 200 \<lparr>ir_Collectors = srv_Collectors srv, ir_Interval = Interval cfg,
         ir_DesiredVersion = srv_DesiredVersion srv, ir_Uninstall = (srv_UninstallRequestedAt srv \<noteq> 0)\<rparr>, a')"
    and a': "ap_db a' = pushed_db env (srv_ID srv) req (ap_db a)" by blast
  have "row_pushed env req srv \<in> set (servers (ap_db a'))"
    using find_pushed [OF tok(1), of env req] a' find_Some_mem by fastforce
  moreover have "tiers_of (log @ raws (srv_ID srv) (unix (pe_now env)) (pe_rollup env (iq_Samples req))) (ap_db a')"
    using fold_push_tiers_of [OF log] by (simp add: a')
  ultimately show ?thesis
    unfolding run by (intro exI [of _ a'] conjI refl bexI [of _ "row_pushed env req srv"]) simp_all
qed

theorem handleIngest_accepts_witness:
  "rs_status (fst (handleIngest sample_env ''Bearer tk'' (Some sample_request) sample_api)) = 200"
proof -
  have names: "invalidMetric [(''cpu.load'', 3 :: int)] = ''''" by code_simp
  have "\<exists>a'. handleIngest sample_env (''Bearer '' @ ''tk'') (Some sample_request) sample_api =
      (answer 200 \<lparr>ir_Collectors = srv_Collectors ((new_server ''web'' ''tk'' 0)\<lparr>srv_ID := 1\<rparr>), ir_Interval = Interval defaultSettings,
         ir_DesiredVersion = srv_DesiredVersion ((new_server ''web'' ''tk'' 0)\<lparr>srv_ID := 1\<rparr>),
         ir_Uninstall = (srv_UninstallRequestedAt ((new_server ''web'' ''tk'' 0)\<lparr>srv_ID := 1\<rparr>) \<noteq> 0)\<rparr>, a')"
    using handleIngest_accepts [of sample_api "''tk''" "(new_server ''web'' ''tk'' 0)\<lparr>srv_ID := 1\<rparr>" defaultSettings
        sample_env sample_request "[]"] names
    by (simp add: sample_api_def New_def empty_db_def healthy_def new_server_def sample_env_def sample_request_def
        unix_def tiers_of_def tier_of_log_def) blast
  then show ?thesis by (auto simp: answer_def)
qed

text \<open>
  Metric names are checked for every name but one: for names that are not empty the check
  passes exactly the names of at most 64 bytes the pattern accepts; the empty name, which the
  pattern does not accept, is reported as the empty string and so taken for valid.
\<close>

theorem invalidMetric_exact:
  "(list_all (\<lambda>(k, v). k \<noteq> '''') samples \<longrightarrow>
     (invalidMetric samples = '''' \<longleftrightarrow> list_all (\<lambda>(k, v). length k \<le> 64 \<and> metricName k) samples)) \<and>
   \<not> metricName '''' \<and> invalidMetric [('''', v)] = ''''"
proof -
  have "list_all (\<lambda>(k, v). k \<noteq> '''') samples \<Longrightarrow>
     (invalidMetric samples = '''') = list_all (\<lambda>(k, v). length k \<le> 64 \<and> metricName k) samples"
    by (induction samples) (auto simp: invalidMetric_def maxMetricNameLen_def)
  then show ?thesis by (simp add: metricName_def invalidMetric_def)
qed

theorem invalidMetric_exact_witness:
  "invalidMetric [(''cpu.load'', 3 :: int), (''9x'', 4)] \<noteq> ''''"
proof -
  have "\<not> metricName ''9x''" by (simp add: metricName_def is_lower_def between_def byte_def)
  with conjunct1 [OF invalidMetric_exact [of "[(''cpu.load'', 3 :: int), (''9x'', 4)]" 0]] show ?thesis by simp
qed

end
