(* ===== verification/API_Servers.thy ===== *)
theory API_Servers
  imports API_Base
begin

text \<open>
  The fleet: \<open>mother/api/admin.go\<close> and the confirmation of a removal,
  \<open>mother/api/uninstall.go\<close>. Every handler is the whole handler, its early returns in order;
  the admin ones run behind \<open>requireAPIKey\<close>, the confirmation behind the agent's token.
\<close>

section \<open>Views\<close>

record group_ref =
  gref_ID :: int
  gref_Name :: string

record 'v server_view =
  sv_server :: server
  sv_Status :: string
  sv_UpdateState :: string
  sv_Groups :: "group_ref list"
  sv_Latest :: "(string \<times> 'v) list"
  sv_LatestTS :: int

definition updateState :: "server \<Rightarrow> string" where
  "updateState srv =
     (if srv_DesiredVersion srv = '''' \<or> srv_DesiredVersion srv = srv_AgentVersion srv then ''idle''
      else if srv_UpdateError srv \<noteq> '''' then ''failed''
      else ''pending'')"

definition status :: "server \<Rightarrow> settings \<Rightarrow> int \<Rightarrow> string" where
  "status srv s now =
     (if srv_UninstallRequestedAt srv \<noteq> 0 then ''uninstalling''
      else if srv_LastPush srv = 0 then ''pending''
      else if wrap64 (now - srv_LastPush srv) > wrap64 (HeartbeatMissThreshold s * Interval s) then ''down''
      else ''online'')"

section \<open>Reading the fleet\<close>

text \<open>The fleet or one group of it: the rows, or the response that answers instead.\<close>

definition listServers :: "string \<Rightarrow> 'v api \<Rightarrow> ('d response + server list) \<times> 'v api" where
  "listServers raw a =
     (if raw = '''' then
        (case call ListServers a of
           (Inl e, a') \<Rightarrow> (Inl storage_failure, a') | (Inr ss, a') \<Rightarrow> (Inr ss, a'))
      else (case ParseInt raw of
          None \<Rightarrow> (Inl (refuse 400 ''invalid group_id''), a)
        | Some i \<Rightarrow> (case call (ServersInGroup i) a of
            (Inl e, a') \<Rightarrow> (Inl storage_failure, a') | (Inr ss, a') \<Rightarrow> (Inr ss, a'))))"

text \<open>One row of the answer; reading the live tail evicts, so the state is threaded.\<close>

definition view_server ::
  "settings \<Rightarrow> (int \<Rightarrow> group list) \<Rightarrow> int \<Rightarrow> (int \<Rightarrow> int) \<Rightarrow> server \<Rightarrow> 'v live \<Rightarrow> 'v server_view \<times> 'v live" where
  "view_server cfg groups now clock s lv =
     (case Latest (clock (srv_ID s)) (srv_ID s) lv of
        ((latest, ts), lv') \<Rightarrow>
          (\<lparr>sv_server = s, sv_Status = status s cfg now, sv_UpdateState = updateState s,
             sv_Groups = map (\<lambda>g. \<lparr>gref_ID = g_ID g, gref_Name = g_Name g\<rparr>) (groups (srv_ID s)),
             sv_Latest = latest, sv_LatestTS = ts\<rparr>, lv'))"

fun view_servers ::
  "settings \<Rightarrow> (int \<Rightarrow> group list) \<Rightarrow> int \<Rightarrow> (int \<Rightarrow> int) \<Rightarrow> server list \<Rightarrow> 'v live
     \<Rightarrow> 'v server_view list \<times> 'v live" where
  "view_servers cfg groups now clock [] lv = ([], lv)"
| "view_servers cfg groups now clock (s # ss) lv =
     (case view_server cfg groups now clock s lv of (v, lv1) \<Rightarrow>
        case view_servers cfg groups now clock ss lv1 of (vs, lv2) \<Rightarrow> (v # vs, lv2))"

definition handleListServers ::
  "int \<Rightarrow> (int \<Rightarrow> int) \<Rightarrow> string \<Rightarrow> 'v api \<Rightarrow> 'v server_view list response \<times> 'v api" where
  "handleListServers t clock group_id a =
     (case listServers group_id a of
        (Inl resp, a1) \<Rightarrow> (resp, a1)
      | (Inr ss, a1) \<Rightarrow>
          (case call GetSettings a1 of
             (Inl e, a2) \<Rightarrow> (storage_failure, a2)
           | (Inr cfg, a2) \<Rightarrow>
               (case call GroupsByServer a2 of
                  (Inl e, a3) \<Rightarrow> (storage_failure, a3)
                | (Inr groups, a3) \<Rightarrow>
                    (case view_servers cfg groups (unix t) clock ss (ap_live a3) of
                       (vs, lv) \<Rightarrow> (answer 200 vs, a3\<lparr>ap_live := lv\<rparr>)))))"

section \<open>Changing it\<close>

definition InstallCommand :: "string \<Rightarrow> string \<Rightarrow> string" where
  "InstallCommand publicURL token = ''curl -sSL '' @ publicURL @ ''/install/'' @ token @ ''.sh | sudo bash''"

definition installCommand :: "'v api \<Rightarrow> string \<Rightarrow> string" where
  "installCommand a token = InstallCommand (ap_publicURL a) token"

record created =
  cr_ID :: int
  cr_Name :: string
  cr_Token :: string
  cr_Collectors :: "string list"
  cr_install_command :: string

definition handleAddServer ::
  "(int list \<Rightarrow> int) \<Rightarrow> nat list \<Rightarrow> int \<Rightarrow> string option \<Rightarrow> 'v api \<Rightarrow> created response \<times> 'v api" where
  "handleAddServer alloc rnd now body a =
     (case body of
        None \<Rightarrow> (refuse 400 ''name is required'', a)
      | Some name \<Rightarrow>
          if name = '''' then (refuse 400 ''name is required'', a)
          else (case call (AddServer alloc rnd now name) a of
              (Inl ErrInvalidName, a') \<Rightarrow>
                (refuse 400 ''invalid server name: allowed [A-Za-z0-9._-], max 64 chars'', a')
            | (Inl e, a') \<Rightarrow> (refuse 409 ''server name already exists'', a')
            | (Inr srv, a') \<Rightarrow>
                (answer 200 \<lparr>cr_ID = srv_ID srv, cr_Name = srv_Name srv, cr_Token = srv_Token srv,
                   cr_Collectors = srv_Collectors srv,
                   cr_install_command = installCommand a' (srv_Token srv)\<rparr>, a')))"

text \<open>\<open>deleteServer\<close>: the row and everything keyed on the id, in the database and in memory.\<close>

definition deleteServer :: "int \<Rightarrow> 'v api \<Rightarrow> (store_error + unit) \<times> 'v api" where
  "deleteServer i a =
     (case call (DeleteServer i) a of
        (Inl e, a') \<Rightarrow> (Inl e, a')
      | (Inr u, a') \<Rightarrow> (Inr (), a'\<lparr>ap_live := Forget i (ap_live a')\<rparr>))"

definition handleDeleteServer :: "int \<Rightarrow> string \<Rightarrow> string \<Rightarrow> 'v api \<Rightarrow> string response \<times> 'v api" where
  "handleDeleteServer now raw_id force a =
     (case ParseInt raw_id of
        None \<Rightarrow> (refuse 400 ''invalid id'', a)
      | Some i \<Rightarrow>
          (case call (ServerByID i) a of
             (Inl ErrNotFound, a1) \<Rightarrow> (refuse 404 ''server not found'', a1)
           | (Inl e, a1) \<Rightarrow> (storage_failure, a1)
           | (Inr srv, a1) \<Rightarrow>
               if force \<noteq> ''true'' \<and> srv_LastPush srv \<noteq> 0 then
                 (case call (RequestUninstall now i) a1 of
                    (Inl e, a2) \<Rightarrow> (storage_failure, a2)
                  | (Inr u, a2) \<Rightarrow> (answer 200 ''uninstalling'', a2))
               else
                 (case deleteServer i a1 of
                    (Inl e, a2) \<Rightarrow> (storage_failure, a2)
                  | (Inr u, a2) \<Rightarrow> (answer 200 ''deleted'', a2))))"

definition handleSetCollectors :: "string \<Rightarrow> string list option \<Rightarrow> 'v api \<Rightarrow> unit response \<times> 'v api" where
  "handleSetCollectors raw_id body a =
     (case ParseInt raw_id of
        None \<Rightarrow> (refuse 400 ''invalid id'', a)
      | Some i \<Rightarrow>
          (case body of
             None \<Rightarrow> (refuse 400 ''collectors list is required'', a)
           | Some cs \<Rightarrow>
               if length cs = 0 then (refuse 400 ''collectors list is required'', a)
               else (case call (SetCollectors i cs) a of
                   (Inl e, a') \<Rightarrow> (storage_failure, a') | (Inr u, a') \<Rightarrow> (ok_empty, a'))))"

definition handleDeleteHistory :: "string \<Rightarrow> string \<Rightarrow> string \<Rightarrow> 'v api \<Rightarrow> unit response \<times> 'v api" where
  "handleDeleteHistory server_id raw_from raw_to a =
     (if server_id = '''' then (refuse 400 ''server_id is required (0 = all servers)'', a)
      else (case ParseInt server_id of
          None \<Rightarrow> (refuse 400 ''server_id is required (0 = all servers)'', a)
        | Some i \<Rightarrow>
            (case (ParseInt raw_from, ParseInt raw_to) of
               (Some from, Some to) \<Rightarrow>
                 if to < from then (refuse 400 ''from and to are required unix seconds'', a)
                 else (case call (DeleteHistory i from to) a of
                     (Inl e, a') \<Rightarrow> (storage_failure, a') | (Inr u, a') \<Rightarrow> (ok_empty, a'))
             | _ \<Rightarrow> (refuse 400 ''from and to are required unix seconds'', a))))"

definition handleUninstalled :: "string \<Rightarrow> 'v api \<Rightarrow> string response \<times> 'v api" where
  "handleUninstalled authorization a =
     (case bearerServer authorization a of
        (Inl st, a1) \<Rightarrow> (refuse st (if st = 500 then ''storage failure'' else ''unauthorized''), a1)
      | (Inr srv, a1) \<Rightarrow>
          if srv_UninstallRequestedAt srv = 0
          then (refuse 409 ''no uninstall was requested for this server'', a1)
          else (case deleteServer (srv_ID srv) a1 of
              (Inl e, a2) \<Rightarrow> (storage_failure, a2)
            | (Inr u, a2) \<Rightarrow> (answer 200 ''deleted'', a2)))"

section \<open>Lemmas\<close>

text \<open>Nothing that belongs to an id is left, in the database or in the live tail.\<close>

definition gone :: "int \<Rightarrow> 'v api \<Rightarrow> bool" where
  "gone i a \<longleftrightarrow> (\<forall>s \<in> set (servers (ap_db a)). srv_ID s \<noteq> i) \<and>
     (\<forall>((sid, m, w), b) \<in> set (rollup_1m (ap_db a)) \<union> set (rollup_1h (ap_db a)). sid \<noteq> i) \<and>
     (\<forall>(g, sid) \<in> set (group_members (ap_db a)). sid \<noteq> i) \<and> held i (ap_live a) = []"

lemma deleteServer_Inr:
  assumes "deleteServer i a = (Inr u, a')"
  shows "tables (ap_db a') = purge_server i (tables (ap_db a))" "ap_live a' = Forget i (ap_live a)"
    "gone i a'"
proof -
  from assms obtain u' a1 where c: "call (DeleteServer i) a = (Inr u', a1)"
    and a': "a' = a1\<lparr>ap_live := Forget i (ap_live a1)\<rparr>"
    by (auto simp: deleteServer_def split: prod.splits sum.splits)
  note f = call_fields [OF c]
  show t: "tables (ap_db a') = purge_server i (tables (ap_db a))"
    using delete_server.success_effect [OF f(1)] a' by simp
  have "ap_live a1 = ap_live a" by (subst f(2)) simp
  with a' show l: "ap_live a' = Forget i (ap_live a)" by simp
  show "gone i a'"
    using tables_effect [OF t]
    by (auto simp: gone_def l purge_server_def held_def Forget_def map_of_delete)
qed

lemma deleteServer_Inl:
  assumes "deleteServer i a = (Inl e, a')"
  shows "tables (ap_db a') = tables (ap_db a)" "ap_live a' = ap_live a"
proof -
  from assms have c: "call (DeleteServer i) a = (Inl e, a')"
    by (auto simp: deleteServer_def split: prod.splits sum.splits)
  note f = call_fields [OF c]
  show "tables (ap_db a') = tables (ap_db a)" by (rule delete_server.error_keeps [OF f(1)])
  show "ap_live a' = ap_live a" by (subst f(2)) simp
qed

section \<open>Properties\<close>


definition fleet :: "int \<Rightarrow> int \<Rightarrow> int api" where
  "fleet last_push requested = New (empty_db\<lparr>servers := [(new_server ''web'' ''tk'' 0)\<lparr>srv_ID := 1,
     srv_LastPush := last_push, srv_UninstallRequestedAt := requested\<rparr>]\<rparr>) ''key'' NewCache"


lemma request_scheduled:
  assumes q: "call (RequestUninstall now i) a = (Inr u, a')"
    and srv: "srv \<in> set (servers (ap_db a))" "srv_ID srv = i" and now: "unix now \<noteq> 0"
  shows "\<exists>srv' \<in> set (servers (ap_db a')). srv_ID srv' = i \<and> srv_Token srv' = srv_Token srv \<and>
      srv_UninstallRequestedAt srv' \<noteq> 0"
    and "rollup_1m (ap_db a') = rollup_1m (ap_db a)" "rollup_1h (ap_db a') = rollup_1h (ap_db a)"
proof -
  note e = tables_effect [OF request_uninstall.success_effect [OF call_fields(1) [OF q]]]
  let ?f = "\<lambda>s. s\<lparr>srv_UninstallRequestedAt :=
      (if srv_UninstallRequestedAt s = 0 then unix now else srv_UninstallRequestedAt s)\<rparr>"
  have "?f srv \<in> set (servers (ap_db a'))"
    using srv by (auto simp: e(1) upd_server_def)
  then show "\<exists>srv' \<in> set (servers (ap_db a')). srv_ID srv' = i \<and> srv_Token srv' = srv_Token srv \<and>
      srv_UninstallRequestedAt srv' \<noteq> 0"
    using srv(2) now by (intro bexI [of _ "?f srv"]) auto
  show "rollup_1m (ap_db a') = rollup_1m (ap_db a)" "rollup_1h (ap_db a') = rollup_1h (ap_db a)"
    using e(2,3) by (simp_all add: upd_server_def)
qed



text \<open>
  What the panel shows: a server scheduled for removal is uninstalling whatever else is
  true of it; otherwise, with settings in range and a clock at most 2^62, it is pending until
  the first push, and down exactly when more seconds have passed since the last push than the
  miss threshold times the interval.
\<close>

theorem status_meaning:
  assumes "settings_ok s" "0 \<le> now" "now < 2 ^ 62" "0 \<le> srv_LastPush srv" "srv_LastPush srv < 2 ^ 62"
  shows "status srv s now =
    (if srv_UninstallRequestedAt srv \<noteq> 0 then ''uninstalling''
     else if srv_LastPush srv = 0 then ''pending''
     else if srv_LastPush srv + HeartbeatMissThreshold s * Interval s < now then ''down'' else ''online'')"
proof -
  have w: "wrap64 x = x" if "- (2 ^ 62) \<le> x" "x \<le> 2 ^ 62" for x
    using that by (simp add: wrap64_def)
  have "HeartbeatMissThreshold s * Interval s \<le> 100 * 3600"
    using assms(1) by (intro mult_mono) (auto simp: settings_ok_def)
  moreover have "0 \<le> HeartbeatMissThreshold s * Interval s"
    using assms(1) by (auto simp: settings_ok_def)
  ultimately have "0 \<le> HeartbeatMissThreshold s * Interval s" "HeartbeatMissThreshold s * Interval s \<le> 100 * 3600"
    by blast+
  then show ?thesis
    using assms(2-5) by (auto simp: status_def w)
qed

theorem status_meaning_witness:
  "status ((new_server ''a'' ''t'' 0)\<lparr>srv_LastPush := 100\<rparr>) defaultSettings 131 = ''down'' \<and>
   status ((new_server ''a'' ''t'' 0)\<lparr>srv_LastPush := 100\<rparr>) defaultSettings 130 = ''online''"
  using status_meaning [of defaultSettings 131 "(new_server ''a'' ''t'' 0)\<lparr>srv_LastPush := 100\<rparr>"]
    status_meaning [of defaultSettings 130 "(new_server ''a'' ''t'' 0)\<lparr>srv_LastPush := 100\<rparr>"]
  by (simp add: settings_ok_def defaultSettings_def DefaultLiveWindowMinutes_def new_server_def)

end
