(* ===== verification/API_Versions.thy ===== *)
theory API_Versions
  imports API_Base
begin

text \<open>
  Rollout targets: of one server (\<open>mother/api/versions.go\<close>), of the mother itself
  (\<open>mother/api/mother.go\<close>) and of a group, with the group handlers
  (\<open>mother/api/groups.go\<close>). The mother's updater is an option: absent, or whether this
  deployment can update itself and its platform. The running version is an argument.
\<close>

section \<open>Whether a version can be a target\<close>

definition latestAlias :: string where "latestAlias = ''latest''"

definition platform :: "server \<Rightarrow> string" where
  "platform srv = (if srv_OS srv = '''' \<or> srv_Arch srv = '''' then '''' else srv_OS srv @ ''-'' @ srv_Arch srv)"

definition rejectVersion :: "server \<Rightarrow> string \<Rightarrow> build list \<Rightarrow> string" where
  "rejectVersion srv ver builds =
     (if ver = latestAlias then ''latest is a moving alias, not a version; pick a concrete version''
      else (case find (\<lambda>b. bl_Version b = ver) builds of
          None \<Rightarrow> ''version '' @ ver @ '' has not been built on this mother''
        | Some b \<Rightarrow>
            if platform srv = '''' then ''''
            else if platform srv \<in> set (bl_Platforms b) then ''''
            else ''no '' @ ver @ '' build for '' @ platform srv))"

definition rejectMotherVersion :: "string \<Rightarrow> string \<Rightarrow> build list \<Rightarrow> string" where
  "rejectMotherVersion ver plat builds =
     (if ver = latestAlias then ''latest is a moving alias, not a version; pick a concrete version''
      else (case find (\<lambda>b. bl_Version b = ver) builds of
          None \<Rightarrow> ''version '' @ ver @ '' has not been built on this mother''
        | Some b \<Rightarrow>
            if plat \<in> set (bl_Platforms b) then ''''
            else ''no '' @ ver @ '' mother build for '' @ plat))"

definition versionLevelFault :: "server \<Rightarrow> string \<Rightarrow> build list \<Rightarrow> bool" where
  "versionLevelFault srv version builds \<longleftrightarrow>
     (if version = latestAlias then True
      else \<not> list_ex (\<lambda>b. bl_Version b = version) builds)"

section \<open>One server\<close>

definition handleSetServerVersion :: "string \<Rightarrow> string option \<Rightarrow> 'v api \<Rightarrow> string response \<times> 'v api" where
  "handleSetServerVersion raw_id body a =
     (case ParseInt raw_id of
        None \<Rightarrow> (refuse 400 ''invalid id'', a)
      | Some i \<Rightarrow>
          (case body of
             None \<Rightarrow> (refuse 400 ''malformed payload'', a)
           | Some raw \<Rightarrow>
               let version = TrimSpace raw in
               (case call (ServerByID i) a of
                  (Inl ErrNotFound, a1) \<Rightarrow> (refuse 404 ''server not found'', a1)
                | (Inl e, a1) \<Rightarrow> (storage_failure, a1)
                | (Inr srv, a1) \<Rightarrow>
                    let msg = (if version \<noteq> '''' then rejectVersion srv version (sn_Builds (Snapshot (ap_releases a1))) else '''') in
                    if msg \<noteq> '''' then (refuse 400 msg, a1)
                    else (case call (SetDesiredVersion i version) a1 of
                        (Inl e, a2) \<Rightarrow> (storage_failure, a2)
                      | (Inr u, a2) \<Rightarrow> (answer 200 version, a2)))))"

section \<open>The mother\<close>

type_synonym mother_target = "(bool \<times> string) option"

definition motherUpdateSupported :: "mother_target \<Rightarrow> bool" where
  "motherUpdateSupported mu \<longleftrightarrow> (case mu of None \<Rightarrow> False | Some (supported, plat) \<Rightarrow> supported)"

definition motherPlatform :: "mother_target \<Rightarrow> string" where
  "motherPlatform mu = (case mu of None \<Rightarrow> '''' | Some (supported, plat) \<Rightarrow> plat)"

definition handleSetMotherVersion ::
  "mother_target \<Rightarrow> int \<Rightarrow> string option \<Rightarrow> 'v api \<Rightarrow> string response \<times> 'v api" where
  "handleSetMotherVersion mu t body a =
     (case body of
        None \<Rightarrow> (refuse 400 ''malformed payload'', a)
      | Some raw \<Rightarrow>
          let version = TrimSpace raw in
          if version \<noteq> '''' \<and> \<not> motherUpdateSupported mu
          then (refuse 400 ''self-update is not available on this deployment'', a)
          else let msg = (if version \<noteq> '''' then
                 rejectMotherVersion version (motherPlatform mu) (sn_Mother (Snapshot (ap_releases a))) else '''') in
            if msg \<noteq> '''' then (refuse 400 msg, a)
            else (case call (SetMotherDesiredVersion version (unix t)) a of
                (Inl e, a1) \<Rightarrow> (storage_failure, a1)
              | (Inr u, a1) \<Rightarrow> (answer 200 version, a1)))"

definition motherUpdateState :: "mother_update \<Rightarrow> string \<Rightarrow> bool \<Rightarrow> string" where
  "motherUpdateState row running supported =
     (if \<not> supported then ''unsupported''
      else if mu_Error row \<noteq> '''' then ''failed''
      else if mu_DesiredVersion row = '''' \<or> mu_DesiredVersion row = running then ''idle''
      else ''pending'')"

record version_view =
  vv_MotherVersion :: string
  vv_Agents :: "build list"
  vv_CheckedAt :: int
  vv_Stale :: bool
  vv_MotherBuilds :: "build list"
  vv_MotherPlatform :: string
  vv_MotherDesiredVersion :: string
  vv_MotherUpdateState :: string
  vv_MotherUpdateError :: string

definition handleGetVersion :: "mother_target \<Rightarrow> string \<Rightarrow> 'v api \<Rightarrow> version_view response \<times> 'v api" where
  "handleGetVersion mu running a =
     (let snap = Snapshot (ap_releases a) in
      case call MotherUpdate a of
        (Inl e, a') \<Rightarrow> (storage_failure, a')
      | (Inr row, a') \<Rightarrow>
          (answer 200 \<lparr>vv_MotherVersion = running, vv_Agents = sn_Builds snap, vv_CheckedAt = sn_CheckedAt snap,
             vv_Stale = sn_Stale snap, vv_MotherBuilds = sn_Mother snap, vv_MotherPlatform = motherPlatform mu,
             vv_MotherDesiredVersion = mu_DesiredVersion row,
             vv_MotherUpdateState = motherUpdateState row running (motherUpdateSupported mu),
             vv_MotherUpdateError = mu_Error row\<rparr>, a'))"

section \<open>Groups\<close>

definition writeGroupErr :: "store_error \<Rightarrow> 'd response" where
  "writeGroupErr e = (case e of
       ErrNotFound \<Rightarrow> refuse 404 ''group not found''
     | ErrDuplicateGroupName \<Rightarrow> refuse 409 ''group name already exists''
     | ErrInvalidGroupName \<Rightarrow> refuse 400 ''invalid group name: 1-64 characters, no control characters''
     | _ \<Rightarrow> storage_failure)"

definition handleListGroups :: "'v api \<Rightarrow> group list response \<times> 'v api" where
  "handleListGroups a = (case call ListGroups a of
       (Inl e, a') \<Rightarrow> (storage_failure, a') | (Inr gs, a') \<Rightarrow> (answer 200 gs, a'))"

definition handleCreateGroup ::
  "(int list \<Rightarrow> int) \<Rightarrow> int \<Rightarrow> string option \<Rightarrow> 'v api \<Rightarrow> group response \<times> 'v api" where
  "handleCreateGroup alloc now body a =
     (case body of
        None \<Rightarrow> (refuse 400 ''name is required'', a)
      | Some name \<Rightarrow> (case call (CreateGroup alloc now name) a of
            (Inl e, a') \<Rightarrow> (writeGroupErr e, a') | (Inr g, a') \<Rightarrow> (answer 200 g, a')))"

text \<open>\<open>groupID\<close> and a call of the store that answers nothing but its error.\<close>

definition with_group :: "string \<Rightarrow> (int \<Rightarrow> 'v api \<Rightarrow> 'd response \<times> 'v api) \<Rightarrow> 'v api \<Rightarrow> 'd response \<times> 'v api" where
  "with_group raw_id k a = (case ParseInt raw_id of None \<Rightarrow> (refuse 400 ''invalid id'', a) | Some i \<Rightarrow> k i a)"

definition group_call :: "('v, unit) op \<Rightarrow> 'v api \<Rightarrow> 'd response \<times> 'v api" where
  "group_call m a = (case call m a of (Inl e, a') \<Rightarrow> (writeGroupErr e, a') | (Inr u, a') \<Rightarrow> (ok_empty, a'))"

definition handleRenameGroup :: "string \<Rightarrow> string option \<Rightarrow> 'v api \<Rightarrow> unit response \<times> 'v api" where
  "handleRenameGroup raw_id body = with_group raw_id (\<lambda>i a.
     case body of None \<Rightarrow> (refuse 400 ''name is required'', a) | Some name \<Rightarrow> group_call (RenameGroup i name) a)"

definition handleDeleteGroup :: "string \<Rightarrow> 'v api \<Rightarrow> unit response \<times> 'v api" where
  "handleDeleteGroup raw_id = with_group raw_id (\<lambda>i. group_call (DeleteGroup i))"

definition handleSetGroupServers :: "string \<Rightarrow> int list option \<Rightarrow> 'v api \<Rightarrow> unit response \<times> 'v api" where
  "handleSetGroupServers raw_id body = with_group raw_id (\<lambda>i a.
     case body of None \<Rightarrow> (refuse 400 ''server_ids is required'', a) | Some ids \<Rightarrow> group_call (SetGroupServers i ids) a)"

text \<open>The members of a group, an unknown group distinguished from an empty one.\<close>

definition groupMembers :: "int \<Rightarrow> ('v, server list) op" where
  "groupMembers i = bnd ListGroups (\<lambda>groups.
     if \<not> list_ex (\<lambda>g. g_ID g = i) groups then fail ErrNotFound else ServersInGroup i)"

record skipped =
  sk_ID :: int
  sk_Name :: string
  sk_Reason :: string

record rollout =
  ro_Version :: string
  ro_Applied :: "(int \<times> string) list"
  ro_Skipped :: "skipped list"

definition skip :: "server \<Rightarrow> string \<Rightarrow> rollout \<Rightarrow> rollout" where
  "skip srv reason ro = ro\<lparr>ro_Skipped := ro_Skipped ro @
     [\<lparr>sk_ID = srv_ID srv, sk_Name = srv_Name srv, sk_Reason = reason\<rparr>]\<rparr>"

fun rollout_members ::
  "string \<Rightarrow> build list \<Rightarrow> server list \<Rightarrow> rollout \<Rightarrow> 'v api \<Rightarrow> rollout response \<times> 'v api" where
  "rollout_members version builds [] ro a = (answer 200 ro, a)"
| "rollout_members version builds (srv # rest) ro a =
     (let msg = (if version \<noteq> '''' then rejectVersion srv version builds else '''') in
      if msg \<noteq> '''' then
        (if versionLevelFault srv version builds then (refuse 400 msg, a)
         else rollout_members version builds rest (skip srv msg ro) a)
      else (case call (SetDesiredVersion (srv_ID srv) version) a of
          (Inl e, a') \<Rightarrow> rollout_members version builds rest (skip srv ''storage failure'' ro) a'
        | (Inr u, a') \<Rightarrow>
            rollout_members version builds rest
              (ro\<lparr>ro_Applied := ro_Applied ro @ [(srv_ID srv, srv_Name srv)]\<rparr>) a'))"

definition handleSetGroupVersion :: "string \<Rightarrow> string option \<Rightarrow> 'v api \<Rightarrow> rollout response \<times> 'v api" where
  "handleSetGroupVersion raw_id body = with_group raw_id (\<lambda>i a.
     case body of
       None \<Rightarrow> (refuse 400 ''malformed payload'', a)
     | Some raw \<Rightarrow>
         let version = TrimSpace raw in
         (case call (groupMembers i) a of
            (Inl e, a1) \<Rightarrow> (writeGroupErr e, a1)
          | (Inr members, a1) \<Rightarrow>
              rollout_members version (sn_Builds (Snapshot (ap_releases a1))) members
                \<lparr>ro_Version = version, ro_Applied = [], ro_Skipped = []\<rparr> a1))"

section \<open>Lemmas\<close>

lemma find_version: "find (\<lambda>b. bl_Version b = ver) builds = Some b \<Longrightarrow> b \<in> set builds \<and> bl_Version b = ver"
  by (rule find_Some_mem)

lemma rejectVersion_ok:
  "rejectVersion srv ver builds = '''' \<longleftrightarrow> ver \<noteq> latestAlias \<and>
     (case find (\<lambda>b. bl_Version b = ver) builds of None \<Rightarrow> False
      | Some b \<Rightarrow> platform srv = '''' \<or> platform srv \<in> set (bl_Platforms b))"
  by (auto simp: rejectVersion_def split: option.splits)

text \<open>Whether the fault is the version's does not depend on the server.\<close>

lemma versionLevelFault_iff:
  "versionLevelFault srv ver builds \<longleftrightarrow> ver = latestAlias \<or> ver \<notin> bl_Version ` set builds"
  by (auto simp: versionLevelFault_def list_ex_iff)

lemma accepted_no_fault: "rejectVersion srv ver builds = '''' \<Longrightarrow> \<not> versionLevelFault srv' ver builds"
  by (auto simp: rejectVersion_ok versionLevelFault_iff split: option.splits dest: find_version)

lemma rollout_never_400:
  "\<not> (ver \<noteq> '''' \<and> versionLevelFault srv ver builds) \<Longrightarrow>
     rs_status (fst (rollout_members ver builds members ro a)) = 200"
  by (induction members arbitrary: ro a)
     (auto simp: Let_def answer_def versionLevelFault_iff split: prod.split sum.split)

lemma rollout_400:
  assumes "rs_status (fst (rollout_members ver builds members ro a)) \<noteq> 200"
  shows "ver \<noteq> ''''" "versionLevelFault srv ver builds" "snd (rollout_members ver builds members ro a) = a"
    "\<exists>m ms. members = m # ms \<and> rs_error (fst (rollout_members ver builds members ro a)) = rejectVersion m ver builds"
proof -
  show v: "ver \<noteq> ''''" "versionLevelFault srv ver builds"
    using rollout_never_400 [of ver srv builds members ro a] assms by blast+
  obtain m ms where m: "members = m # ms"
    using assms by (cases members) (auto simp: answer_def)
  have "rejectVersion m ver builds \<noteq> ''''"
    using accepted_no_fault v(2) by blast
  then show "snd (rollout_members ver builds members ro a) = a"
    "\<exists>m ms. members = m # ms \<and> rs_error (fst (rollout_members ver builds members ro a)) = rejectVersion m ver builds"
    using v m by (auto simp: versionLevelFault_iff refuse_def)
qed

text \<open>Each member is in exactly one list of the answer, in the order of the group.\<close>

lemma rollout_partition:
  assumes "fst (rollout_members ver builds members ro a) = answer 200 ro'"
  shows "mset (map fst (ro_Applied ro') @ map sk_ID (ro_Skipped ro')) =
    mset (map fst (ro_Applied ro) @ map sk_ID (ro_Skipped ro)) + mset (map srv_ID members)"
  using assms
proof (induction members arbitrary: ro a)
  case (Cons m ms)
  then show ?case
    by (auto simp: Let_def skip_def answer_def refuse_def split: if_splits prod.splits sum.splits dest!: Cons.IH)
qed (auto simp: answer_def)

lemma SetDesiredVersion_row:
  assumes "call (SetDesiredVersion i v) a = (Inr u, a')"
  shows "servers (ap_db a') = map (\<lambda>s. if srv_ID s = i then s\<lparr>srv_DesiredVersion := v, srv_UpdateError := ''''\<rparr> else s)
    (servers (ap_db a))"
  using tables_effect(1) [OF set_desired.success_effect [OF call_fields(1) [OF assms]]]
  by (simp add: upd_server_def)

lemma SetDesiredVersion_kept:
  assumes "call (SetDesiredVersion i v) a = (Inl e, a')"
  shows "tables (ap_db a') = tables (ap_db a)"
  by (rule set_desired.error_keeps [OF call_fields(1) [OF assms]])

text \<open>Who was applied has the target; nobody gets any other target.\<close>

definition target_or_old :: "string \<Rightarrow> int set \<Rightarrow> server list \<Rightarrow> server list \<Rightarrow> bool" where
  "target_or_old ver applied old new \<longleftrightarrow> map srv_ID new = map srv_ID old \<and>
     (\<forall>n < length old. (srv_ID (old ! n) \<in> applied \<longrightarrow> srv_DesiredVersion (new ! n) = ver) \<and>
        (srv_ID (old ! n) \<notin> applied \<longrightarrow> new ! n = old ! n))"

lemma target_or_old_refl: "target_or_old ver {} ss ss"
  by (simp add: target_or_old_def)

lemma map_srv_ID_nth: "map srv_ID new = map srv_ID old \<Longrightarrow> n < length old \<Longrightarrow> srv_ID (new ! n) = srv_ID (old ! n)"
  by (metis length_map nth_map)

lemma target_or_old_step:
  assumes "target_or_old ver A old new"
  shows "target_or_old ver (insert i A) old
    (map (\<lambda>s. if srv_ID s = i then s\<lparr>srv_DesiredVersion := ver, srv_UpdateError := ''''\<rparr> else s) new)"
proof -
  let ?f = "\<lambda>s. if srv_ID s = i then s\<lparr>srv_DesiredVersion := ver, srv_UpdateError := ''''\<rparr> else s"
  have ids: "map srv_ID new = map srv_ID old" and len: "length new = length old"
    using assms by (auto simp: target_or_old_def dest: map_eq_imp_length_eq)
  have "map srv_ID (map ?f new) = map srv_ID new" by simp
  then show ?thesis
    using assms ids len map_srv_ID_nth [OF ids] by (simp add: target_or_old_def)
qed

lemma rollout_targets:
  assumes "fst (rollout_members ver builds members ro a) = answer 200 ro'"
    and "target_or_old ver (fst ` set (ro_Applied ro)) old (servers (ap_db a))"
  shows "target_or_old ver (fst ` set (ro_Applied ro')) old
    (servers (ap_db (snd (rollout_members ver builds members ro a))))"
  using assms
proof (induction members arbitrary: ro a)
  case Nil
  then show ?case by (simp add: answer_def)
next
  case (Cons m ms)
  let ?msg = "if ver \<noteq> '''' then rejectVersion m ver builds else ''''"
  show ?case
  proof (cases "?msg \<noteq> ''''")
    case True
    then have "\<not> versionLevelFault m ver builds"
      using Cons.prems(1) by (auto simp: Let_def refuse_def answer_def split: if_splits)
    with True Cons.prems Cons.IH [of "skip m ?msg ro" a] show ?thesis
      by (simp add: Let_def skip_def)
  next
    case False
    obtain r a1 where c: "call (SetDesiredVersion (srv_ID m) ver) a = (r, a1)" by fastforce
    show ?thesis
    proof (cases r)
      case (Inl e)
      have "servers (ap_db a1) = servers (ap_db a)"
        by (rule tables_eqD [OF SetDesiredVersion_kept [OF c [unfolded Inl]]])
      with False c Inl Cons.prems Cons.IH [of "skip m ''storage failure'' ro" a1] show ?thesis
        by (simp add: Let_def skip_def split: if_splits)
    next
      case (Inr u)
      have "target_or_old ver (insert (srv_ID m) (fst ` set (ro_Applied ro))) old (servers (ap_db a1))"
        unfolding SetDesiredVersion_row [OF c [unfolded Inr]] by (rule target_or_old_step [OF Cons.prems(2)])
      with False c Inr Cons.prems(1) Cons.IH [of "ro\<lparr>ro_Applied := ro_Applied ro @ [(srv_ID m, srv_Name m)]\<rparr>" a1]
      show ?thesis by (simp add: Let_def split: if_splits)
    qed
  qed
qed

text \<open>Nobody is given a target this mother does not offer for the member's platform.\<close>

lemma rollout_offered:
  assumes "fst (rollout_members ver builds members ro a) = answer 200 ro'" and "(i, n) \<in> set (ro_Applied ro')"
  shows "(i, n) \<in> set (ro_Applied ro) \<or>
    (\<exists>m \<in> set members. srv_ID m = i \<and> (ver = '''' \<or> rejectVersion m ver builds = ''''))"
  using assms
proof (induction members arbitrary: ro a)
  case (Cons m ms)
  then show ?case
    by (fastforce simp: Let_def skip_def refuse_def answer_def split: if_splits prod.splits sum.splits)
qed (simp add: answer_def)

lemma read_only_groupMembers: "read_only (groupMembers i)"
  unfolding groupMembers_def ListGroups_def ServersInGroup_def
  by (intro read_only_rules) (simp add: read_only_rules)

lemma rollout_version: "fst (rollout_members ver builds members ro a) = answer 200 ro' \<Longrightarrow> ro_Version ro' = ro_Version ro"
  by (induction members arbitrary: ro a)
    (auto simp: Let_def skip_def refuse_def answer_def split: if_splits prod.splits sum.splits)

text \<open>A 200 is always an answer.\<close>

lemma rollout_answer:
  "rollout_members ver builds members ro a = (resp, a') \<Longrightarrow> rs_status resp = 200 \<Longrightarrow> \<exists>ro'. resp = answer 200 ro'"
  by (induction members arbitrary: ro a)
    (auto simp: Let_def refuse_def split: if_splits prod.splits sum.splits)

section \<open>Properties\<close>

lemma handleSetServerVersion_found:
  assumes run: "handleSetServerVersion raw body a = (resp, a')" and i: "ParseInt raw = Some i"
    and b: "body = Some given" and c: "call (ServerByID i) a = (Inr srv, a1)"
    and d: "call (SetDesiredVersion i (TrimSpace given)) a1 = (x, a2)"
  shows "(resp, a') = (let v = TrimSpace given;
      msg = (if v \<noteq> '''' then rejectVersion srv v (sn_Builds (Snapshot (ap_releases a))) else '''')
    in if msg \<noteq> '''' then (refuse 400 msg, a1)
       else case x of Inl e \<Rightarrow> (storage_failure, a2) | Inr u \<Rightarrow> (answer 200 v, a2))"
proof -
  have rel: "ap_releases a1 = ap_releases a" by (subst call_fields(2) [OF c]) simp
  show ?thesis
    using run i b c d rel
    by (cases x) (simp_all only: handleSetServerVersion_def Let_def option.case sum.case prod.case split: if_splits)
qed

lemma version_clear:
  assumes "(if v \<noteq> '''' then rejectVersion srv v builds else '''') = ''''"
  shows "v = '''' \<or> (v \<noteq> ''latest'' \<and> (\<exists>b \<in> set builds.
    bl_Version b = v \<and> (platform srv = '''' \<or> platform srv \<in> set (bl_Platforms b))))"
  using assms by (auto simp: rejectVersion_ok latestAlias_def split: if_splits option.splits dest: find_version)

text \<open>
  C19. One server's target: whatever is answered but a 200 changes no table; a 200 means the
  target was cleared or is a concrete version the current index offers for the platform the
  server reports (any offered version while it has reported none), and then exactly the row of
  that id carries it, with its last update error cleared.
\<close>

theorem handleSetServerVersion_offered:
  assumes run: "handleSetServerVersion raw body a = (resp, a')"
  shows "(rs_status resp \<noteq> 200 \<longrightarrow> tables (ap_db a') = tables (ap_db a)) \<and>
    (rs_status resp = 200 \<longrightarrow> (\<exists>i srv v. ParseInt raw = Some i \<and> body \<noteq> None \<and> v = TrimSpace (the body) \<and>
       srv \<in> set (servers (ap_db a)) \<and> srv_ID srv = i \<and>
       (v = '''' \<or> (v \<noteq> ''latest'' \<and> (\<exists>b \<in> set (sn_Builds (Snapshot (ap_releases a))).
          bl_Version b = v \<and> (platform srv = '''' \<or> platform srv \<in> set (bl_Platforms b))))) \<and>
       servers (ap_db a') = map (\<lambda>s. if srv_ID s = i then s\<lparr>srv_DesiredVersion := v, srv_UpdateError := ''''\<rparr> else s)
         (servers (ap_db a))))"
proof (cases "ParseInt raw")
  case None
  with run show ?thesis by (auto simp: handleSetServerVersion_def refuse_def)
next
  case (Some i)
  show ?thesis
  proof (cases body)
    case None
    with run Some show ?thesis by (auto simp: handleSetServerVersion_def refuse_def)
  next
    case (Some given)
    note i = \<open>ParseInt raw = Some i\<close> and Some
    obtain r a1 where c: "call (ServerByID i) a = (r, a1)" by fastforce
    note ro = call_tables [OF c read_only_select [of "\<lambda>s. srv_ID s = i", folded ServerByID_def]]
    show ?thesis
    proof (cases r)
      case (Inl e)
      with run i Some c ro show ?thesis
        by (cases e) (auto simp: handleSetServerVersion_def refuse_def Let_def)
    next
      case (Inr srv)
      note srv = call_ServerByID [OF c [unfolded Inr]]
      let ?v = "TrimSpace given"
      let ?msg = "if ?v \<noteq> '''' then rejectVersion srv ?v (sn_Builds (Snapshot (ap_releases a))) else ''''"
      obtain x a2 where d: "call (SetDesiredVersion i ?v) a1 = (x, a2)" by fastforce
      note run' = handleSetServerVersion_found [OF run i(1) Some c [unfolded Inr] d, unfolded Let_def]
      show ?thesis
      proof (cases x)
        case (Inl e)
        with run' SetDesiredVersion_kept [OF d [unfolded Inl]] ro(1) show ?thesis
          by (auto simp: refuse_def split: if_splits)
      next
        case (Inr u)
        note row = SetDesiredVersion_row [OF d [unfolded Inr], unfolded ro(3)]
        show ?thesis
        proof (cases "?msg = ''''")
          case True
          with run' Inr have "resp = answer 200 ?v" "a' = a2" by simp_all
          moreover from \<open>resp = answer 200 ?v\<close> have "rs_status resp = 200" by (simp only: answer_def response.simps)
          moreover have "body \<noteq> None" "TrimSpace given = TrimSpace (the body)" by (simp_all add: Some)
          ultimately show ?thesis using row version_clear [OF True] i srv by blast
        next
          case False
          with run' have "rs_status resp = 400" "a' = a1" by (simp_all only: if_True prod.inject refuse_def response.simps not_False_eq_True)
          with ro(1) show ?thesis by simp
        qed
      qed
    qed
  qed
qed

text \<open>A small fleet: two servers in one group, one of them on a platform without a build.\<close>

definition rollout_fleet :: "int api" where
  "rollout_fleet = New (empty_db\<lparr>servers := [(new_server ''web'' ''tk'' 0)\<lparr>srv_ID := 1, srv_OS := ''linux'', srv_Arch := ''amd64''\<rparr>,
       (new_server ''db'' ''tj'' 0)\<lparr>srv_ID := 2, srv_OS := ''plan9'', srv_Arch := ''arm''\<rparr>],
     server_groups := [\<lparr>gr_id = 1, gr_name = ''all'', gr_created_at = 0\<rparr>], group_members := [(1, 1), (1, 2)]\<rparr>) ''key''
     (NewCache\<lparr>sn_Builds := [\<lparr>bl_Version = ''v2'', bl_Platforms = [''linux-amd64'']\<rparr>]\<rparr>)"

lemma rollout_fleet_db:
  "servers (ap_db rollout_fleet) = [(new_server ''web'' ''tk'' 0)\<lparr>srv_ID := 1, srv_OS := ''linux'', srv_Arch := ''amd64''\<rparr>,
       (new_server ''db'' ''tj'' 0)\<lparr>srv_ID := 2, srv_OS := ''plan9'', srv_Arch := ''arm''\<rparr>]"
  "server_groups (ap_db rollout_fleet) = [\<lparr>gr_id = 1, gr_name = ''all'', gr_created_at = 0\<rparr>]"
  "group_members (ap_db rollout_fleet) = [(1, 1), (1, 2)]" "faults (ap_db rollout_fleet) = []"
  "sn_Builds (ap_releases rollout_fleet) = [\<lparr>bl_Version = ''v2'', bl_Platforms = [''linux-amd64'']\<rparr>]"
  by (simp_all add: rollout_fleet_def New_def empty_db_def Snapshot_def)

lemma rollout_inputs: "ParseInt ''1'' = Some 1" "TrimSpace ''v2'' = ''v2''"
  by code_simp (intro TrimSpace_id, subst runes_ascii, simp_all add: byte_def rune_is_space_def)

lemma rollout_accepts:
  "rejectVersion ((new_server ''web'' ''tk'' 0)\<lparr>srv_ID := 1, srv_OS := ''linux'', srv_Arch := ''amd64''\<rparr>) ''v2''
     [\<lparr>bl_Version = ''v2'', bl_Platforms = [''linux-amd64'']\<rparr>] = ''''"
  by (simp add: rejectVersion_def latestAlias_def platform_def)

theorem handleSetServerVersion_offered_witness:
  "map srv_DesiredVersion (servers (ap_db (snd (handleSetServerVersion ''1'' (Some ''v2'') rollout_fleet)))) = [''v2'', '''']"
proof -
  let ?run = "handleSetServerVersion ''1'' (Some ''v2'') rollout_fleet"
  have 1: "ServerByID 1 (ap_db rollout_fleet) = (Inr ((new_server ''web'' ''tk'' 0)\<lparr>srv_ID := 1,
      srv_OS := ''linux'', srv_Arch := ''amd64''\<rparr>), ap_db rollout_fleet)"
    by (simp add: ServerByID_def select_server_def bnd_def query_def exec_def take_fault_def rollout_fleet_db ret_def)
  obtain d where 2: "SetDesiredVersion 1 ''v2'' (ap_db rollout_fleet) = (Inr (), d)"
    by (simp add: SetDesiredVersion_def bnd_def exec_def take_fault_def rollout_fleet_db ret_def
        upd_server_count_def require_rows_def)
  have "rs_status (fst ?run) = 200"
    by (simp add: handleSetServerVersion_def rollout_inputs rollout_accepts call_def 1 2 rollout_fleet_db Let_def answer_def)
  with handleSetServerVersion_offered [OF surjective_pairing [of ?run]] show ?thesis
    by (auto simp: rollout_inputs rollout_fleet_db new_server_def)
qed

text \<open>
  C13. A group rollout is all or skip: an answer other than 200 leaves every table as it was; a
  200 accounts for every member of the group exactly once, as applied or as skipped, in one
  version; applied members were offered that version for their platform and carry it, and no
  other server's row changes, whatever the store failed in between.
\<close>

theorem handleSetGroupVersion_all_or_skip:
  assumes run: "handleSetGroupVersion raw body a = (resp, a')"
  shows "(rs_status resp \<noteq> 200 \<longrightarrow> tables (ap_db a') = tables (ap_db a)) \<and>
    (rs_status resp = 200 \<longrightarrow> (\<exists>i members v ro. ParseInt raw = Some i \<and> body \<noteq> None \<and> v = TrimSpace (the body) \<and>
       fst (groupMembers i (ap_db a)) = Inr members \<and> resp = answer 200 ro \<and> ro_Version ro = v \<and>
       mset (map fst (ro_Applied ro) @ map sk_ID (ro_Skipped ro)) = mset (map srv_ID members) \<and>
       (\<forall>(j, n) \<in> set (ro_Applied ro). \<exists>m \<in> set members. srv_ID m = j \<and>
          (v = '''' \<or> rejectVersion m v (sn_Builds (Snapshot (ap_releases a))) = '''')) \<and>
       target_or_old v (fst ` set (ro_Applied ro)) (servers (ap_db a)) (servers (ap_db a'))))"
proof (cases "ParseInt raw")
  case None
  with run show ?thesis by (auto simp: handleSetGroupVersion_def with_group_def refuse_def)
next
  case (Some i)
  show ?thesis
  proof (cases body)
    case None
    with run Some show ?thesis by (auto simp: handleSetGroupVersion_def with_group_def refuse_def)
  next
    case (Some given)
    note i = \<open>ParseInt raw = Some i\<close> and Some
    obtain r a1 where c: "call (groupMembers i) a = (r, a1)" by fastforce
    note ro = call_tables [OF c read_only_groupMembers]
    have rel: "ap_releases a1 = ap_releases a" by (subst call_fields(2) [OF c]) simp
    show ?thesis
    proof (cases r)
      case (Inl e)
      have "rs_status resp \<noteq> 200" "a' = a1"
        using run i Some c Inl
        by (auto simp: handleSetGroupVersion_def with_group_def Let_def writeGroupErr_def refuse_def split: store_error.splits)
      with ro(1) show ?thesis by simp
    next
      case (Inr members)
      let ?v = "TrimSpace given" and ?builds = "sn_Builds (Snapshot (ap_releases a))"
      let ?ro = "\<lparr>ro_Version = ?v, ro_Applied = [], ro_Skipped = []\<rparr>"
      have m: "fst (groupMembers i (ap_db a)) = Inr members" using call_fields(1) [OF c] Inr by simp
      have r: "rollout_members ?v ?builds members ?ro a1 = (resp, a')"
        using run i Some c Inr rel by (simp add: handleSetGroupVersion_def with_group_def Let_def)
      show ?thesis
      proof (cases "rs_status resp = 200")
        case False
        with rollout_400(3) [of ?v ?builds members ?ro a1] r ro(1) show ?thesis by simp
      next
        case True
        obtain ro' where resp: "resp = answer 200 ro'" using rollout_answer [OF r True] by blast
        have f: "fst (rollout_members ?v ?builds members ?ro a1) = answer 200 ro'" using r resp by simp
        have "target_or_old ?v (fst ` set (ro_Applied ro')) (servers (ap_db a)) (servers (ap_db a'))"
          using rollout_targets [OF f, of "servers (ap_db a)"] r ro(3) by (simp add: target_or_old_refl)
        with rollout_partition [OF f] rollout_version [OF f] rollout_offered [OF f] i Some m resp True show ?thesis
          by fastforce
      qed
    qed
  qed
qed

theorem handleSetGroupVersion_all_or_skip_witness:
  "\<exists>ro. fst (handleSetGroupVersion ''1'' (Some ''v2'') rollout_fleet) = answer 200 ro \<and>
     length (ro_Applied ro) + length (ro_Skipped ro) = 2"
proof -
  let ?run = "handleSetGroupVersion ''1'' (Some ''v2'') rollout_fleet"
  have m: "groupMembers 1 (ap_db rollout_fleet) = (Inr (servers_in_group 1 (ap_db rollout_fleet)), ap_db rollout_fleet)"
    by (simp add: groupMembers_def bnd_def ListGroups_def query_def exec_def take_fault_def rollout_fleet_db
        list_groups_def ServersInGroup_def fail_def)
  have "\<not> versionLevelFault srv ''v2'' (sn_Builds (ap_releases rollout_fleet))" for srv
    by (simp add: versionLevelFault_def latestAlias_def rollout_fleet_db)
  then have "rs_status (fst ?run) = 200"
    by (simp add: handleSetGroupVersion_def with_group_def rollout_inputs Let_def call_def m rollout_never_400)
  with handleSetGroupVersion_all_or_skip [OF surjective_pairing [of ?run]]
  obtain ro where "fst ?run = answer 200 ro"
    and ids: "mset (map fst (ro_Applied ro) @ map sk_ID (ro_Skipped ro)) =
       mset (map srv_ID (servers_in_group 1 (ap_db rollout_fleet)))"
    by (auto simp: rollout_inputs m)
  moreover have "length (ro_Applied ro) + length (ro_Skipped ro) = 2"
    using mset_eq_length [OF ids] by (simp add: servers_in_group_def rollout_fleet_db)
  ultimately show ?thesis by blast
qed

end
