(* ===== verification/API_Chart.thy ===== *)
theory API_Chart
  imports API_Base
begin

text \<open>
  Charts over the rollup tiers (\<open>mother/api/chart.go\<close>): the rows of one server and metric in
  a range, grouped and ordered as the query says. The average of a group is the parameter
  \<open>avg\<close> of its sum and count, since sample values are of any type with an order and an
  addition. The lemmas relate what a chart shows to the log of raw samples the tiers stand for.
\<close>

section \<open>Charts\<close>

definition maxChartPoints :: int where "maxChartPoints = 500"
definition minChartInterval :: int where "minChartInterval = 60"
definition hourlyTierThreshold :: int where "hourlyTierThreshold = 3600"

record 'v chart_point =
  cp_TS :: int
  cp_Min :: 'v
  cp_Max :: 'v
  cp_Avg :: 'v

text \<open>\<open>WHERE server_id = ? AND metric = ? AND window_start BETWEEN ? AND ?\<close>, in key order.\<close>

definition chart_rows :: "int \<Rightarrow> string \<Rightarrow> int \<Rightarrow> int \<Rightarrow> 'v tier \<Rightarrow> (int \<times> 'v bucket) list" where
  "chart_rows serverID metric from to t =
     sort_key fst [(ws, b). ((sid, m, ws), b) \<leftarrow> t, sid = serverID \<and> m = metric \<and> from \<le> ws \<and> ws \<le> to]"

definition combine :: "'v::{linorder,plus} bucket \<Rightarrow> 'v bucket \<Rightarrow> 'v bucket" where
  "combine a b = \<lparr>bk_min = min (bk_min a) (bk_min b), bk_max = max (bk_max a) (bk_max b),
     bk_sum = bk_sum a + bk_sum b, bk_cnt = bk_cnt a + bk_cnt b\<rparr>"

text \<open>\<open>GROUP BY bucket ORDER BY bucket\<close>: each group's rows combined in key order.\<close>

definition group_rows :: "int \<Rightarrow> (int \<times> 'v::{linorder,plus} bucket) list \<Rightarrow> (int \<times> 'v bucket) list" where
  "group_rows interval rows =
     [(k, foldl combine b bs). k \<leftarrow> sort (remdups (map (trunc_to interval \<circ> fst) rows)),
        b # bs \<leftarrow> [map snd (filter (\<lambda>(ws, b). trunc_to interval ws = k) rows)]]"

definition chart_query ::
  "('v \<Rightarrow> int \<Rightarrow> 'v) \<Rightarrow> bool \<Rightarrow> int \<Rightarrow> int \<Rightarrow> string \<Rightarrow> int \<Rightarrow> int \<Rightarrow> 'v::{linorder,plus} db \<Rightarrow> 'v chart_point list" where
  "chart_query avg minute interval serverID metric from to d =
     map (\<lambda>(ts, b). \<lparr>cp_TS = ts, cp_Min = bk_min b, cp_Max = bk_max b, cp_Avg = avg (bk_sum b) (bk_cnt b)\<rparr>)
       (group_rows interval (chart_rows serverID metric from to (if minute then rollup_1m d else rollup_1h d)))"

definition handleChart ::
  "('v \<Rightarrow> int \<Rightarrow> 'v) \<Rightarrow> string \<Rightarrow> string \<Rightarrow> string \<Rightarrow> string \<Rightarrow> string \<Rightarrow> 'v::{linorder,plus} api
     \<Rightarrow> 'v chart_point list response \<times> 'v api" where
  "handleChart avg raw_server raw_from raw_to raw_interval metric a =
     (case (ParseInt raw_server, ParseInt raw_from, ParseInt raw_to, ParseInt raw_interval) of
        (Some serverID, Some from, Some to, Some given) \<Rightarrow>
          if metric = '''' \<or> to \<le> from
          then (refuse 400 ''server_id, metric, from, to, interval are required'', a)
          else let interval = (if given < minChartInterval then minChartInterval else given) in
            if wrap64 (to - from) sdiv interval > maxChartPoints
            then (refuse 400 ''range/interval exceeds max points; increase interval'', a)
            else (case call (query (chart_query avg (interval < hourlyTierThreshold) interval serverID metric from to)) a of
                (Inl e, a') \<Rightarrow> (storage_failure, a')
              | (Inr points, a') \<Rightarrow> (answer 200 points, a'))
      | _ \<Rightarrow> (refuse 400 ''server_id, metric, from, to, interval are required'', a))"

section \<open>What a chart's groups hold\<close>

definition summary :: "'v::{linorder,comm_monoid_add} multiset \<Rightarrow> 'v bucket" where
  "summary M = \<lparr>bk_min = Min (set_mset M), bk_max = Max (set_mset M), bk_sum = sum_mset M, bk_cnt = int (size M)\<rparr>"

lemma combine_summary:
  "A \<noteq> {#} \<Longrightarrow> B \<noteq> {#} \<Longrightarrow> combine (summary A) (summary B) = summary (A + B)"
  by (simp add: combine_def summary_def Min_Un Max_Un)

lemma foldl_combine_summary:
  assumes "A \<noteq> {#}" "\<forall>B \<in> set Bs. B \<noteq> {#}"
  shows "foldl combine (summary A) (map summary Bs) = summary (A + sum_list Bs)"
  using assms
  by (induction Bs arbitrary: A) (simp_all add: combine_summary add.assoc)

lemma fold_bucket_summary: "A \<noteq> {#} \<Longrightarrow> fold_bucket (summary A) v = summary (add_mset v A)"
  by (simp add: fold_bucket_def summary_def add.commute min.commute max.commute)

lemma aggregate_summary:
  fixes vs :: "'v::{linorder,comm_monoid_add} list"
  shows "aggregate vs = (if vs = [] then None else Some (summary (mset vs)))"
proof (induction vs rule: rev_induct)
  case Nil
  then show ?case by (simp add: aggregate_def)
next
  case (snoc v vs)
  have "first_bucket v = summary {#v#}" by (simp add: first_bucket_def summary_def)
  with snoc.IH show ?case
    by (cases "vs = []") (simp_all only: aggregate_snoc, simp_all add: fold_bucket_summary)
qed

lemma in_bucket_union:
  assumes "distinct wss"
  shows "(\<Sum>ws \<leftarrow> wss. mset (in_bucket w (sid, m, ws) log)) =
    mset (map raw_val (filter (\<lambda>r. \<exists>ws \<in> set wss. raw_key w r = (sid, m, ws)) log))"
  using assms
proof (induction wss)
  case (Cons x xs)
  have "filter_mset (\<lambda>r. raw_key w r = (sid, m, x) \<or> (\<exists>ws \<in> set xs. raw_key w r = (sid, m, ws))) (mset log) =
      filter_mset (\<lambda>r. raw_key w r = (sid, m, x)) (mset log) +
      filter_mset (\<lambda>r. \<exists>ws \<in> set xs. raw_key w r = (sid, m, ws)) (mset log)"
    using Cons.prems by (intro multiset_eqI) auto
  with Cons show ?case
    by (simp add: in_bucket_def mset_filter flip: image_mset_union)
qed simp

text \<open>The raw samples a chart's bucket \<open>k\<close> stands for.\<close>

definition charted :: "int \<Rightarrow> int \<Rightarrow> int \<Rightarrow> string \<Rightarrow> int \<Rightarrow> int \<Rightarrow> int \<Rightarrow> 'v raw list \<Rightarrow> 'v list" where
  "charted w interval sid m from to k log = map raw_val (filter (\<lambda>(s, ts, mm, v). s = sid \<and> mm = m \<and>
     from \<le> trunc_to w ts \<and> trunc_to w ts \<le> to \<and> trunc_to interval (trunc_to w ts) = k) log)"

lemma distinct_tier_of_log: "distinct (map fst (tier_of_log w log))"
proof (induction log rule: rev_induct)
  case (snoc r log)
  then show ?case
    by (cases r) (simp add: tier_of_log_def push_raw_def upsert_bucket_def distinct_update)
qed (simp add: tier_of_log_def)

lemma chart_rows_tier:
  assumes t: "t = tier_of_log w log"
  shows "distinct (map fst (chart_rows sid m from to t))"
    "(ws, b) \<in> set (chart_rows sid m from to t) \<longleftrightarrow>
       from \<le> ws \<and> ws \<le> to \<and> aggregate (in_bucket w (sid, m, ws) log) = Some b"
proof -
  have d: "distinct (map fst t)" unfolding t by (rule distinct_tier_of_log)
  then have in_t: "((sid, m, ws), b) \<in> set t \<longleftrightarrow> aggregate (in_bucket w (sid, m, ws) log) = Some b" for ws b
    using map_of_tier_of_log [of w log "(sid, m, ws)"] by (auto simp: t dest: map_of_SomeD intro: map_of_is_SomeI)
  let ?rows = "\<lambda>t. [(ws, b). ((s, mm, ws), b) \<leftarrow> t, s = sid \<and> mm = m \<and> from \<le> ws \<and> ws \<le> to]"
  have "distinct (map fst t) \<Longrightarrow> distinct (map fst (?rows t))" for t :: "'a tier"
  proof (induction t)
    case (Cons x t)
    then show ?case by (cases x) (fastforce simp: image_iff)
  qed simp
  with d have "distinct (map fst (?rows t))" by blast
  then show "distinct (map fst (chart_rows sid m from to t))"
    by (simp add: chart_rows_def distinct_map)
  show "(ws, b) \<in> set (chart_rows sid m from to t) \<longleftrightarrow>
       from \<le> ws \<and> ws \<le> to \<and> aggregate (in_bucket w (sid, m, ws) log) = Some b"
    by (force simp: chart_rows_def simp flip: in_t)
qed

lemma group_rows_keys:
  "map fst (group_rows interval rows) = sort (remdups (map (trunc_to interval \<circ> fst) rows))"
proof -
  have "map fst [(k, foldl combine b bs). k \<leftarrow> ks, b # bs \<leftarrow> [map snd (filter (\<lambda>(ws, b). trunc_to interval ws = k) rows)]] = ks"
    if "set ks \<subseteq> set (map (trunc_to interval \<circ> fst) rows)" for ks
    using that
  proof (induction ks)
    case (Cons k ks)
    then obtain ws b where "(ws, b) \<in> set rows" "trunc_to interval ws = k" by auto
    then have "filter (\<lambda>(ws, b). trunc_to interval ws = k) rows \<noteq> []" by (auto simp: filter_empty_conv)
    then obtain x xs where "map snd (filter (\<lambda>(ws, b). trunc_to interval ws = k) rows) = x # xs"
      by (cases "map snd (filter (\<lambda>(ws, b). trunc_to interval ws = k) rows)") auto
    with Cons show ?case by (simp add: case_prod_unfold)
  qed simp
  then show ?thesis by (simp add: group_rows_def)
qed

lemma group_rows_value:
  assumes "(k, c) \<in> set (group_rows interval rows)"
  obtains b bs where "map snd (filter (\<lambda>(ws, b). trunc_to interval ws = k) rows) = b # bs" "c = foldl combine b bs"
proof -
  from assms have "k \<in> set (map fst (group_rows interval rows)) \<and>
      (\<exists>b bs. map snd (filter (\<lambda>(ws, b). trunc_to interval ws = k) rows) = b # bs \<and> c = foldl combine b bs)"
    by (force simp: group_rows_def split: list.splits)
  then show ?thesis by (elim conjE exE) (rule that)
qed

lemma charted_mset:
  fixes log :: "'v::{linorder,comm_monoid_add} raw list"
  assumes rows_def: "rows = chart_rows sid m from to (tier_of_log w log)"
  shows "(\<Sum>ws \<leftarrow> map fst (filter (\<lambda>(ws, b). trunc_to interval ws = k) rows). mset (in_bucket w (sid, m, ws) log)) =
    mset (charted w interval sid m from to k log)"
proof -
  let ?F = "filter (\<lambda>(ws, b). trunc_to interval ws = k) rows"
  have d: "distinct (map fst ?F)"
    using chart_rows_tier(1) [OF refl, of sid m "from" to w log] unfolding rows_def by (rule distinct_filter_fst)
  have "(\<exists>ws \<in> set (map fst ?F). raw_key w r = (sid, m, ws)) \<longleftrightarrow>
      (case r of (s, ts, mm, v) \<Rightarrow> s = sid \<and> mm = m \<and> from \<le> trunc_to w ts \<and> trunc_to w ts \<le> to \<and>
         trunc_to interval (trunc_to w ts) = k)" if r: "r \<in> set log" for r
  proof -
    obtain s ts mm v where rr: "r = (s, ts, mm, v)" by (cases r) auto
    have "in_bucket w (s, mm, trunc_to w ts) log \<noteq> []"
      using r by (force simp: in_bucket_def rr raw_key_def filter_empty_conv)
    then have "aggregate (in_bucket w (s, mm, trunc_to w ts) log) \<noteq> None" by (simp add: aggregate_summary)
    then show ?thesis
      by (force simp: rr raw_key_def rows_def chart_rows_tier(2) [OF refl] image_iff)
  qed
  then have "filter (\<lambda>r. \<exists>ws \<in> set (map fst ?F). raw_key w r = (sid, m, ws)) log =
      filter (\<lambda>(s, ts, mm, v). s = sid \<and> mm = m \<and> from \<le> trunc_to w ts \<and> trunc_to w ts \<le> to \<and>
         trunc_to interval (trunc_to w ts) = k) log"
    by (intro filter_cong) auto
  then show ?thesis unfolding in_bucket_union [OF d, of w sid m log] charted_def by (simp only:)
qed

lemma group_rows_tier:
  fixes log :: "'v::{linorder,comm_monoid_add} raw list"
  assumes rows_def: "rows = chart_rows sid m from to (tier_of_log w log)"
    and "(k, c) \<in> set (group_rows interval rows)"
  shows "charted w interval sid m from to k log \<noteq> []" "c = summary (mset (charted w interval sid m from to k log))"
proof -
  let ?F = "filter (\<lambda>(ws, b). trunc_to interval ws = k) rows"
  let ?ms = "map (\<lambda>ws. mset (in_bucket w (sid, m, ws) log)) (map fst ?F)"
  have row: "in_bucket w (sid, m, ws) log \<noteq> [] \<and> b = summary (mset (in_bucket w (sid, m, ws) log))" if "(ws, b) \<in> set rows" for ws b
    using that by (auto simp: rows_def chart_rows_tier(2) [OF refl] aggregate_summary split: if_splits)
  from assms(2) obtain b bs where bs: "map snd ?F = b # bs" "c = foldl combine b bs"
    by (rule group_rows_value)
  have "map snd ?F = map summary ?ms" using row by auto
  with bs(1) obtain A As where A: "?ms = A # As" "b = summary A" "bs = map summary As"
    by (auto simp: Cons_eq_map_conv)
  have "\<forall>B \<in> set ?ms. B \<noteq> {#}" using row by auto
  with A have "c = summary (sum_list ?ms)" "sum_list ?ms \<noteq> {#}"
    unfolding bs(2) by (simp_all add: foldl_combine_summary)
  then show "charted w interval sid m from to k log \<noteq> []" "c = summary (mset (charted w interval sid m from to k log))"
    using charted_mset [OF rows_def, of interval k] by auto
qed

lemma charted_nonempty:
  fixes log :: "'v::{linorder,comm_monoid_add} raw list"
  assumes rows_def: "rows = chart_rows sid m from to (tier_of_log w log)"
  shows "charted w interval sid m from to k log \<noteq> [] \<longleftrightarrow> k \<in> set (map fst (group_rows interval rows))"
proof
  assume "k \<in> set (map fst (group_rows interval rows))"
  then show "charted w interval sid m from to k log \<noteq> []"
    using group_rows_tier(1) [OF rows_def] by auto
next
  assume "charted w interval sid m from to k log \<noteq> []"
  then have "map fst (filter (\<lambda>(ws, b). trunc_to interval ws = k) rows) \<noteq> []"
    using charted_mset [OF rows_def, of interval k] by (metis list.simps(8) mset_zero_iff sum_list.Nil)
  then show "k \<in> set (map fst (group_rows interval rows))"
    unfolding group_rows_keys by (force simp: filter_empty_conv)
qed

text \<open>The number of groups is the number of chart buckets the range spans.\<close>

lemma group_rows_bound:
  assumes rows: "\<forall>(ws, b) \<in> set rows. 0 \<le> ws \<and> lo \<le> ws \<and> ws \<le> hi" and "0 < interval" "lo \<le> hi" "0 \<le> lo"
  shows "int (length (group_rows interval rows)) \<le> (hi - lo) div interval + 2"
proof -
  let ?K = "set (map (trunc_to interval \<circ> fst) rows)"
  have "?K \<subseteq> (\<lambda>q. q * interval) ` {lo div interval .. hi div interval}"
    using rows assms(2) by (auto simp: trunc_to_def sdiv_nonneg intro!: imageI zdiv_mono1)
  then have "card ?K \<le> card {lo div interval .. hi div interval}"
    by (rule surj_card_le [rotated]) simp
  also have "int \<dots> = hi div interval - lo div interval + 1"
    using assms(2,3) zdiv_mono1 [of lo hi interval] by simp
  also have "\<dots> \<le> (hi - lo) div interval + 2"
  proof -
    have "((hi - lo) mod interval + lo mod interval) div interval \<le> (2 * interval - 1) div interval"
      using pos_mod_bound [OF assms(2), of "hi - lo"] pos_mod_bound [OF assms(2), of lo] assms(2)
      by (intro zdiv_mono1) linarith+
    also have "\<dots> = 1" using assms(2) by (intro int_div_pos_eq [of _ _ _ "interval - 1"]) auto
    finally show ?thesis using div_add1_eq [of "hi - lo" lo interval] by simp
  qed
  finally have "int (card ?K) \<le> (hi - lo) div interval + 2" by linarith
  moreover have "length (group_rows interval rows) = card ?K"
    using arg_cong [OF group_rows_keys, of length interval rows] by (simp add: length_remdups_card_conv)
  ultimately show ?thesis by simp
qed

text \<open>What an answered chart request was, and what was read.\<close>

lemma handleChart_cases:
  assumes "handleChart avg rs rf rt ri metric a = (resp, a')"
  obtains (refused) "rs_status resp \<noteq> 200" "tables (ap_db a') = tables (ap_db a)" "ap_live a' = ap_live a"
  | (answered) serverID lo hi given interval points where "ParseInt rs = Some serverID" "ParseInt rf = Some lo"
      "ParseInt rt = Some hi" "ParseInt ri = Some given" "lo < hi" "interval = max 60 given"
      "wrap64 (hi - lo) sdiv interval \<le> 500" "resp = answer 200 points"
      "points = chart_query avg (interval < 3600) interval serverID metric lo hi (tables (ap_db a))"
      "tables (ap_db a') = tables (ap_db a)" "ap_live a' = ap_live a"
proof (cases "\<exists>serverID lo hi given. ParseInt rs = Some serverID \<and> ParseInt rf = Some lo \<and> ParseInt rt = Some hi \<and>
    ParseInt ri = Some given \<and> metric \<noteq> '''' \<and> lo < hi \<and> wrap64 (hi - lo) sdiv (max 60 given) \<le> 500")
  case False
  with assms have "rs_status resp = 400 \<and> a' = a"
    by (auto simp: handleChart_def Let_def minChartInterval_def maxChartPoints_def refuse_def max_def not_le
        split: option.splits if_splits)
  then show ?thesis by (intro refused) auto
next
  case True
  then obtain serverID lo hi given where p: "ParseInt rs = Some serverID" "ParseInt rf = Some lo" "ParseInt rt = Some hi"
    "ParseInt ri = Some given" "metric \<noteq> ''''" "lo < hi" "wrap64 (hi - lo) sdiv (max 60 given) \<le> 500" by blast
  let ?i = "max 60 given"
  let ?q = "chart_query avg (?i < 3600) ?i serverID metric lo hi"
  obtain r a1 where c: "call (query ?q) a = (r, a1)" by fastforce
  note ro = call_tables [OF c read_only_query]
  have i: "(if given < minChartInterval then minChartInterval else given) = ?i"
    by (simp add: minChartInterval_def)
  have run: "(resp, a') = (case r of Inl e \<Rightarrow> (storage_failure, a1) | Inr points \<Rightarrow> (answer 200 points, a1))"
    using assms p c
    by (simp add: handleChart_def maxChartPoints_def hourlyTierThreshold_def i Let_def split: sum.split)
  show ?thesis
  proof (cases r)
    case (Inl e)
    with run ro show ?thesis by (intro refused) (auto simp: refuse_def)
  next
    case (Inr points)
    from query_Inr [OF call_fields(1) [OF c [unfolded Inr]]] obtain d1 where "tables d1 = tables (ap_db a)" "points = ?q d1"
      by auto
    then have "points = ?q (tables (ap_db a))"
      by (simp add: chart_query_def tables_eq_iff)
    with run Inr p ro show ?thesis by (intro answered) auto
  qed
qed

section \<open>Properties of charts\<close>



definition minute_db :: "nat \<Rightarrow> int db" where
  "minute_db n = empty_db\<lparr>rollup_1m := map (\<lambda>i. ((1, ''m'', 60 * int i), first_bucket 0)) [0..<n]\<rparr>"

lemma minute_db_points:
  assumes "lo \<le> 0" "60 * int n \<le> hi + 60"
  shows "length (chart_query avg True 60 1 ''m'' lo hi (minute_db n)) = n"
proof -
  have "[(ws, b). ((sid, m, ws), b) \<leftarrow> map (\<lambda>i. ((1 :: int, ''m'', 60 * int i), first_bucket (0 :: int))) xs,
      sid = 1 \<and> m = ''m'' \<and> lo \<le> ws \<and> ws \<le> hi] = map (\<lambda>i. (60 * int i, first_bucket (0 :: int))) xs"
    if "set xs \<subseteq> {0..<n}" for xs
    using that assms by (induction xs) auto
  note sel = this [of "[0..<n]"]
  have "sorted (map fst (map (\<lambda>i. (60 * int i, first_bucket (0 :: int))) [0..<n]))"
    by (simp add: sorted_iff_nth_mono)
  with sel have rows: "chart_rows 1 ''m'' lo hi (rollup_1m (minute_db n)) =
      map (\<lambda>i. (60 * int i, first_bucket 0)) [0..<n]"
    by (simp add: chart_rows_def minute_db_def sort_key_id_if_sorted)
  have "distinct (map (trunc_to 60 \<circ> fst) (map (\<lambda>i. (60 * int i, first_bucket (0 :: int))) [0..<n]))"
    by (simp add: distinct_map inj_on_def trunc_to_def sdiv_nonneg)
  then show ?thesis
    using arg_cong [OF group_rows_keys, of length 60 "map (\<lambda>i. (60 * int i, first_bucket (0 :: int))) [0..<n]"]
    by (simp add: chart_query_def rows distinct_remdups_id)
qed

lemma handleChart_minutes:
  assumes "ParseInt rf = Some lo" "ParseInt rt = Some hi" "lo \<le> 0" "lo < hi" "60 * int n \<le> hi + 60"
    "wrap64 (hi - lo) sdiv 60 \<le> 500"
  shows "\<exists>points. fst (handleChart avg ''1'' rf rt ''60'' ''m'' (New (minute_db n) key rel)) = answer 200 points \<and>
    length points = n"
proof -
  have "ParseInt ''1'' = Some 1" "ParseInt ''60'' = Some 60" by code_simp+
  moreover have "healthy (minute_db n)" by (simp add: minute_db_def healthy_def empty_db_def)
  ultimately show ?thesis
    using assms minute_db_points [OF assms(3,5)]
    by (simp add: handleChart_def minChartInterval_def maxChartPoints_def hourlyTierThreshold_def call_def New_def)
qed

lemma handleChart_at_most_502:
  assumes h: "fst (handleChart avg rs rf rt ri metric a) = answer 200 points \<and> ParseInt rf = Some lo \<and> ParseInt rt = Some hi \<and>
     int64 (hi - lo) \<and> (\<forall>((sid, m, ws), b) \<in> set (rollup_1m (ap_db a)) \<union> set (rollup_1h (ap_db a)). 0 \<le> ws)"
  shows "length points \<le> 502"
proof -
  obtain resp a' where run: "handleChart avg rs rf rt ri metric a = (resp, a')" by fastforce
  show ?thesis
  proof (rule handleChart_cases [OF run])
    assume "rs_status resp \<noteq> 200"
    with h run show ?thesis by (auto simp: answer_def)
  next
    fix serverID lo' hi' given interval points'
    assume p: "ParseInt rf = Some lo'" "ParseInt rt = Some hi'" "lo' < hi'" "interval = max 60 given"
      "wrap64 (hi' - lo') sdiv interval \<le> 500" "resp = answer 200 points'"
      "points' = chart_query avg (interval < 3600) interval serverID metric lo' hi' (tables (ap_db a))"
    have eq: "lo' = lo" "hi' = hi" "points' = points" using p h run by auto
    have span: "(hi - lo) div interval \<le> 500"
      using p h by (simp add: eq wrap64_id sdiv_nonneg)
    let ?t = "if interval < 3600 then rollup_1m (ap_db a) else rollup_1h (ap_db a)"
    let ?rows = "chart_rows serverID metric lo hi ?t"
    have rows: "\<forall>(ws, b) \<in> set ?rows. 0 \<le> ws \<and> max 0 lo \<le> ws \<and> ws \<le> hi"
      using h by (fastforce simp: chart_rows_def split: if_splits)
    have len: "length points = length (group_rows interval ?rows)"
      using p by (simp add: eq chart_query_def tables_def)
    show ?thesis
    proof (cases "max 0 lo \<le> hi")
      case True
      from group_rows_bound [OF rows _ True] p(4) have "int (length (group_rows interval ?rows)) \<le> (hi - max 0 lo) div interval + 2"
        by auto
      also have "(hi - max 0 lo) div interval \<le> (hi - lo) div interval"
        using p(4) by (intro zdiv_mono1) auto
      finally show ?thesis using span len by linarith
    next
      case False
      with rows have "?rows = []" by (cases ?rows) auto
      with len show ?thesis by (simp add: group_rows_def)
    qed
  qed
qed

text \<open>
  C23. The limit on a chart's points: a request whose span does not overflow 64 bits gets at
  most 502 points, two more than the stated maximum, and 501 does happen; a request whose span
  overflows passes the check with a negative span and gets every bucket stored, however many.
\<close>

theorem handleChart_limit:
  "(\<forall>rs rf rt ri metric a points lo hi.
     fst (handleChart avg rs rf rt ri metric a) = answer 200 points \<and> ParseInt rf = Some lo \<and> ParseInt rt = Some hi \<and>
     int64 (hi - lo) \<and> (\<forall>((sid, m, ws), b) \<in> set (rollup_1m (ap_db a)) \<union> set (rollup_1h (ap_db a)). 0 \<le> ws) \<longrightarrow>
       length points \<le> 502) \<and>
   (\<exists>points. fst (handleChart avg ''1'' ''0'' ''30000'' ''60'' ''m'' (New (minute_db 501) key rel)) = answer 200 points \<and>
     length points = 501) \<and>
   (n \<le> 1000000 \<longrightarrow> (\<exists>points. fst (handleChart avg ''1'' ''-9223372036854775808'' ''9223372036854775807'' ''60'' ''m''
       (New (minute_db n) key rel)) = answer 200 points \<and> length points = n))"
proof (intro conjI allI impI, erule handleChart_at_most_502)
  have "ParseInt ''0'' = Some 0" "ParseInt ''30000'' = Some 30000" by code_simp+
  then show "\<exists>points. fst (handleChart avg ''1'' ''0'' ''30000'' ''60'' ''m'' (New (minute_db 501) key rel)) = answer 200 points \<and>
     length points = 501"
    by (intro handleChart_minutes) (auto simp: wrap64_def sdiv_nonneg)
next
  assume "n \<le> 1000000"
  moreover have "ParseInt ''-9223372036854775808'' = Some (- 9223372036854775808)"
    "ParseInt ''9223372036854775807'' = Some 9223372036854775807" by code_simp+
  ultimately show "\<exists>points. fst (handleChart avg ''1'' ''-9223372036854775808'' ''9223372036854775807'' ''60'' ''m''
       (New (minute_db n) key rel)) = answer 200 points \<and> length points = n"
    by (intro handleChart_minutes) (auto simp: wrap64_def signed_divide_int_def sgn_if)
qed

theorem handleChart_limit_witness:
  "\<exists>points. fst (handleChart (\<lambda>s n. s) ''1'' ''-9223372036854775808'' ''9223372036854775807'' ''60'' ''m''
       (New (minute_db 100000) ''k'' NewCache)) = answer 200 points \<and> length points = 100000"
  using handleChart_limit [of "\<lambda>s n. s" "''k''" NewCache 100000] by simp

end
