(* ===== verification/Release.thy ===== *)
theory Release
  imports Go_Strings
begin

text \<open>
  How builds are named and located: \<open>shared/release/release.go\<close>. The lemmas show that
  \<open>AssetKindOf\<close> inverts the two naming functions on the platforms built for, that the two
  families of assets can never be taken for one another, and what a parsed checksum is.
\<close>

section \<open>Names\<close>

definition DefaultSourceRepoURL :: string where
  "DefaultSourceRepoURL = ''https://github.com/osman-yahya/feast-watch''"

definition assetPrefix :: string where "assetPrefix = ''feast-watch-agent-''"

definition motherAssetPrefix :: string where "motherAssetPrefix = ''feast-watch-mother-''"

datatype kind = KindNone | KindAgent | KindMother

definition ChecksumSuffix :: string where "ChecksumSuffix = ''.sha256''"

definition sha256HexLen :: nat where "sha256HexLen = 64"

record platform =
  GOOS :: string
  GOARCH :: string

definition Platform_String :: "platform \<Rightarrow> string" where
  "Platform_String p = GOOS p @ ''-'' @ GOARCH p"

definition Platforms :: "platform list" where
  "Platforms = [\<lparr>GOOS = ''linux'', GOARCH = ''amd64''\<rparr>, \<lparr>GOOS = ''linux'', GOARCH = ''arm64''\<rparr>,
     \<lparr>GOOS = ''windows'', GOARCH = ''amd64''\<rparr>, \<lparr>GOOS = ''darwin'', GOARCH = ''arm64''\<rparr>]"

definition MotherPlatforms :: "platform list" where
  "MotherPlatforms = [\<lparr>GOOS = ''linux'', GOARCH = ''amd64''\<rparr>, \<lparr>GOOS = ''linux'', GOARCH = ''arm64''\<rparr>]"

definition MotherAssetName :: "string \<Rightarrow> string \<Rightarrow> string" where
  "MotherAssetName goos goarch = motherAssetPrefix @ goos @ ''-'' @ goarch"

definition AssetName :: "string \<Rightarrow> string \<Rightarrow> string" where
  "AssetName goos goarch = assetPrefix @ goos @ ''-'' @ goarch"

definition ExpectedAssets :: "string list" where
  "ExpectedAssets =
     concat (map (\<lambda>p. let asset = AssetName (GOOS p) (GOARCH p) in [asset, asset @ ChecksumSuffix]) Platforms) @
     concat (map (\<lambda>p. let asset = MotherAssetName (GOOS p) (GOARCH p) in [asset, asset @ ChecksumSuffix])
       MotherPlatforms)"

definition builtFor :: "platform list \<Rightarrow> string \<Rightarrow> bool" where
  "builtFor platforms plat \<longleftrightarrow> list_ex (\<lambda>p. Platform_String p = plat) platforms"

definition AssetKindOf :: "string \<Rightarrow> kind \<times> string \<times> bool" where
  "AssetKindOf asset =
     (if HasSuffix asset ChecksumSuffix then (KindNone, '''', False)
      else (case CutPrefix asset motherAssetPrefix of
          Some rest \<Rightarrow> (KindMother, rest, builtFor MotherPlatforms rest)
        | None \<Rightarrow> (case CutPrefix asset assetPrefix of
            Some rest \<Rightarrow> (KindAgent, rest, builtFor Platforms rest)
          | None \<Rightarrow> (KindNone, '''', False))))"

section \<open>Addresses\<close>

definition DownloadURL :: "string \<Rightarrow> string \<Rightarrow> string \<Rightarrow> string" where
  "DownloadURL baseURL tag asset =
     TrimSuffix baseURL ''/'' @ ''/releases/download/'' @ tag @ ''/'' @ asset"

definition LatestDownloadURL :: "string \<Rightarrow> string \<Rightarrow> string" where
  "LatestDownloadURL baseURL asset = TrimSuffix baseURL ''/'' @ ''/releases/latest/download/'' @ asset"

section \<open>Checksums\<close>

datatype checksum_error = EmptyChecksum | NotADigest string | NotHexadecimal string

definition truncate_text :: "string \<Rightarrow> string" where
  "truncate_text s = (if length s \<le> 32 then s else take 32 s @ encode_rune 8230)"

definition ParseChecksum :: "(nat \<Rightarrow> nat) \<Rightarrow> string \<Rightarrow> checksum_error + string" where
  "ParseChecksum lower_rune raw =
     (case Fields raw of
        [] \<Rightarrow> Inl EmptyChecksum
      | f # fs \<Rightarrow>
          let sum = ToLower lower_rune f in
          if length sum \<noteq> sha256HexLen then Inl (NotADigest (truncate_text sum))
          else if \<not> list_all is_hex sum then Inl (NotHexadecimal (truncate_text sum))
          else Inr sum)"

section \<open>Lemmas\<close>

lemmas asset_defs = AssetName_def MotherAssetName_def assetPrefix_def motherAssetPrefix_def
  ChecksumSuffix_def Platform_String_def

lemma HasSuffix_last: "HasSuffix s p \<Longrightarrow> p \<noteq> [] \<Longrightarrow> s \<noteq> [] \<and> last s = last p"
  by (auto simp: HasSuffix_iff)

lemma families_differ: "MotherAssetName g a \<noteq> AssetName g' a'"
  by (simp add: asset_defs)

lemma AssetKindOf_Mother:
  "AssetKindOf asset = (KindMother, plat, ok) \<Longrightarrow>
     asset = motherAssetPrefix @ plat \<and> ok = builtFor MotherPlatforms plat"
  by (auto simp: AssetKindOf_def CutPrefix_Some split: if_splits option.splits)

lemma AssetKindOf_Agent:
  "AssetKindOf asset = (KindAgent, plat, ok) \<Longrightarrow>
     asset = assetPrefix @ plat \<and> ok = builtFor Platforms plat"
  by (auto simp: AssetKindOf_def CutPrefix_Some split: if_splits option.splits)

lemma builtFor_mem: "builtFor ps plat \<longleftrightarrow> (\<exists>p \<in> set ps. plat = Platform_String p)"
  by (auto simp: builtFor_def list_ex_iff)

lemma CutPrefix_mother_agent: "CutPrefix (assetPrefix @ s) motherAssetPrefix = None"
  by (simp add: CutPrefix_def HasPrefix_def assetPrefix_def motherAssetPrefix_def)

lemma AssetKindOf_AssetName:
  assumes "p \<in> set Platforms"
  shows "AssetKindOf (AssetName (GOOS p) (GOARCH p)) = (KindAgent, Platform_String p, True)"
proof -
  have "\<not> HasSuffix (AssetName (GOOS p) (GOARCH p)) ChecksumSuffix"
    using assms by (auto simp: Platforms_def asset_defs dest!: HasSuffix_last)
  with assms show ?thesis
    unfolding AssetKindOf_def AssetName_def CutPrefix_mother_agent
    by (auto simp: builtFor_mem Platform_String_def)
qed

lemma AssetKindOf_MotherAssetName:
  assumes "p \<in> set MotherPlatforms"
  shows "AssetKindOf (MotherAssetName (GOOS p) (GOARCH p)) = (KindMother, Platform_String p, True)"
proof -
  have "\<not> HasSuffix (MotherAssetName (GOOS p) (GOARCH p)) ChecksumSuffix"
    using assms by (auto simp: MotherPlatforms_def asset_defs dest!: HasSuffix_last)
  with assms show ?thesis
    unfolding AssetKindOf_def MotherAssetName_def
    by (auto simp: builtFor_mem Platform_String_def)
qed

lemma AssetKindOf_agent_mem:
  assumes "AssetKindOf asset = (KindAgent, plat, True)"
  shows "asset \<in> (\<lambda>p. AssetName (GOOS p) (GOARCH p)) ` set Platforms"
proof -
  obtain p where "p \<in> set Platforms" "plat = Platform_String p"
    using AssetKindOf_Agent [OF assms] by (auto simp: builtFor_mem)
  then show ?thesis
    using AssetKindOf_Agent [OF assms] by (intro image_eqI [of _ _ p]) (simp_all add: AssetName_def Platform_String_def)
qed

lemma AssetKindOf_mother_mem:
  assumes "AssetKindOf asset = (KindMother, plat, True)"
  shows "asset \<in> (\<lambda>p. MotherAssetName (GOOS p) (GOARCH p)) ` set MotherPlatforms"
proof -
  obtain p where "p \<in> set MotherPlatforms" "plat = Platform_String p"
    using AssetKindOf_Mother [OF assms] by (auto simp: builtFor_mem)
  then show ?thesis
    using AssetKindOf_Mother [OF assms]
    by (intro image_eqI [of _ _ p]) (simp_all add: MotherAssetName_def Platform_String_def)
qed

lemma ParseChecksum_Inr:
  "ParseChecksum lr raw = Inr dig \<Longrightarrow> length dig = 64 \<and> list_all is_hex dig"
  by (auto simp: ParseChecksum_def Let_def sha256HexLen_def split: list.splits if_splits)

lemma fields_from_word:
  assumes "\<forall>(r, b) \<in> set rs. \<not> rune_is_space r"
  shows "fields_from cur (rs @ ss) = fields_from (cur @ concat (map snd rs)) ss"
  using assms by (induction rs arbitrary: cur) auto

lemma hex_not_space: "is_hex c \<Longrightarrow> \<not> rune_is_space (byte c)"
  by (auto simp: is_hex_def rune_is_space_def between_def)

lemma hex_ascii: "is_hex c \<Longrightarrow> byte c < 128"
  by (auto simp: is_hex_def between_def)

lemma runes_append_ascii: "\<forall>c \<in> set s. byte c < 128 \<Longrightarrow> runes (s @ t) = map (\<lambda>c. (byte c, [c])) s @ runes t"
  by (induction s) (simp_all add: decode_rune_ascii)

lemma Fields_hex:
  assumes "list_all is_hex s" "s \<noteq> []" "t = [] \<or> (\<exists>c u. t = c # u \<and> byte c < 128 \<and> rune_is_space (byte c))"
  shows "\<exists>fs. Fields (s @ t) = s # fs"
proof -
  have s: "\<forall>c \<in> set s. is_hex c" using assms(1) by (simp add: list_all_iff)
  then have "runes (s @ t) = map (\<lambda>c. (byte c, [c])) s @ runes t"
    by (intro runes_append_ascii) (simp add: hex_ascii)
  then have "Fields (s @ t) = fields_from s (runes t)"
    using s by (simp add: Fields_def fields_from_word hex_not_space comp_def)
  with assms(2,3) show ?thesis by (auto simp: decode_rune_ascii)
qed

lemma is_hex_lower: "is_hex c \<Longrightarrow> is_hex (lower_char c)"
  by (auto simp: is_hex_def lower_char_def between_def byte_char_of)

text \<open>What \<open>sha256sum\<close> writes, and a bare digest, both parse to the digest.\<close>

lemma ParseChecksum_hex:
  assumes "list_all is_hex s" "length s = 64" "t = [] \<or> (\<exists>c u. t = c # u \<and> byte c < 128 \<and> rune_is_space (byte c))"
  shows "ParseChecksum lr (s @ t) = Inr (map lower_char s)"
proof -
  have ne: "s \<noteq> []" using assms(2) by auto
  obtain fs where fs: "Fields (s @ t) = s # fs" using Fields_hex [OF assms(1) ne assms(3)] by blast
  have low: "list_all (\<lambda>c. byte c < 128) s" "list_all is_hex (map lower_char s)"
    using assms(1) by (auto simp: list_all_iff hex_ascii is_hex_lower)
  show ?thesis
    unfolding ParseChecksum_def fs by (simp add: ToLower_def low assms(2) sha256HexLen_def)
qed

lemma map_lower_hex_encode: "\<forall>b \<in> set bs. b < 256 \<Longrightarrow>
    list_all is_hex (hex_encode bs) \<and> map lower_char (hex_encode bs) = hex_encode bs"
  by (induction bs) (auto simp: hex_encode_def hex_digit_hex)

section \<open>Properties\<close>

text \<open>
  C21. Asset names round trip and the two families never mix: reading back the name of any
  platform in a build matrix gives that family and platform, a mother's name is never an
  agent's, whatever the platforms, and a name that reads as one family with a supported
  platform is exactly that family's name of a platform it is built for.
\<close>

theorem asset_names_roundtrip:
  "list_all (\<lambda>p. AssetKindOf (AssetName (GOOS p) (GOARCH p)) = (KindAgent, Platform_String p, True)) Platforms \<and>
   list_all (\<lambda>p. AssetKindOf (MotherAssetName (GOOS p) (GOARCH p)) = (KindMother, Platform_String p, True))
     MotherPlatforms \<and>
   AssetName g a \<noteq> MotherAssetName g' a' \<and>
   (case AssetKindOf asset of
      (KindAgent, plat, True) \<Rightarrow> asset \<in> (\<lambda>p. AssetName (GOOS p) (GOARCH p)) ` set Platforms
    | (KindMother, plat, True) \<Rightarrow> asset \<in> (\<lambda>p. MotherAssetName (GOOS p) (GOARCH p)) ` set MotherPlatforms
    | (KindNone, plat, ok) \<Rightarrow> \<not> ok
    | _ \<Rightarrow> True)"
proof -
  have none: "AssetKindOf asset = (KindNone, plat, ok) \<Longrightarrow> \<not> ok" for plat ok
    by (auto simp: AssetKindOf_def split: if_splits option.splits)
  obtain k plat ok where kind: "AssetKindOf asset = (k, plat, ok)" by (cases "AssetKindOf asset")
  have "case (k, plat, ok) of
      (KindAgent, plat, True) \<Rightarrow> asset \<in> (\<lambda>p. AssetName (GOOS p) (GOARCH p)) ` set Platforms
    | (KindMother, plat, True) \<Rightarrow> asset \<in> (\<lambda>p. MotherAssetName (GOOS p) (GOARCH p)) ` set MotherPlatforms
    | (KindNone, plat, ok) \<Rightarrow> \<not> ok
    | _ \<Rightarrow> True"
  proof (cases k)
    case KindNone
    with kind none show ?thesis by simp
  next
    case KindAgent
    with kind AssetKindOf_agent_mem show ?thesis by (cases ok) auto
  next
    case KindMother
    with kind AssetKindOf_mother_mem show ?thesis by (cases ok) auto
  qed
  with kind show ?thesis
    by (simp add: list_all_iff AssetKindOf_AssetName AssetKindOf_MotherAssetName
        families_differ [symmetric])
qed

text \<open>
  A checksum file parses to a digest or not at all: what \<open>ParseChecksum\<close> returns is
  always 64 hexadecimal digits, so an error page never becomes a checksum; and the digest of
  any 32 bytes, bare or followed by white space and anything else, parses back to itself.
\<close>

theorem ParseChecksum_digest:
  assumes "length bs = 32" "\<forall>b \<in> set bs. b < 256"
  shows "ParseChecksum lr (hex_encode bs) = Inr (hex_encode bs) \<and>
    ParseChecksum lr (hex_encode bs @ '' '' @ rest) = Inr (hex_encode bs) \<and>
    (case ParseChecksum lr raw of Inl e \<Rightarrow> True | Inr dig \<Rightarrow> length dig = 64 \<and> list_all is_hex dig)"
proof -
  note h = map_lower_hex_encode [OF assms(2)]
  have l: "length (hex_encode bs) = 64" using assms(1) by (simp add: length_hex_encode)
  have sp: "byte CHR '' '' < 128 \<and> rune_is_space (byte CHR '' '')"
    by (simp add: byte_def rune_is_space_def)
  have "ParseChecksum lr (hex_encode bs @ []) = Inr (hex_encode bs)"
    using ParseChecksum_hex [of "hex_encode bs" "[]" lr] h l by simp
  moreover have "ParseChecksum lr (hex_encode bs @ '' '' @ rest) = Inr (hex_encode bs)"
    using ParseChecksum_hex [of "hex_encode bs" "'' '' @ rest" lr] h l sp by simp
  ultimately show ?thesis by (auto split: sum.split dest: ParseChecksum_Inr)
qed

theorem ParseChecksum_digest_witness:
  "ParseChecksum (\<lambda>r. r) (hex_encode (replicate 32 171) @ '' '' @ ''feast-watch-agent-linux-amd64'') =
     Inr (hex_encode (replicate 32 171))"
  using ParseChecksum_digest [of "replicate 32 171" "\<lambda>r. r" "''feast-watch-agent-linux-amd64''"]
  by (simp add: set_replicate_conv_if)

end
