(* ===== verification/Catalogue.thy ===== *)
theory Catalogue
  imports Release Release_Index
begin

text \<open>
  The build catalogue the mother serves from: \<open>mother/build/store.go\<close>. The directory is the
  catalogue, so its state is what \<open>os.ReadDir\<close> and \<open>os.Stat\<close> answer for it: a listing
  of version directories, each with its own listing. File names are single path elements. The
  iteration order of the map of present names is the parameter \<open>ord\<close>.
\<close>

section \<open>The directory\<close>

datatype 'a read_dir = Missing | ReadError string | Listing "'a list"

record dir_entry =
  de_Name :: string
  de_IsDir :: bool
  de_Files :: "string read_dir"

type_synonym catalogue = "dir_entry read_dir"

section \<open>Reading it\<close>

definition path_join :: "string list \<Rightarrow> string" where
  "path_join ps = Join ps ''/''"

definition stat_asset :: "catalogue \<Rightarrow> string \<Rightarrow> string \<Rightarrow> bool" where
  "stat_asset cat version asset =
     (case cat of
        Listing es \<Rightarrow> list_ex (\<lambda>e. de_Name e = version \<and>
            (case de_Files e of Listing fs \<Rightarrow> asset \<in> set fs | _ \<Rightarrow> False)) es
      | _ \<Rightarrow> False)"

definition Ensure :: "string \<Rightarrow> catalogue \<Rightarrow> string \<Rightarrow> string \<Rightarrow> string + string" where
  "Ensure dir cat version asset =
     (if \<not> stat_asset cat version asset
      then Inl (asset @ '' of '' @ version @ '' has not been built on this mother'')
      else Inr (path_join [dir, version, asset]))"

text \<open>One name of a version directory: the build it offers, if its checksum is beside it.\<close>

definition offered :: "string list \<Rightarrow> string \<Rightarrow> (kind \<times> string) option" where
  "offered present name =
     (case AssetKindOf name of (kind, plat, ok) \<Rightarrow>
        if \<not> ok \<or> name @ ChecksumSuffix \<notin> set present then None else Some (kind, plat))"

definition of_kind :: "kind \<Rightarrow> string list \<Rightarrow> string list \<Rightarrow> string list" where
  "of_kind k present names =
     List.map_filter (\<lambda>n. case offered present n of
         Some (k', plat) \<Rightarrow> if k' = k then Some plat else None | None \<Rightarrow> None) names"

definition platformsOf ::
  "(string list \<Rightarrow> string list) \<Rightarrow> string read_dir \<Rightarrow> string list \<times> string list" where
  "platformsOf ord files =
     (case files of
        Listing names \<Rightarrow>
          let present = remdups names in
          (sort (of_kind KindAgent present (ord present)), sort (of_kind KindMother present (ord present)))
      | _ \<Rightarrow> ([], []))"

definition scan_entry ::
  "(string list \<Rightarrow> string list) \<Rightarrow> build list \<times> build list \<Rightarrow> dir_entry \<Rightarrow> build list \<times> build list" where
  "scan_entry ord acc e =
     (case acc of (agents, mother) \<Rightarrow>
        if \<not> de_IsDir e \<or> HasPrefix (de_Name e) ''.'' then (agents, mother)
        else (case platformsOf ord (de_Files e) of (ap, mp) \<Rightarrow>
          (if length ap > 0 then agents @ [\<lparr>bl_Version = de_Name e, bl_Platforms = ap\<rparr>] else agents,
           if length mp > 0 then mother @ [\<lparr>bl_Version = de_Name e, bl_Platforms = mp\<rparr>] else mother)))"

definition Fetch :: "(string list \<Rightarrow> string list) \<Rightarrow> catalogue \<Rightarrow> fetched" where
  "Fetch ord cat =
     (case cat of
        Missing \<Rightarrow> Inr ([], [], False)
      | ReadError e \<Rightarrow> Inl e
      | Listing es \<Rightarrow>
          (case foldl (scan_entry ord) ([], []) es of (agents, mother) \<Rightarrow>
             Inr (SortDescending agents, SortDescending mother, False)))"

section \<open>Lemmas\<close>

lemma mset_map_filter: "mset xs = mset ys \<Longrightarrow> mset (List.map_filter f xs) = mset (List.map_filter f ys)"
  unfolding List.map_filter_def by (metis mset_filter mset_map)

lemma platformsOf_order:
  assumes "any_order ord"
  shows "platformsOf ord files = platformsOf as_listed files"
proof -
  have "mset (of_kind k p (ord q)) = mset (of_kind k p q)" for k p q
    unfolding of_kind_def by (rule mset_map_filter) (use assms in \<open>simp add: any_order_def\<close>)
  then have "sort (of_kind k p (ord q)) = sort (of_kind k p q)" for k p q
    by (intro properties_for_sort) simp_all
  then show ?thesis by (simp add: platformsOf_def Let_def as_listed_def split: read_dir.split)
qed

lemma scan_entry_order:
  assumes "any_order ord"
  shows "scan_entry ord = scan_entry as_listed"
  unfolding scan_entry_def platformsOf_order [OF assms] ..

lemma Fetch_order:
  assumes "any_order ord"
  shows "Fetch ord cat = Fetch as_listed cat"
  unfolding Fetch_def scan_entry_order [OF assms] ..

lemma offered_Some:
  assumes "offered present n = Some (k, plat)"
  shows "n @ ChecksumSuffix \<in> set present"
    and "k = KindAgent \<Longrightarrow> n = assetPrefix @ plat \<and> builtFor Platforms plat"
    and "k = KindMother \<Longrightarrow> n = motherAssetPrefix @ plat \<and> builtFor MotherPlatforms plat"
  using assms AssetKindOf_Agent [of n plat True] AssetKindOf_Mother [of n plat True]
  by (auto simp: offered_def split: prod.splits if_splits)

lemma set_of_kind: "plat \<in> set (of_kind k present names) \<longleftrightarrow> (\<exists>n \<in> set names. offered present n = Some (k, plat))"
  by (force simp: of_kind_def List.map_filter_def split: option.splits prod.splits if_splits)

lemma platformsOf_agent:
  assumes "plat \<in> set (fst (platformsOf as_listed files))"
  shows "\<exists>fs. files = Listing fs \<and> assetPrefix @ plat \<in> set fs \<and>
    (assetPrefix @ plat) @ ChecksumSuffix \<in> set fs \<and> builtFor Platforms plat"
proof -
  from assms obtain fs n where files: "files = Listing fs" and n: "n \<in> set fs"
    and off: "offered (remdups fs) n = Some (KindAgent, plat)"
    by (auto simp: platformsOf_def Let_def set_of_kind split: read_dir.splits)
  from offered_Some [OF off] files n show ?thesis by auto
qed

lemma platformsOf_mother:
  assumes "plat \<in> set (snd (platformsOf as_listed files))"
  shows "\<exists>fs. files = Listing fs \<and> motherAssetPrefix @ plat \<in> set fs \<and>
    (motherAssetPrefix @ plat) @ ChecksumSuffix \<in> set fs \<and> builtFor MotherPlatforms plat"
proof -
  from assms obtain fs n where files: "files = Listing fs" and n: "n \<in> set fs"
    and off: "offered (remdups fs) n = Some (KindMother, plat)"
    by (auto simp: platformsOf_def Let_def set_of_kind split: read_dir.splits)
  from offered_Some [OF off] files n show ?thesis by auto
qed

definition build_of :: "bool \<Rightarrow> dir_entry \<Rightarrow> build list" where
  "build_of mother e =
     (if \<not> de_IsDir e \<or> HasPrefix (de_Name e) ''.'' then []
      else let ps = (if mother then snd else fst) (platformsOf as_listed (de_Files e)) in
        if ps = [] then [] else [\<lparr>bl_Version = de_Name e, bl_Platforms = ps\<rparr>])"

lemma scan_entries: "foldl (scan_entry as_listed) (a, m) es =
    (a @ concat (map (build_of False) es), m @ concat (map (build_of True) es))"
proof (induction es arbitrary: a m)
  case (Cons e es)
  have "scan_entry as_listed (a, m) e = (a @ build_of False e, m @ build_of True e)"
    by (auto simp: scan_entry_def build_of_def Let_def split: prod.split)
  then show ?case by (simp add: Cons.IH)
qed simp

lemma Fetch_lists:
  "Fetch as_listed (Listing es) = Inr (SortDescending (concat (map (build_of False) es)),
     SortDescending (concat (map (build_of True) es)), False)"
  by (simp add: Fetch_def scan_entries)

lemma set_SortDescending [simp]: "set (SortDescending bs) = set bs"
  by (rule mset_eq_setD) (rule mset_SortDescending)

lemma Fetch_mem:
  assumes "any_order ord" "Fetch ord cat = Inr (agents, mother, nm)"
  shows "b \<in> set agents \<Longrightarrow> \<exists>es e. cat = Listing es \<and> e \<in> set es \<and> b \<in> set (build_of False e)"
    and "b \<in> set mother \<Longrightarrow> \<exists>es e. cat = Listing es \<and> e \<in> set es \<and> b \<in> set (build_of True e)"
    and "\<not> nm"
  using assms(2) unfolding Fetch_order [OF assms(1)]
  by (cases cat; auto simp: Fetch_lists Fetch_def [of _ Missing] Fetch_def [of _ "ReadError e" for e])+

lemma build_of_stat:
  assumes "b \<in> set (build_of m e)" "plat \<in> set (bl_Platforms b)" "e \<in> set es"
  shows "stat_asset (Listing es) (bl_Version b) ((if m then motherAssetPrefix else assetPrefix) @ plat) \<and>
    stat_asset (Listing es) (bl_Version b) (((if m then motherAssetPrefix else assetPrefix) @ plat) @ ChecksumSuffix) \<and>
    builtFor (if m then MotherPlatforms else Platforms) plat"
proof -
  have b: "bl_Version b = de_Name e"
    "plat \<in> set ((if m then snd else fst) (platformsOf as_listed (de_Files e)))"
    using assms(1,2) by (auto simp: build_of_def Let_def split: if_splits)
  then show ?thesis
    using platformsOf_agent [of plat "de_Files e"] platformsOf_mother [of plat "de_Files e"] assms(3)
    by (cases m) (auto simp: stat_asset_def list_ex_iff intro!: bexI [of _ e])
qed

text \<open>
  The contract between the index and the bytes: what the index offers, the source of files has,
  the binary and its checksum both.
\<close>

locale binary_source =
  fixes offers :: "kind \<Rightarrow> string \<Rightarrow> string \<Rightarrow> bool" and ensure :: "string \<Rightarrow> string \<Rightarrow> string + string"
  assumes agent_has: "offers KindAgent version plat \<Longrightarrow>
      isl (ensure version (assetPrefix @ plat)) = False \<and>
      isl (ensure version ((assetPrefix @ plat) @ ChecksumSuffix)) = False"
    and mother_has: "offers KindMother version plat \<Longrightarrow>
      isl (ensure version (motherAssetPrefix @ plat)) = False \<and>
      isl (ensure version ((motherAssetPrefix @ plat) @ ChecksumSuffix)) = False"
begin

text \<open>Every file a client is pointed at for an offered build is there to be served.\<close>

lemma served:
  assumes "offers k version plat" and "k = KindAgent \<and> asset = assetPrefix @ plat \<or>
      k = KindMother \<and> asset = motherAssetPrefix @ plat"
  obtains path path' where "ensure version asset = Inr path" "ensure version (asset @ ChecksumSuffix) = Inr path'"
  using assms agent_has [of version plat] mother_has [of version plat]
  by (cases "ensure version asset"; cases "ensure version (asset @ ChecksumSuffix)") auto

end

definition index_offers :: "fetched \<Rightarrow> kind \<Rightarrow> string \<Rightarrow> string \<Rightarrow> bool" where
  "index_offers r k version plat =
     (case r of
        Inl e \<Rightarrow> False
      | Inr (agents, mother, nm) \<Rightarrow>
          list_ex (\<lambda>b. bl_Version b = version \<and> plat \<in> set (bl_Platforms b))
            (case k of KindAgent \<Rightarrow> agents | KindMother \<Rightarrow> mother | KindNone \<Rightarrow> []))"

lemma index_offers_stat:
  assumes "any_order ord" "index_offers (Fetch ord cat) k version plat"
  shows "k \<noteq> KindNone \<and>
    stat_asset cat version ((if k = KindMother then motherAssetPrefix else assetPrefix) @ plat) \<and>
    stat_asset cat version (((if k = KindMother then motherAssetPrefix else assetPrefix) @ plat) @ ChecksumSuffix) \<and>
    builtFor (if k = KindMother then MotherPlatforms else Platforms) plat"
proof -
  from assms(2) obtain agents mother nm where f: "Fetch ord cat = Inr (agents, mother, nm)"
    by (auto simp: index_offers_def split: sum.splits)
  note mem = Fetch_mem [OF assms(1) f]
  show ?thesis
  proof (cases k)
    case KindNone
    with assms(2) f show ?thesis by (simp add: index_offers_def)
  next
    case KindAgent
    with assms(2) f obtain b where b: "b \<in> set agents" "bl_Version b = version" "plat \<in> set (bl_Platforms b)"
      by (auto simp: index_offers_def list_ex_iff)
    from mem(1) [OF b(1)] obtain es e where "cat = Listing es" "e \<in> set es" "b \<in> set (build_of False e)" by blast
    with build_of_stat [of b False e plat es] b KindAgent show ?thesis by simp
  next
    case KindMother
    with assms(2) f obtain b where b: "b \<in> set mother" "bl_Version b = version" "plat \<in> set (bl_Platforms b)"
      by (auto simp: index_offers_def list_ex_iff)
    from mem(2) [OF b(1)] obtain es e where "cat = Listing es" "e \<in> set es" "b \<in> set (build_of True e)" by blast
    with build_of_stat [of b True e plat es] b KindMother show ?thesis by simp
  qed
qed

interpretation catalogue: binary_source "index_offers (Fetch as_listed cat)" "Ensure dir cat"
  using index_offers_stat [of as_listed cat KindAgent] index_offers_stat [of as_listed cat KindMother]
  by unfold_locales (auto simp: Ensure_def)

section \<open>Properties\<close>

text \<open>
  Everything the index offers can be downloaded: if a fetch of the catalogue lists a
  platform under a version, in either family and whatever the iteration order, then that
  family's binary and its checksum are both there, the platform is one of the family's build
  matrix.
\<close>

theorem Fetch_offers_downloadable:
  assumes "any_order ord" "index_offers (Fetch ord cat) k version plat"
  shows "let asset = (if k = KindMother then motherAssetPrefix else assetPrefix) @ plat in
    Ensure dir cat version asset = Inr (path_join [dir, version, asset]) \<and>
    Ensure dir cat version (asset @ ChecksumSuffix) = Inr (path_join [dir, version, asset @ ChecksumSuffix]) \<and>
    AssetKindOf asset = (k, plat, True)"
proof -
  note s = index_offers_stat [OF assms]
  have "AssetKindOf ((if k = KindMother then motherAssetPrefix else assetPrefix) @ plat) = (k, plat, True)"
  proof (cases "k = KindMother")
    case True
    with s obtain p where "p \<in> set MotherPlatforms" "plat = Platform_String p" by (auto simp: builtFor_mem)
    with AssetKindOf_MotherAssetName [of p] True show ?thesis
      by (simp add: MotherAssetName_def Platform_String_def)
  next
    case False
    with s have "k = KindAgent" by (cases k) auto
    moreover from s False obtain p where "p \<in> set Platforms" "plat = Platform_String p" by (auto simp: builtFor_mem)
    ultimately show ?thesis
      using AssetKindOf_AssetName [of p] by (simp add: AssetName_def Platform_String_def)
  qed
  with s show ?thesis by (simp add: Let_def Ensure_def)
qed

definition sample_catalogue :: catalogue where
  "sample_catalogue = Listing [\<lparr>de_Name = ''v1.2.0'', de_IsDir = True, de_Files = Listing
     [''feast-watch-agent-linux-amd64'', ''feast-watch-agent-linux-amd64.sha256'',
      ''feast-watch-agent-linux-arm64'']\<rparr>]"

theorem Fetch_offers_downloadable_witness:
  "isl (Ensure ''d'' sample_catalogue ''v1.2.0'' ''feast-watch-agent-linux-amd64.sha256'') = False \<and>
   \<not> index_offers (Fetch as_listed sample_catalogue) KindAgent ''v1.2.0'' ''linux-arm64''"
proof -
  have off: "index_offers (Fetch as_listed sample_catalogue) KindAgent ''v1.2.0'' ''linux-amd64''" by code_simp
  have "any_order as_listed" by simp
  from Fetch_offers_downloadable [OF this off, of "''d''"]
  have "isl (Ensure ''d'' sample_catalogue ''v1.2.0'' ''feast-watch-agent-linux-amd64.sha256'') = False"
    by (simp add: Let_def assetPrefix_def ChecksumSuffix_def)
  moreover have "\<not> index_offers (Fetch as_listed sample_catalogue) KindAgent ''v1.2.0'' ''linux-arm64''" by code_simp
  ultimately show ?thesis ..
qed

end
