(* ===== verification/API_Reads.thy ===== *)
theory API_Reads
  imports API_Base Catalogue
begin

text \<open>
  What else the mother only reads: the live tail (\<open>mother/api/live.go\<close>), downloads
  (\<open>mother/api/binaries.go\<close>) and the install script (\<open>mother/api/install.go\<close>). A served file
  is the path handed to the library, which answers it; a rendered script is the value of the
  parameter \<open>render\<close>.
\<close>

section \<open>The live tail\<close>

definition maxLiveMetrics :: nat where "maxLiveMetrics = 8"

record 'v live_response =
  lr_WindowSeconds :: int
  lr_ServerTime :: int
  lr_Series :: "(string \<times> 'v point list) list"

definition parseLiveMetrics :: "string \<Rightarrow> string + string list" where
  "parseLiveMetrics raw =
     (let out = filter (\<lambda>p. p \<noteq> '''') (map TrimSpace (Split raw CHR '','')) in
      if length out = 0 then Inl ''metric is required''
      else if length out > maxLiveMetrics then Inl ''too many metrics; at most 8 per request''
      else Inr out)"

definition parseLiveSince :: "string \<Rightarrow> string + int" where
  "parseLiveSince raw =
     (if raw = '''' then Inr 0
      else (case ParseInt raw of
          None \<Rightarrow> Inl ''since must be a unix timestamp in seconds''
        | Some since \<Rightarrow> if since < 0 then Inl ''since must be a unix timestamp in seconds'' else Inr since))"

text \<open>The loop over the metrics asked for; the clock is read once for each.\<close>

fun live_series ::
  "(nat \<Rightarrow> int) \<Rightarrow> int \<Rightarrow> int \<Rightarrow> string list \<Rightarrow> (string \<times> 'v point list) list \<Rightarrow> 'v live
     \<Rightarrow> (string \<times> 'v point list) list \<times> 'v live" where
  "live_series clock serverID since [] out s = (out, s)"
| "live_series clock serverID since (m # ms) out s =
     (case SeriesSince (clock (length ms)) serverID m since s of
        (points, s') \<Rightarrow> live_series clock serverID since ms (AList.update m points out) s')"

definition handleLive ::
  "int \<Rightarrow> (nat \<Rightarrow> int) \<Rightarrow> string \<Rightarrow> string \<Rightarrow> string \<Rightarrow> 'v api \<Rightarrow> 'v live_response response \<times> 'v api" where
  "handleLive now clock raw_server raw_metric raw_since a =
     (case ParseInt raw_server of
        None \<Rightarrow> (refuse 400 ''server_id is required'', a)
      | Some serverID \<Rightarrow>
          (case parseLiveMetrics raw_metric of
             Inl msg \<Rightarrow> (refuse 400 msg, a)
           | Inr metrics \<Rightarrow>
               (case parseLiveSince raw_since of
                  Inl msg \<Rightarrow> (refuse 400 msg, a)
                | Inr since \<Rightarrow>
                    (case live_series clock serverID since metrics [] (ap_live a) of
                       (series, live') \<Rightarrow>
                         (answer 200 \<lparr>lr_WindowSeconds = lv_window (ap_live a) sdiv Second,
                            lr_ServerTime = unix now, lr_Series = series\<rparr>, a\<lparr>ap_live := live'\<rparr>)))))"

section \<open>Downloads\<close>

text \<open>\<open>BinarySource\<close>: the resolver of the catalogue, absent on a mother wired without one.\<close>

type_synonym binary_resolver = "(string \<Rightarrow> string \<Rightarrow> string + string) option"

definition latestTagFor :: "string \<Rightarrow> snapshot \<Rightarrow> string option" where
  "latestTagFor asset releases =
     (case AssetKindOf (TrimSuffix asset ChecksumSuffix) of (kind, plat, ok) \<Rightarrow>
        if \<not> ok then None
        else (case (if kind = KindMother then sn_Mother (Snapshot releases) else sn_Builds (Snapshot releases)) of
            [] \<Rightarrow> None | b # bs \<Rightarrow> Some (bl_Version b)))"

definition indexKnows :: "string \<Rightarrow> snapshot \<Rightarrow> bool" where
  "indexKnows tag releases \<longleftrightarrow>
     list_ex (\<lambda>builds. list_ex (\<lambda>b. bl_Version b = tag) builds)
       [sn_Builds (Snapshot releases), sn_Mother (Snapshot releases)]"

definition serveAsset :: "binary_resolver \<Rightarrow> string \<Rightarrow> string \<Rightarrow> 'v api \<Rightarrow> string response" where
  "serveAsset binaries tag asset a =
     (case binaries of
        None \<Rightarrow> refuse 404 ''this mother serves no binaries''
      | Some ensure \<Rightarrow>
          let binary = TrimSuffix asset ChecksumSuffix in
          if \<not> snd (snd (AssetKindOf binary)) then refuse 404 ''no such build''
          else if \<not> indexKnows tag (ap_releases a) then refuse 404 ''no such release''
          else (case ensure tag binary of
              Inl e \<Rightarrow> refuse 404 ''this build is not in the catalogue''
            | Inr path \<Rightarrow> answer 200 (if asset \<noteq> binary then path @ ChecksumSuffix else path)))"

definition handleDownload :: "binary_resolver \<Rightarrow> string \<Rightarrow> string \<Rightarrow> 'v api \<Rightarrow> string response" where
  "handleDownload binaries tag asset a = serveAsset binaries tag asset a"

definition handleDownloadLatest :: "binary_resolver \<Rightarrow> string \<Rightarrow> 'v api \<Rightarrow> string response" where
  "handleDownloadLatest binaries asset a =
     (case latestTagFor asset (ap_releases a) of
        None \<Rightarrow> refuse 404 ''404 page not found''
      | Some tag \<Rightarrow> serveAsset binaries tag asset a)"

section \<open>Install scripts\<close>

record script_fields =
  sf_MotherURL :: string
  sf_Token :: string
  sf_ServerName :: string

definition handleInstallScript ::
  "(script_fields \<Rightarrow> string option) \<Rightarrow> string \<Rightarrow> 'v api \<Rightarrow> string response \<times> 'v api" where
  "handleInstallScript render path_token a =
     (case call (ServerByToken (TrimSuffix path_token ''.sh'')) a of
        (Inl e, a') \<Rightarrow> (refuse 404 ''404 page not found'', a')
      | (Inr srv, a') \<Rightarrow>
          (case render \<lparr>sf_MotherURL = ap_publicURL a', sf_Token = srv_Token srv, sf_ServerName = srv_Name srv\<rparr> of
             None \<Rightarrow> (refuse 500 ''install script unavailable'', a')
           | Some script \<Rightarrow> (answer 200 script, a')))"

section \<open>What a live read returns\<close>

lemma SeriesSince_state: "snd (SeriesSince now i m since s) = evictLocked now i s"
  by (simp add: SeriesSince_def Let_def)

text \<open>An eviction at one time and a read at a later one is a read at the later one.\<close>

lemma SeriesSince_evicted:
  assumes "live_ok s" "now \<le> later"
  shows "fst (SeriesSince later i m since (evictLocked now i s)) = fst (SeriesSince later i m since s)"
proof -
  have "live_cutoff now s \<le> live_cutoff later s"
    using assms(2) by (simp add: live_cutoff_def unix_mono)
  then show ?thesis
    using assms(1) by (auto simp: SeriesSince_points live_ok_evict points_of_evict live_cutoff_def intro!: filter_cong)
qed

text \<open>The clock never runs backwards between the readings of one request.\<close>

definition forward :: "(nat \<Rightarrow> int) \<Rightarrow> bool" where
  "forward clock \<longleftrightarrow> (\<forall>m n. m \<le> n \<longrightarrow> clock n \<le> clock m)"

lemma live_series_reads:
  assumes "live_ok s" "forward clock"
  shows "live_ok (snd (live_series clock i since ms out s)) \<and>
    fst ` set (fst (live_series clock i since ms out s)) = fst ` set out \<union> set ms \<and>
    (\<forall>m ps. map_of (fst (live_series clock i since ms out s)) m = Some ps \<longrightarrow>
       (m \<in> set ms \<longrightarrow> (\<exists>n < length ms. ps = fst (SeriesSince (clock n) i m since s))) \<and>
       (m \<notin> set ms \<longrightarrow> map_of out m = Some ps))"
  using assms(1)
proof (induction ms arbitrary: out s)
  case (Cons x ms)
  let ?s = "evictLocked (clock (length ms)) i s" and ?ps = "fst (SeriesSince (clock (length ms)) i x since s)"
  have step: "live_series clock i since (x # ms) out s = live_series clock i since ms (AList.update x ?ps out) ?s"
    using SeriesSince_state [of "clock (length ms)" i x since s] by (simp add: case_prod_unfold)
  have later: "fst (SeriesSince (clock n) i m since ?s) = fst (SeriesSince (clock n) i m since s)" if "n < length ms" for n m
    using that assms(2) by (intro SeriesSince_evicted [OF Cons.prems]) (simp add: forward_def)
  note IH = Cons.IH [OF live_ok_evict [OF Cons.prems, where now = "clock (length ms)" and j = i], where out = "AList.update x ?ps out"]
  have "(m \<in> set (x # ms) \<longrightarrow> (\<exists>n < length (x # ms). ps = fst (SeriesSince (clock n) i m since s))) \<and>
       (m \<notin> set (x # ms) \<longrightarrow> map_of out m = Some ps)"
    if "map_of (fst (live_series clock i since ms (AList.update x ?ps out) ?s)) m = Some ps" for m ps
  proof (cases "m \<in> set ms")
    case True
    with IH that obtain n where "n < length ms" "ps = fst (SeriesSince (clock n) i m since ?s)" by blast
    with later [of n m] have "n < length (x # ms)" "ps = fst (SeriesSince (clock n) i m since s)" by simp_all
    with True show ?thesis by (intro conjI impI exI [of _ n]) simp_all
  next
    case False
    with IH that have "map_of (AList.update x ?ps out) m = Some ps" by blast
    then have "(if m = x then ?ps else the (map_of out m)) = ps" "m \<noteq> x \<longrightarrow> map_of out m = Some ps"
      by (auto simp: map_of_update simp del: map_of_eq_Some_iff split: if_splits)
    with False show ?thesis by (intro conjI impI exI [of _ "length ms"]) (simp_all split: if_splits)
  qed
  moreover have "fst ` set (AList.update x ?ps out) \<union> set ms = fst ` set out \<union> set (x # ms)"
    using arg_cong [OF update_keys [of x ?ps out], of set] by (auto split: if_splits)
  ultimately show ?case unfolding step
    by (intro conjI allI impI) (use IH in \<open>simp_all only: simp_thms\<close>)
qed simp

text \<open>
  A live read answers every metric it was asked for, at most eight of them, with exactly the
  points held for it that are newer than \<open>since\<close> and inside the window at some reading of
  the clock during the request; no table changes, and the live tail stays well formed. Anything
  it refuses, it refuses unchanged.
\<close>

theorem handleLive_answers:
  assumes run: "handleLive now clock rs rm rsince a = (resp, a')" and ok: "live_ok (ap_live a)"
    and clock: "forward clock"
  shows "ap_db a' = ap_db a \<and> live_ok (ap_live a') \<and> (rs_status resp \<noteq> 200 \<longrightarrow> a' = a) \<and>
    (rs_status resp = 200 \<longrightarrow> (\<exists>i metrics since out. ParseInt rs = Some i \<and> parseLiveMetrics rm = Inr metrics \<and>
       parseLiveSince rsince = Inr since \<and> 0 \<le> since \<and> length metrics \<le> 8 \<and>
       rs_data resp = Some out \<and> fst ` set (lr_Series out) = set metrics \<and>
       (\<forall>m ps. map_of (lr_Series out) m = Some ps \<longrightarrow> (\<exists>n. ps = filter (\<lambda>p. since < pt_TS p \<and>
          unix (clock n - lv_window (ap_live a)) \<le> pt_TS p) (points_of i m (ap_live a))))))"
proof (cases "\<exists>i metrics since. ParseInt rs = Some i \<and> parseLiveMetrics rm = Inr metrics \<and> parseLiveSince rsince = Inr since")
  case False
  with run have "rs_status resp = 400 \<and> a' = a"
    by (auto simp: handleLive_def refuse_def split: option.splits sum.splits)
  with ok show ?thesis by simp
next
  case True
  then obtain i metrics since where p: "ParseInt rs = Some i" "parseLiveMetrics rm = Inr metrics" "parseLiveSince rsince = Inr since"
    by blast
  have b: "0 \<le> since" "length metrics \<le> 8"
    using p(2,3) by (auto simp: parseLiveSince_def parseLiveMetrics_def maxLiveMetrics_def Let_def split: if_splits option.splits)
  obtain series live' where l: "live_series clock i since metrics [] (ap_live a) = (series, live')" by fastforce
  note r = live_series_reads [OF ok clock, where i = i and since = since and ms = metrics and out = "[]", unfolded l fst_conv snd_conv]
  have "\<exists>n. ps = filter (\<lambda>p. since < pt_TS p \<and> unix (clock n - lv_window (ap_live a)) \<le> pt_TS p) (points_of i m (ap_live a))"
    if "map_of series m = Some ps" for m ps
  proof -
    have "m \<in> set metrics" using r that by (auto dest: map_of_SomeD)
    with r that obtain n where "ps = fst (SeriesSince (clock n) i m since (ap_live a))" by blast
    then show ?thesis using SeriesSince_points [OF ok] by (auto simp: live_cutoff_def)
  qed
  then show ?thesis
    using run p b l r by (auto simp: handleLive_def answer_def)
qed

theorem handleLive_answers_witness:
  "\<exists>out. rs_data (fst (handleLive 0 (\<lambda>n. 0) ''1'' ''cpu'' '''' (New (empty_db :: int db) ''k'' NewCache))) = Some out \<and>
     fst ` set (lr_Series out) = {''cpu''}"
proof -
  let ?a = "New (empty_db :: int db) ''k'' NewCache"
  let ?run = "handleLive 0 (\<lambda>n. 0) ''1'' ''cpu'' '''' ?a"
  have "TrimSpace ''cpu'' = ''cpu''"
    by (intro TrimSpace_id, subst runes_ascii) (simp_all add: byte_def rune_is_space_def)
  then have m: "parseLiveMetrics ''cpu'' = Inr [''cpu'']"
    by (simp add: parseLiveMetrics_def maxLiveMetrics_def)
  have i: "ParseInt ''1'' = Some 1" by code_simp
  have ok: "live_ok (ap_live ?a)" by (simp add: New_def live_ok_new)
  have "rs_status (fst ?run) = 200"
    by (simp add: handleLive_def i m parseLiveSince_def answer_def split: prod.split)
  with handleLive_answers [OF surjective_pairing [of ?run] ok] m show ?thesis
    by (auto simp: forward_def)
qed

section \<open>What can be downloaded\<close>


text \<open>The names a release carries, read off the two halves of the check.\<close>

definition binary_names :: "string set" where
  "binary_names = (\<lambda>p. AssetName (GOOS p) (GOARCH p)) ` set Platforms \<union>
     (\<lambda>p. MotherAssetName (GOOS p) (GOARCH p)) ` set MotherPlatforms"

lemma binary_names_kind: "snd (snd (AssetKindOf b)) \<longleftrightarrow> b \<in> binary_names"
proof
  assume ok: "snd (snd (AssetKindOf b))"
  then obtain k plat where k: "AssetKindOf b = (k, plat, True)" by (metis prod.collapse)
  then have "k \<noteq> KindNone" by (auto simp: AssetKindOf_def split: if_splits option.splits)
  with k AssetKindOf_agent_mem AssetKindOf_mother_mem show "b \<in> binary_names"
    by (cases k) (auto simp: binary_names_def)
qed (auto simp: binary_names_def AssetKindOf_AssetName AssetKindOf_MotherAssetName)

lemma binary_no_checksum: "b \<in> binary_names \<Longrightarrow> TrimSuffix b ChecksumSuffix = b"
  by (auto simp flip: binary_names_kind simp: AssetKindOf_def TrimSuffix_def split: if_splits)

lemma set_ExpectedAssets: "set ExpectedAssets = binary_names \<union> (\<lambda>b. b @ ChecksumSuffix) ` binary_names"
  by (auto simp: ExpectedAssets_def binary_names_def Let_def)

lemma asset_allowed:
  "snd (snd (AssetKindOf (TrimSuffix asset ChecksumSuffix))) \<longleftrightarrow> asset \<in> set ExpectedAssets"
  using TrimSuffix_cases [of asset ChecksumSuffix]
  by (auto simp: binary_names_kind set_ExpectedAssets binary_no_checksum simp del: self_append_conv append_self_conv)

lemma serveAsset_eq:
  "serveAsset (Some (Ensure dir cat)) tag asset a =
     (if asset \<notin> set ExpectedAssets then refuse 404 ''no such build''
      else if \<not> indexKnows tag (ap_releases a) then refuse 404 ''no such release''
      else if \<not> stat_asset cat tag (TrimSuffix asset ChecksumSuffix) then refuse 404 ''this build is not in the catalogue''
      else answer 200 (path_join [dir, tag, asset]))"
  using TrimSuffix_cases [of asset ChecksumSuffix]
  by (auto simp: serveAsset_def Let_def asset_allowed Ensure_def path_join_def)

lemma indexKnows_iff:
  "indexKnows tag rel \<longleftrightarrow> (\<exists>b \<in> set (sn_Builds rel) \<union> set (sn_Mother rel). bl_Version b = tag)"
  by (auto simp: indexKnows_def list_ex_iff)

text \<open>What \<open>os.ReadDir\<close> promises of a name: it is one path component.\<close>

definition plain_names :: "catalogue \<Rightarrow> bool" where
  "plain_names cat \<longleftrightarrow> (case cat of Listing es \<Rightarrow> \<forall>e \<in> set es. CHR ''/'' \<notin> set (de_Name e) | _ \<Rightarrow> True)"

text \<open>An index as the cache holds it after a fetch of the catalogue.\<close>

definition index_of :: "(string list \<Rightarrow> string list) \<Rightarrow> catalogue \<Rightarrow> snapshot \<Rightarrow> bool" where
  "index_of ord cat rel \<longleftrightarrow> any_order ord \<and>
     (\<exists>nm. Fetch ord cat = Inr (sn_Builds rel, sn_Mother rel, nm))"

lemma index_of_known:
  assumes "index_of ord cat rel" "indexKnows tag rel"
  obtains es e where "cat = Listing es" "e \<in> set es" "de_Name e = tag" "\<not> HasPrefix tag ''.''"
proof -
  from assms obtain nm b where f: "any_order ord" "Fetch ord cat = Inr (sn_Builds rel, sn_Mother rel, nm)"
    and b: "b \<in> set (sn_Builds rel) \<union> set (sn_Mother rel)" "bl_Version b = tag"
    by (auto simp: index_of_def indexKnows_iff)
  then obtain es e m where "cat = Listing es" "e \<in> set es" "b \<in> set (build_of m e)"
    using Fetch_mem(1,2) [OF f] by blast
  with b(2) show ?thesis
    by (intro that [of es e]) (auto simp: build_of_def Let_def split: if_splits)
qed

lemma no_slash: "asset \<in> set ExpectedAssets \<Longrightarrow> CHR ''/'' \<notin> set asset"
  by (auto simp: set_ExpectedAssets binary_names_def Platforms_def MotherPlatforms_def asset_defs)

section \<open>Properties of reads\<close>

text \<open>
  C24. Downloads are an allowlist: whatever tag and asset name arrive from the network, the
  only files served are the twelve names a release carries, under a directory of the catalogue
  the index was read from; the path is those two components below the catalogue, neither holds a
  separator, the tag does not begin with a dot, and the binary is in the catalogue. Everything
  else is answered 404.
\<close>

theorem handleDownload_allowlist:
  assumes index: "index_of ord cat0 (ap_releases a)" and names: "plain_names cat0"
  shows "(if asset \<in> set ExpectedAssets \<and> indexKnows tag (ap_releases a) \<and>
       stat_asset cat tag (TrimSuffix asset ChecksumSuffix)
     then handleDownload (Some (Ensure dir cat)) tag asset a = answer 200 (path_join [dir, tag, asset]) \<and>
       CHR ''/'' \<notin> set tag \<and> CHR ''/'' \<notin> set asset \<and> \<not> HasPrefix tag ''.''
     else rs_status (handleDownload (Some (Ensure dir cat)) tag asset a) = 404) \<and>
    rs_status (handleDownload None tag asset a) = 404"
proof -
  have "CHR ''/'' \<notin> set tag \<and> \<not> HasPrefix tag ''.''" if "indexKnows tag (ap_releases a)"
    by (rule index_of_known [OF index that]) (use names in \<open>auto simp: plain_names_def\<close>)
  moreover have "serveAsset None tag asset a = refuse 404 ''this mother serves no binaries''"
    by (simp add: serveAsset_def)
  ultimately show ?thesis
    using no_slash [of asset] unfolding handleDownload_def serveAsset_eq by (simp add: refuse_def)
qed

lemma sample_index: "index_of as_listed sample_catalogue
    (snd (Refresh 0 (Fetch as_listed sample_catalogue) NewCache))"
  by (auto simp: index_of_def Fetch_lists sample_catalogue_def Refresh_def)

theorem handleDownload_allowlist_witness:
  "rs_status (handleDownload (Some (Ensure ''/var'' sample_catalogue)) ''../etc'' ''passwd''
     (New (empty_db :: int db) ''k'' (snd (Refresh 0 (Fetch as_listed sample_catalogue) NewCache)))) = 404"
proof -
  have "''passwd'' \<notin> set ExpectedAssets"
    by (auto simp: set_ExpectedAssets binary_names_def Platforms_def MotherPlatforms_def asset_defs)
  moreover have "plain_names sample_catalogue" by (simp add: plain_names_def sample_catalogue_def)
  ultimately show ?thesis
    using handleDownload_allowlist [of as_listed sample_catalogue
        "New (empty_db :: int db) ''k'' (snd (Refresh 0 (Fetch as_listed sample_catalogue) NewCache))"
        "''passwd''" "''../etc''" sample_catalogue "''/var''"] sample_index
    by (simp add: New_def)
qed

text \<open>
  The moving pointer hands out the newest: a latest download of an agent asset that is
  answered serves that asset of the version every other indexed agent version is older than,
  whatever the index order was computed from; and if that version has a build for the platform,
  it is answered.
\<close>

theorem handleDownloadLatest_newest:
  assumes index: "index_of ord cat (ap_releases a)" and p: "p \<in> set Platforms"
    and vs: "\<forall>b \<in> set (sn_Builds (ap_releases a)). canonical (bl_Version b)"
      "distinct (map bl_Version (sn_Builds (ap_releases a)))"
  defines "asset \<equiv> AssetName (GOOS p) (GOARCH p)"
  shows "(\<forall>path. handleDownloadLatest (Some (Ensure dir cat)) asset a = answer 200 path \<longrightarrow>
      (\<exists>b \<in> set (sn_Builds (ap_releases a)). path = path_join [dir, bl_Version b, asset] \<and>
         (\<forall>b' \<in> set (sn_Builds (ap_releases a)). b' \<noteq> b \<longrightarrow> naturalLess (bl_Version b') (bl_Version b)))) \<and>
    (\<forall>b bs. sn_Builds (ap_releases a) = b # bs \<and> Platform_String p \<in> set (bl_Platforms b) \<longrightarrow>
      handleDownloadLatest (Some (Ensure dir cat)) asset a = answer 200 (path_join [dir, bl_Version b, asset]))"
proof -
  let ?bs = "sn_Builds (ap_releases a)"
  have mem: "asset \<in> binary_names" using p by (auto simp: asset_def binary_names_def)
  then have trim: "TrimSuffix asset ChecksumSuffix = asset" by (rule binary_no_checksum)
  have latest: "latestTagFor asset (ap_releases a) = (case ?bs of [] \<Rightarrow> None | b # bs \<Rightarrow> Some (bl_Version b))"
    using AssetKindOf_AssetName [OF p] by (simp add: latestTagFor_def trim) (simp add: asset_def)
  from index obtain nm where f: "any_order ord" "Fetch ord cat = Inr (?bs, sn_Mother (ap_releases a), nm)"
    by (auto simp: index_of_def)
  then have "\<exists>as. SortDescending as = ?bs"
    by (auto simp: Fetch_def SortDescending_def sort_slice_def split: read_dir.splits prod.splits intro: exI [of _ "[]"])
  then obtain as where as: "?bs = SortDescending as" by metis
  have "mset as = mset ?bs" by (simp add: as mset_SortDescending)
  then have "\<forall>b \<in> set as. canonical (bl_Version b)" "distinct (map bl_Version as)"
    using vs mset_eq_setD [of as ?bs] mset_eq_imp_distinct_iff [of "map bl_Version as" "map bl_Version ?bs"] by auto
  from sorted_SortDescending [OF this] have sorted: "sorted_wrt (\<lambda>a b. naturalLess (bl_Version b) (bl_Version a)) ?bs"
    by (simp add: as)
  have offered: "stat_asset cat (bl_Version b) asset" if "?bs = b # bs" "Platform_String p \<in> set (bl_Platforms b)" for b bs
  proof -
    have "index_offers (Fetch ord cat) KindAgent (bl_Version b) (Platform_String p)"
      using f(2) that by (simp add: index_offers_def)
    from index_offers_stat [OF f(1) this] show ?thesis
      by (simp add: asset_def AssetName_def Platform_String_def)
  qed
  show ?thesis
  proof (cases ?bs)
    case Nil
    then show ?thesis by (simp add: handleDownloadLatest_def latest refuse_def answer_def)
  next
    case (Cons b bs)
    have "indexKnows (bl_Version b) (ap_releases a)" by (simp add: indexKnows_iff Cons)
    then have serve: "handleDownloadLatest (Some (Ensure dir cat)) asset a =
        (if stat_asset cat (bl_Version b) asset then answer 200 (path_join [dir, bl_Version b, asset])
         else refuse 404 ''this build is not in the catalogue'')"
      using mem by (simp add: handleDownloadLatest_def latest Cons serveAsset_eq trim set_ExpectedAssets)
    have "naturalLess (bl_Version b') (bl_Version b)" if "b' \<in> set bs" for b'
      using sorted that by (simp add: Cons)
    with serve offered Cons show ?thesis
      by (auto simp: refuse_def answer_def)
  qed
qed

lemma sample_builds: "sn_Builds (snd (Refresh 0 (Fetch as_listed sample_catalogue) NewCache)) =
    [\<lparr>bl_Version = ''v1.2.0'', bl_Platforms = [''linux-amd64'']\<rparr>]"
  by code_simp

theorem handleDownloadLatest_newest_witness:
  "handleDownloadLatest (Some (Ensure ''/var'' sample_catalogue)) ''feast-watch-agent-linux-amd64''
     (New (empty_db :: int db) ''k'' (snd (Refresh 0 (Fetch as_listed sample_catalogue) NewCache))) =
   answer 200 (path_join [''/var'', ''v1.2.0'', ''feast-watch-agent-linux-amd64''])"
proof -
  let ?a = "New (empty_db :: int db) ''k'' (snd (Refresh 0 (Fetch as_listed sample_catalogue) NewCache))"
  have rel: "sn_Builds (ap_releases ?a) = [\<lparr>bl_Version = ''v1.2.0'', bl_Platforms = [''linux-amd64'']\<rparr>]"
    by (simp add: New_def sample_builds)
  have idx: "index_of as_listed sample_catalogue (ap_releases ?a)" by (simp add: New_def sample_index)
  have p: "\<lparr>GOOS = ''linux'', GOARCH = ''amd64''\<rparr> \<in> set Platforms" by (simp add: Platforms_def)
  have c: "canonical ''v1.2.0''" by code_simp
  have v: "\<forall>b \<in> set (sn_Builds (ap_releases ?a)). canonical (bl_Version b)"
    "distinct (map bl_Version (sn_Builds (ap_releases ?a)))" unfolding rel using c by simp_all
  have "sn_Builds (ap_releases ?a) = \<lparr>bl_Version = ''v1.2.0'', bl_Platforms = [''linux-amd64'']\<rparr> # [] \<and>
      Platform_String \<lparr>GOOS = ''linux'', GOARCH = ''amd64''\<rparr> \<in> set (bl_Platforms \<lparr>bl_Version = ''v1.2.0'', bl_Platforms = [''linux-amd64'']\<rparr>)"
    unfolding rel by (simp add: Platform_String_def)
  from handleDownloadLatest_newest [OF idx p v, THEN conjunct2, rule_format, OF this, of "''/var''"]
  show ?thesis by (simp only: AssetName_def assetPrefix_def platform.simps build.simps append.simps)
qed

end
