(* ===== verification/API_Settings.thy ===== *)
theory API_Settings
  imports API_Base
begin

text \<open>
  The settings handlers (\<open>mother/api/settings.go\<close>): a save validates the payload against the
  stored settings, writes every field and hands the live window to the store that holds it in
  memory. The order the fields are written in and the clock readings of the eviction a new
  window causes are arguments.
\<close>

definition handleGetSettings :: "'v api \<Rightarrow> settings response \<times> 'v api" where
  "handleGetSettings a = (case call GetSettings a of
       (Inl e, a') \<Rightarrow> (storage_failure, a') | (Inr s, a') \<Rightarrow> (answer 200 s, a'))"

definition handlePutSettings ::
  "((string \<times> string) list \<Rightarrow> (string \<times> string) list) \<Rightarrow> (int \<Rightarrow> int) \<Rightarrow> settings_payload option \<Rightarrow> 'v api
     \<Rightarrow> settings response \<times> 'v api" where
  "handlePutSettings ord clock body a =
     (case body of
        None \<Rightarrow> (refuse 400 ''malformed settings'', a)
      | Some p \<Rightarrow>
          (case call GetSettings a of
             (Inl e, a1) \<Rightarrow> (storage_failure, a1)
           | (Inr current, a1) \<Rightarrow>
               (case validate p current of
                  Inl msg \<Rightarrow> (refuse 400 msg, a1)
                | Inr s \<Rightarrow>
                    (case call (SaveSettings ord s) a1 of
                       (Inl e, a2) \<Rightarrow> (storage_failure, a2)
                     | (Inr u, a2) \<Rightarrow> (answer 200 s, ApplySettings clock s a2)))))"

section \<open>Properties\<close>

lemma save_settings_failed:
  assumes ord: "any_order ord" and tab: "settings_tab_ok (settings_tab (ap_db a))"
    and old: "scan_settings defaultSettings (settings_tab (ap_db a)) = Inr old"
    and v: "validate p old = Inr s" and w: "call (SaveSettings ord s) a = (Inl e, a')"
  shows "\<exists>new. scan_settings defaultSettings (settings_tab (ap_db a')) = Inr new \<and>
    (\<forall>k \<in> setting_keys. setting_of new k \<in> {setting_of old k, setting_of s k}) \<and>
    (settings_ok old \<longrightarrow> settings_ok new)"
proof -
  have "settings_int64 s" by (rule validate_int64 [OF v scan_settings_int64 [OF old defaults_int64]])
  from saved_mixed [OF ord this tab call_fields(1) [OF w]] old obtain new where
    "scan_settings defaultSettings (settings_tab (ap_db a')) = Inr new"
    "\<forall>k \<in> setting_keys. setting_of new k \<in> {setting_of old k, setting_of s k}" by auto
  with validate_settings_ok [OF v] settings_ok_mixed [of old s new] show ?thesis by blast
qed

lemma save_settings_done:
  assumes ord: "any_order ord" and tab: "settings_tab_ok (settings_tab (ap_db a))"
    and old: "scan_settings defaultSettings (settings_tab (ap_db a)) = Inr old"
    and v: "validate p old = Inr s" and w: "call (SaveSettings ord s) a = (Inr u, a')"
  shows "scan_settings defaultSettings (settings_tab (ap_db a')) = Inr s"
proof -
  have "settings_int64 s" by (rule validate_int64 [OF v scan_settings_int64 [OF old defaults_int64]])
  from saved_scan(1) [OF ord this tab] call_fields(1) [OF w] show ?thesis by simp
qed

text \<open>
  C25. Saving settings: a 200 means the payload was complete and in range, a read then returns
  what was answered, and the live store runs with the new window; a 400 changes nothing; a save
  that failed part way leaves the live window as it was and a readable table in which every
  field is the old value or the one being saved; and in every case settings that were in range
  stay in range, so no interval or cutoff computed from them can misbehave.
\<close>

theorem handlePutSettings_saves:
  assumes run: "handlePutSettings ord clock body a = (resp, a')" and ord: "any_order ord"
    and tab: "settings_tab_ok (settings_tab (ap_db a))"
  shows "(rs_status resp = 200 \<longrightarrow> (\<exists>p s. body = Some p \<and> resp = answer 200 s \<and>
       p_Interval p = Some (Interval s) \<and> 2 \<le> Interval s \<and> Interval s \<le> 3600 \<and>
       scan_settings defaultSettings (settings_tab (ap_db a')) = Inr s \<and>
       ap_live a' = SetWindow clock (wrap64 (LiveWindowMinutes s * Minute)) (ap_live a))) \<and>
    (rs_status resp = 400 \<longrightarrow> tables (ap_db a') = tables (ap_db a) \<and> ap_live a' = ap_live a) \<and>
    (rs_status resp \<notin> {200, 400} \<longrightarrow> rs_status resp = 500 \<and> ap_live a' = ap_live a \<and>
       (\<exists>old new. scan_settings defaultSettings (settings_tab (ap_db a)) = Inr old \<and>
          scan_settings defaultSettings (settings_tab (ap_db a')) = Inr new \<and>
          (\<forall>k \<in> setting_keys. setting_of new k = setting_of old k \<or>
             (\<exists>p s. body = Some p \<and> validate p old = Inr s \<and> setting_of new k = setting_of s k)))) \<and>
    (\<exists>old new. scan_settings defaultSettings (settings_tab (ap_db a)) = Inr old \<and>
       scan_settings defaultSettings (settings_tab (ap_db a')) = Inr new \<and> (settings_ok old \<longrightarrow> settings_ok new))"
proof -
  obtain old where old: "scan_settings defaultSettings (settings_tab (ap_db a)) = Inr old"
    using scan_settings_Inr [of "settings_tab (ap_db a)" defaultSettings] tab by (auto simp: settings_tab_ok_def)
  show ?thesis
  proof (cases body)
    case None
    with run old show ?thesis by (auto simp: handlePutSettings_def refuse_def)
  next
    case (Some p)
    obtain r a1 where g: "call GetSettings a = (r, a1)" by fastforce
    note ro = call_tables [OF g read_only_GetSettings]
    have tab1: "settings_tab (ap_db a1) = settings_tab (ap_db a)" by (rule tables_eqD [OF ro(1)])
    show ?thesis
    proof (cases r)
      case (Inl e)
      with run Some g ro old tab1 show ?thesis by (auto simp: handlePutSettings_def refuse_def)
    next
      case (Inr current)
      with GetSettings_Inr [OF call_fields(1) [OF g [unfolded Inr]]] old have cur: "current = old" by simp
      show ?thesis
      proof (cases "validate p old")
        case (Inl msg)
        with run Some g \<open>r = Inr current\<close> cur ro old tab1 show ?thesis
          by (auto simp: handlePutSettings_def refuse_def)
      next
        case (Inr s)
        note v = validate_Inr [OF Inr]
        obtain x a2 where w: "call (SaveSettings ord s) a1 = (x, a2)" by fastforce
        have live: "ap_live a2 = ap_live a" using ro(2) by (subst call_fields(2) [OF w]) simp
        have tab1': "settings_tab_ok (settings_tab (ap_db a1))" using tab tab1 by simp
        show ?thesis
        proof (cases x)
          case (Inl e)
          have r: "resp = storage_failure" "a' = a2"
            using run Some g \<open>r = Inr current\<close> cur \<open>validate p old = Inr s\<close> w Inl by (auto simp: handlePutSettings_def)
          from save_settings_failed [OF ord tab1' old [folded tab1] \<open>validate p old = Inr s\<close> w [unfolded Inl]]
          obtain new where "scan_settings defaultSettings (settings_tab (ap_db a2)) = Inr new"
            "\<forall>k \<in> setting_keys. setting_of new k \<in> {setting_of old k, setting_of s k}"
            "settings_ok old \<longrightarrow> settings_ok new" by blast
          with r live old Some \<open>validate p old = Inr s\<close> show ?thesis by (auto simp: refuse_def)
        next
          case (Inr u)
          have r: "resp = answer 200 s" "a' = ApplySettings clock s a2"
            using run Some g \<open>r = Inr current\<close> cur \<open>validate p old = Inr s\<close> w Inr by (auto simp: handlePutSettings_def)
          from save_settings_done [OF ord tab1' old [folded tab1] \<open>validate p old = Inr s\<close> w [unfolded Inr]]
            r live Some v old validate_settings_ok [OF \<open>validate p old = Inr s\<close>] show ?thesis
            by (auto simp: ApplySettings_def answer_def)
        qed
      qed
    qed
  qed
qed

theorem handlePutSettings_saves_witness:
  "scan_settings defaultSettings (settings_tab (ap_db (snd (handlePutSettings rev (\<lambda>i. 0)
     (Some \<lparr>p_Interval = Some 30, p_HeartbeatMissThreshold = Some 3, p_Retention1mDays = Some 15, p_Retention1hDays = Some 75,
        p_LiveWindowMinutes = None, p_RetentionRawHours = Some 24\<rparr>)
     (New (empty_db :: int db) ''k'' NewCache))))) = Inr (defaultSettings\<lparr>Interval := 30\<rparr>)"
proof -
  let ?p = "\<lparr>p_Interval = Some 30, p_HeartbeatMissThreshold = Some 3, p_Retention1mDays = Some 15, p_Retention1hDays = Some 75,
        p_LiveWindowMinutes = None, p_RetentionRawHours = Some 24\<rparr>"
  let ?a = "New (empty_db :: int db) ''k'' NewCache"
  let ?run = "handlePutSettings rev (\<lambda>i. 0) (Some ?p) ?a"
  have v: "validate ?p defaultSettings = Inr (defaultSettings\<lparr>Interval := 30\<rparr>)"
    by (simp add: validate_def settings_fields_def settings_bounds defaultSettings_def)
  have db: "ap_db ?a = empty_db" by (simp add: New_def)
  have tab: "settings_tab_ok (settings_tab (ap_db ?a))" unfolding db by (simp add: settings_tab_ok_def empty_db_def)
  have get: "GetSettings (ap_db ?a) = (Inr defaultSettings, ap_db ?a)"
    unfolding db by (simp add: GetSettings_healthy healthy_def empty_db_def)
  have save: "\<exists>d. SaveSettings rev s (ap_db ?a) = (Inr (), d)" for s
    unfolding db by (simp add: SaveSettings_def settings_pairs_def bnd_def ret_def empty_db_def modify_def exec_def
        take_fault_def put_setting_def)
  then obtain d where d: "SaveSettings rev (defaultSettings\<lparr>Interval := 30\<rparr>) (ap_db ?a) = (Inr (), d)" by blast
  have "fst ?run = answer 200 (defaultSettings\<lparr>Interval := 30\<rparr>)"
    by (simp add: handlePutSettings_def call_def get v d)
  with handlePutSettings_saves [OF surjective_pairing [of ?run] _ tab] show ?thesis
    by (auto simp: any_order_def answer_def)
qed

end
