(* ===== verification/Self_Update.thy ===== *)
theory Self_Update
  imports Release
begin

text \<open>
  Downloading a released binary, verifying it and putting it in place:
  \<open>shared/selfupdate/selfupdate.go\<close>. The HTTP client is the parameter \<open>get\<close> (a reply or
  a transport error per address), the hash is the parameter \<open>sha256\<close>, and the outcome of
  each file operation is an argument. Files are an association list from paths.
\<close>

section \<open>The network and the disk\<close>

text \<open>A reply: its status, the bytes of its body, and the error that ends the body early.\<close>

datatype http_reply = NoReply string | Reply nat string "string option"

record disk_file =
  fl_Bytes :: string
  fl_Mode :: nat

type_synonym files = "(string \<times> disk_file) list"

record disk =
  dk_CreateTemp :: "string + string"
  dk_Write :: "string option"
  dk_Chmod :: "string option"
  dk_Sync :: "string option"
  dk_Close :: "string option"
  dk_Rename :: "string option"

datatype update_error =
    Transport string
  | BadStatus string nat
  | TooLarge nat
  | BadChecksum string string checksum_error
  | Mismatch string string
  | FileError string

section \<open>Transfer\<close>

definition MaxBinarySize :: nat where "MaxBinarySize = 268435456"
definition maxChecksumSize :: nat where "maxChecksumSize = 1024"

text \<open>Reading a body through \<open>io.LimitReader(body, n)\<close>.\<close>

definition read_limited :: "nat \<Rightarrow> string \<Rightarrow> string option \<Rightarrow> string + string" where
  "read_limited n body broken =
     (if n \<le> length body then Inr (take n body)
      else (case broken of Some e \<Rightarrow> Inl e | None \<Rightarrow> Inr body))"

definition fetch :: "(string \<Rightarrow> http_reply) \<Rightarrow> string \<Rightarrow> nat \<Rightarrow> update_error + string" where
  "fetch get url limit =
     (case get url of
        NoReply e \<Rightarrow> Inl (Transport e)
      | Reply status body broken \<Rightarrow>
          if status \<noteq> 200 then Inl (BadStatus url status)
          else (case read_limited (limit + 1) body broken of
              Inl e \<Rightarrow> Inl (Transport e)
            | Inr bytes \<Rightarrow> if length bytes > limit then Inl (TooLarge limit) else Inr bytes))"

definition first_error :: "update_error option \<Rightarrow> string option \<Rightarrow> update_error option" where
  "first_error err e = (case err of Some x \<Rightarrow> Some x | None \<Rightarrow> map_option FileError e)"

definition download ::
  "(string \<Rightarrow> http_reply) \<Rightarrow> (string \<Rightarrow> nat list) \<Rightarrow> disk \<Rightarrow> string \<Rightarrow> files
     \<Rightarrow> (update_error + string \<times> string) \<times> files" where
  "download get sha256 dk url fs =
     (case get url of
        NoReply e \<Rightarrow> (Inl (Transport e), fs)
      | Reply status body broken \<Rightarrow>
          if status \<noteq> 200 then (Inl (BadStatus url status), fs)
          else (case dk_CreateTemp dk of
              Inl e \<Rightarrow> (Inl (FileError e), fs)
            | Inr tmp \<Rightarrow>
                let copied = (case dk_Write dk of
                        Some e \<Rightarrow> Inl (FileError e)
                      | None \<Rightarrow> (case read_limited (MaxBinarySize + 1) body broken of
                            Inl e \<Rightarrow> Inl (Transport e) | Inr bytes \<Rightarrow> Inr bytes));
                    err = (case copied of
                        Inl e \<Rightarrow> Some e
                      | Inr bytes \<Rightarrow> if length bytes > MaxBinarySize then Some (TooLarge MaxBinarySize) else None);
                    err = first_error err (dk_Chmod dk);
                    err = first_error err (dk_Sync dk);
                    err = first_error err (dk_Close dk)
                in (case (err, copied) of
                      (None, Inr bytes) \<Rightarrow>
                        (Inr (tmp, hex_encode (sha256 bytes)),
                         AList.update tmp \<lparr>fl_Bytes = bytes, fl_Mode = 493\<rparr> fs)
                    | (Some e, _) \<Rightarrow> (Inl e, AList.delete tmp fs)
                    | (None, Inl e) \<Rightarrow> (Inl e, AList.delete tmp fs))))"

definition rename_file :: "string \<Rightarrow> string \<Rightarrow> files \<Rightarrow> files" where
  "rename_file src dest fs =
     (case map_of fs src of None \<Rightarrow> fs | Some f \<Rightarrow> AList.update dest f (AList.delete src fs))"

definition Place ::
  "(string \<Rightarrow> http_reply) \<Rightarrow> (string \<Rightarrow> nat list) \<Rightarrow> (nat \<Rightarrow> nat) \<Rightarrow> disk
     \<Rightarrow> string \<Rightarrow> string \<Rightarrow> string \<Rightarrow> string \<Rightarrow> files \<Rightarrow> (update_error + unit) \<times> files" where
  "Place get sha256 lr dk baseURL tag asset dest fs =
     (case fetch get (DownloadURL baseURL tag (asset @ ChecksumSuffix)) maxChecksumSize of
        Inl e \<Rightarrow> (Inl e, fs)
      | Inr sumRaw \<Rightarrow>
          (case ParseChecksum lr sumRaw of
             Inl e \<Rightarrow> (Inl (BadChecksum tag asset e), fs)
           | Inr wantSum \<Rightarrow>
               (case download get sha256 dk (DownloadURL baseURL tag asset) fs of
                  (Inl e, fs1) \<Rightarrow> (Inl e, fs1)
                | (Inr (tmp, gotSum), fs1) \<Rightarrow>
                    if gotSum \<noteq> wantSum then (Inl (Mismatch tag asset), AList.delete tmp fs1)
                    else (case dk_Rename dk of
                        Some e \<Rightarrow> (Inl (FileError e), AList.delete tmp fs1)
                      | None \<Rightarrow> (Inr (), AList.delete tmp (rename_file tmp dest fs1))))))"

section \<open>Lemmas\<close>

lemma read_limited_Inr: "read_limited (n + 1) body broken = Inr bytes \<Longrightarrow> length bytes \<le> n \<Longrightarrow> bytes = body"
  by (auto simp: read_limited_def split: if_splits option.splits)

lemma read_limited_short: "length body \<le> n \<Longrightarrow> read_limited (n + 1) body None = Inr body"
  by (simp add: read_limited_def)

lemma fetch_Inr:
  assumes "fetch get url limit = Inr raw"
  shows "\<exists>broken. get url = Reply 200 raw broken"
proof -
  from assms obtain body broken where g: "get url = Reply 200 body broken"
    and r: "read_limited (limit + 1) body broken = Inr raw" "length raw \<le> limit"
    by (auto simp: fetch_def simp del: One_nat_def split: http_reply.splits if_splits sum.splits)
  from g read_limited_Inr [OF r] show ?thesis by blast
qed

text \<open>What \<open>os.CreateTemp\<close> promises: a new name, which is not the destination.\<close>

definition temp_ok :: "disk \<Rightarrow> string \<Rightarrow> files \<Rightarrow> bool" where
  "temp_ok dk dest fs \<longleftrightarrow> (case dk_CreateTemp dk of Inl e \<Rightarrow> True
     | Inr tmp \<Rightarrow> tmp \<noteq> dest \<and> tmp \<notin> fst ` set fs)"

lemma delete_absent: "k \<notin> fst ` set fs \<Longrightarrow> AList.delete k fs = fs"
  by (induction fs) auto

lemma delete_update_fresh: "k \<notin> fst ` set fs \<Longrightarrow> AList.delete k (AList.update k v fs) = fs"
  by (induction fs) (auto simp: delete_absent AList.delete_eq filter_id_conv)

lemma download_Inl:
  assumes "download get sha256 dk url fs = (Inl e, fs')" "temp_ok dk dest fs"
  shows "fs' = fs"
  using assms by (auto simp: download_def temp_ok_def Let_def delete_absent
      split: http_reply.splits if_splits sum.splits option.splits)

lemma first_error_None [simp]: "first_error err e = None \<longleftrightarrow> err = None \<and> e = None"
  by (auto simp: first_error_def split: option.splits)

lemma download_Inr:
  assumes "download get sha256 dk url fs = (Inr (tmp, got), fs')"
  shows "\<exists>body broken. get url = Reply 200 body broken \<and> length body \<le> MaxBinarySize \<and>
    dk_CreateTemp dk = Inr tmp \<and> got = hex_encode (sha256 body) \<and>
    fs' = AList.update tmp \<lparr>fl_Bytes = body, fl_Mode = 493\<rparr> fs"
proof -
  obtain status body broken where g: "get url = Reply status body broken" "status = 200"
    and t: "dk_CreateTemp dk = Inr tmp"
    using assms by (auto simp: download_def Let_def split: http_reply.splits if_splits sum.splits option.splits)
  then obtain bytes where b: "read_limited (MaxBinarySize + 1) body broken = Inr bytes"
    "length bytes \<le> MaxBinarySize" "got = hex_encode (sha256 bytes)"
    "fs' = AList.update tmp \<lparr>fl_Bytes = bytes, fl_Mode = 493\<rparr> fs"
    using assms by (auto simp: download_def Let_def split: if_splits sum.splits option.splits)
  from read_limited_Inr [OF b(1,2)] have "bytes = body" .
  with g t b show ?thesis by auto
qed

lemma Place_Inr:
  assumes "Place get sha256 lr dk baseURL tag asset dest fs = (Inr (), fs')" "temp_ok dk dest fs"
  shows "\<exists>raw sumb body b1 b2. get (DownloadURL baseURL tag (asset @ ChecksumSuffix)) = Reply 200 raw b1 \<and>
    get (DownloadURL baseURL tag asset) = Reply 200 body b2 \<and> length body \<le> MaxBinarySize \<and>
    ParseChecksum lr raw = Inr sumb \<and> hex_encode (sha256 body) = sumb \<and>
    fs' = AList.update dest \<lparr>fl_Bytes = body, fl_Mode = 493\<rparr> fs"
proof -
  obtain raw wantSum tmp gotSum fs1 where
    f: "fetch get (DownloadURL baseURL tag (asset @ ChecksumSuffix)) maxChecksumSize = Inr raw"
    and p: "ParseChecksum lr raw = Inr wantSum"
    and d: "download get sha256 dk (DownloadURL baseURL tag asset) fs = (Inr (tmp, gotSum), fs1)"
    and eq: "gotSum = wantSum" and fs': "fs' = AList.delete tmp (rename_file tmp dest fs1)"
    using assms(1) by (auto simp: Place_def split: sum.splits prod.splits if_splits option.splits)
  from f obtain b1 where r: "get (DownloadURL baseURL tag (asset @ ChecksumSuffix)) = Reply 200 raw b1"
    using fetch_Inr by blast
  from download_Inr [OF d] obtain body b2 where b: "get (DownloadURL baseURL tag asset) = Reply 200 body b2"
    "length body \<le> MaxBinarySize" "dk_CreateTemp dk = Inr tmp" "gotSum = hex_encode (sha256 body)"
    "fs1 = AList.update tmp \<lparr>fl_Bytes = body, fl_Mode = 493\<rparr> fs" by blast
  have tmp: "tmp \<noteq> dest" "tmp \<notin> fst ` set fs" using assms(2) b(3) by (auto simp: temp_ok_def)
  have "rename_file tmp dest fs1 = AList.update dest \<lparr>fl_Bytes = body, fl_Mode = 493\<rparr> fs"
    unfolding rename_file_def b(5) by (simp add: map_of_update delete_update_fresh [OF tmp(2)])
  moreover have "tmp \<notin> fst ` set (AList.update dest \<lparr>fl_Bytes = body, fl_Mode = 493\<rparr> fs)"
    using tmp by (simp add: fst_set_update)
  ultimately have "fs' = AList.update dest \<lparr>fl_Bytes = body, fl_Mode = 493\<rparr> fs"
    unfolding fs' by (simp add: delete_absent)
  with r b p eq show ?thesis by blast
qed

lemma Place_Inl:
  assumes "Place get sha256 lr dk baseURL tag asset dest fs = (Inl e, fs')" "temp_ok dk dest fs"
  shows "fs' = fs"
proof -
  have "AList.delete tmp (AList.update tmp f fs) = fs" if "dk_CreateTemp dk = Inr tmp" for tmp f
    using that assms(2) by (intro delete_update_fresh) (simp add: temp_ok_def)
  then show ?thesis
    using assms download_Inl [OF _ assms(2)]
    by (auto simp: Place_def split: sum.splits prod.splits if_splits option.splits dest!: download_Inr)
qed

section \<open>Properties\<close>


definition sample_get :: "string \<Rightarrow> http_reply" where
  "sample_get url = (if HasSuffix url ''.sha256'' then Reply 200 (hex_encode (replicate 32 171)) None
     else Reply 200 ''binary'' None)"

definition sample_disk :: disk where
  "sample_disk = \<lparr>dk_CreateTemp = Inr ''/bin/agent.1.new'', dk_Write = None, dk_Chmod = None,
     dk_Sync = None, dk_Close = None, dk_Rename = None\<rparr>"

lemma sample_Place:
  assumes "\<not> HasSuffix (DownloadURL url tag asset) ''.sha256''"
  shows "fst (Place sample_get (\<lambda>s. replicate 32 171) (\<lambda>r. r) sample_disk url tag asset dest fs) = Inr ()"
    and "sample_get (DownloadURL url tag asset) = Reply 200 ''binary'' None"
proof -
  have p: "ParseChecksum (\<lambda>r. r) (hex_encode (replicate 32 171)) = Inr (hex_encode (replicate 32 171))"
    using ParseChecksum_hex [of "hex_encode (replicate 32 171)" "[]" "\<lambda>r. r"]
      map_lower_hex_encode [of "replicate 32 171"]
    by (simp add: length_hex_encode set_replicate_conv_if del: replicate.simps)
  have l: "length (hex_encode (replicate 32 171)) = 64" "length ''binary'' = 6"
    by (simp_all only: length_hex_encode length_replicate) simp_all
  have "HasSuffix (DownloadURL url tag (asset @ ChecksumSuffix)) ''.sha256''"
    unfolding DownloadURL_def ChecksumSuffix_def by (simp only: append_assoc [symmetric] HasSuffix_append)
  then have g: "sample_get (DownloadURL url tag (asset @ ChecksumSuffix)) =
      Reply 200 (hex_encode (replicate 32 171)) None"
    by (simp add: sample_get_def)
  show u: "sample_get (DownloadURL url tag asset) = Reply 200 ''binary'' None"
    using assms by (simp add: sample_get_def)
  have f: "fetch sample_get (DownloadURL url tag (asset @ ChecksumSuffix)) maxChecksumSize =
      Inr (hex_encode (replicate 32 171))"
    unfolding fetch_def g http_reply.case
    by (subst read_limited_short) (simp_all only: l maxChecksumSize_def, simp_all add: l)
  have "fst (download sample_get (\<lambda>s. replicate 32 171) sample_disk (DownloadURL url tag asset) fs) =
      Inr (''/bin/agent.1.new'', hex_encode (replicate 32 171))"
    unfolding download_def u http_reply.case
    by (subst read_limited_short)
      (simp_all add: MaxBinarySize_def sample_disk_def first_error_def del: replicate.simps)
  then obtain fs1 where d: "download sample_get (\<lambda>s. replicate 32 171) sample_disk
      (DownloadURL url tag asset) fs = (Inr (''/bin/agent.1.new'', hex_encode (replicate 32 171)), fs1)"
    by (metis prod.collapse)
  show "fst (Place sample_get (\<lambda>s. replicate 32 171) (\<lambda>r. r) sample_disk url tag asset dest fs) = Inr ()"
    unfolding Place_def f sum.case p d prod.case by (simp add: sample_disk_def)
qed


end
