(* ===== verification/Updater.thy ===== *)
theory Updater
  imports Self_Update Mother_Row
begin

text \<open>
  The mother converging on the version an operator picked: \<open>mother/selfupdate/updater.go\<close>.
  The state is the store, the files of the host and how often a shutdown was asked for; what
  the host and the network do during one step are arguments. The lemmas bound the downloads
  made for one target by the attempt budget, across failures and restarts.
\<close>

section \<open>Configuration and state\<close>

definition stagedName :: string where "stagedName = ''feast-watch.new''"

record updater_config =
  uc_DownloadBaseURL :: string
  uc_PromotePath :: string
  uc_StageDir :: string
  uc_Platform :: string
  uc_MaxAttempts :: int

text \<open>
  One step's surroundings: \<open>os.Stat\<close> of the helper (\<open>None\<close> an error, otherwise whether it
  is a directory), \<open>os.MkdirAll\<close> of the stage directory, the network and the disk.
\<close>

record host =
  h_stat :: "string \<Rightarrow> bool option"
  h_mkdir :: "string option"
  h_get :: "string \<Rightarrow> http_reply"
  h_disk :: disk

record 'v mother =
  m_db :: "'v db"
  m_files :: files
  m_shutdowns :: nat

definition StagedPath :: "updater_config \<Rightarrow> string" where
  "StagedPath cfg = uc_StageDir cfg @ ''/'' @ stagedName"

definition Supported :: "updater_config \<Rightarrow> host \<Rightarrow> bool" where
  "Supported cfg h \<longleftrightarrow> (if uc_PromotePath cfg = '''' then False else h_stat h (uc_PromotePath cfg) = Some False)"

section \<open>Steps\<close>

definition Reconcile :: "int \<Rightarrow> string \<Rightarrow> ('v, unit) op" where
  "Reconcile now running =
     bnd MotherUpdate (\<lambda>row.
       if mu_DesiredVersion row = '''' then ret ()
       else if mu_DesiredVersion row = running then ClearMotherUpdate (unix now)
       else if mu_StagedVersion row \<noteq> ''''
       then RecordMotherUpdateError (''staged '' @ mu_StagedVersion row @ '' but '' @ running @
              '' is still running: the promote step did not take'')
       else ret ())"

definition lastReason :: "string \<Rightarrow> string" where
  "lastReason msg = (if msg = '''' then ''no reason recorded'' else msg)"

text \<open>\<open>record\<close>: store the reason, ignore a failure to store it, return the original error.\<close>

definition record_reason :: "string \<Rightarrow> 'v db \<Rightarrow> string option \<times> 'v db" where
  "record_reason msg d = (case RecordMotherUpdateError msg d of (r, d') \<Rightarrow> (Some msg, d'))"

text \<open>The host and tag of \<open>strings.Cut(platform, "-")\<close>, without one the whole and nothing.\<close>

definition cut_platform :: "string \<Rightarrow> string \<times> string" where
  "cut_platform p = (case Cut p CHR ''-'' of Some (a, b) \<Rightarrow> (a, b) | None \<Rightarrow> (p, ''''))"

text \<open>
  The step after an attempt has been counted. The result is the error returned, whether a
  transfer was started, and the new state.
\<close>

definition attempt_download ::
  "updater_config \<Rightarrow> (string \<Rightarrow> nat list) \<Rightarrow> (nat \<Rightarrow> nat) \<Rightarrow> (update_error \<Rightarrow> string) \<Rightarrow> (store_error \<Rightarrow> string)
     \<Rightarrow> host \<Rightarrow> string \<Rightarrow> 'v mother \<Rightarrow> (string option \<times> bool) \<times> 'v mother" where
  "attempt_download cfg sha256 lr show_update show_store h version w =
     (case cut_platform (uc_Platform cfg) of (goos, goarch) \<Rightarrow>
        let asset = MotherAssetName goos goarch in
        case h_mkdir h of
          Some e \<Rightarrow> (case record_reason e (m_db w) of (err, d) \<Rightarrow> ((err, False), w\<lparr>m_db := d\<rparr>))
        | None \<Rightarrow>
            (case Place (h_get h) sha256 lr (h_disk h) (uc_DownloadBaseURL cfg) version asset
                    (StagedPath cfg) (m_files w) of
               (Inl e, fs) \<Rightarrow>
                 (case record_reason (show_update e) (m_db w) of
                    (err, d) \<Rightarrow> ((err, True), w\<lparr>m_db := d, m_files := fs\<rparr>))
             | (Inr u, fs) \<Rightarrow>
                 (case StageMotherUpdate version (m_db w) of
                    (Inl e, d) \<Rightarrow> ((Some (show_store e), True), w\<lparr>m_db := d, m_files := fs\<rparr>)
                  | (Inr u, d) \<Rightarrow> ((None, True),
                      w\<lparr>m_db := d, m_files := fs, m_shutdowns := m_shutdowns w + 1\<rparr>))))"

definition result_of :: "(store_error \<Rightarrow> string) \<Rightarrow> store_error + 'a \<Rightarrow> string option" where
  "result_of show_store r = (case r of Inl e \<Rightarrow> Some (show_store e) | Inr a \<Rightarrow> None)"

definition Tick ::
  "updater_config \<Rightarrow> (string \<Rightarrow> nat list) \<Rightarrow> (nat \<Rightarrow> nat) \<Rightarrow> (update_error \<Rightarrow> string) \<Rightarrow> (store_error \<Rightarrow> string)
     \<Rightarrow> host \<Rightarrow> string \<Rightarrow> 'v mother \<Rightarrow> (string option \<times> bool) \<times> 'v mother" where
  "Tick cfg sha256 lr show_update show_store h running w =
     (case MotherUpdate (m_db w) of
        (Inl e, d) \<Rightarrow> ((Some (show_store e), False), w\<lparr>m_db := d\<rparr>)
      | (Inr row, d) \<Rightarrow>
          if mu_DesiredVersion row = '''' \<or> mu_DesiredVersion row = running
          then ((None, False), w\<lparr>m_db := d\<rparr>)
          else if \<not> Supported cfg h then ((None, False), w\<lparr>m_db := d\<rparr>)
          else if mu_Attempts row \<ge> uc_MaxAttempts cfg then
            (case FailMotherUpdate (''gave up on '' @ mu_DesiredVersion row @ '' after '' @
                    Itoa (mu_Attempts row) @ '' attempts: '' @ lastReason (mu_Error row)) d of
               (r, d') \<Rightarrow> ((result_of show_store r, False), w\<lparr>m_db := d'\<rparr>))
          else (case BeginMotherAttempt d of
              (Inl e, d') \<Rightarrow> ((Some (show_store e), False), w\<lparr>m_db := d'\<rparr>)
            | (Inr attempt, d') \<Rightarrow>
                attempt_download cfg sha256 lr show_update show_store h (mu_DesiredVersion row)
                  (w\<lparr>m_db := d'\<rparr>)))"

section \<open>The attempt budget\<close>

text \<open>Downloads still allowed for the standing target.\<close>

definition budget :: "int \<Rightarrow> 'v db \<Rightarrow> int" where
  "budget limit d =
     (if mu_DesiredVersion (mother_intent d) = '''' then 0
      else max 0 (limit - mu_Attempts (mother_intent d)))"

lemma budget_cong: "tables d = tables d' \<Longrightarrow> budget n d = budget n d'"
  unfolding budget_def using mother_intent_cong by metis

lemma budget_nonneg: "0 \<le> budget n d"
  by (simp add: budget_def)

lemma budget_same_intent:
  "mu_DesiredVersion (mother_intent d) = mu_DesiredVersion (mother_intent d') \<Longrightarrow>
   mu_Attempts (mother_intent d) = mu_Attempts (mother_intent d') \<Longrightarrow> budget n d = budget n d'"
  by (simp add: budget_def)

lemma mother_intent_upd_cases:
  "mother_intent (upd_mother f d) = (if mother_row d = None then mother_intent d else f (mother_intent d))"
  by (auto simp: mother_intent_def upd_mother_def split: option.split)

lemma budget_record: "budget n (snd (RecordMotherUpdateError msg d)) = budget n d"
  using record_mother_error.outcome [of msg d]
proof
  assume "tables (snd (RecordMotherUpdateError msg d)) = tables d"
  then show ?thesis by (rule budget_cong)
next
  assume "tables (snd (RecordMotherUpdateError msg d)) = upd_mother (\<lambda>r. r\<lparr>mu_Error := msg\<rparr>) (tables d)"
  then have "mother_intent (snd (RecordMotherUpdateError msg d)) =
      mother_intent (upd_mother (\<lambda>r. r\<lparr>mu_Error := msg\<rparr>) (tables d))"
    by (metis mother_intent_tables)
  then show ?thesis by (intro budget_same_intent) (simp_all add: mother_intent_upd_cases)
qed

lemma budget_stage: "budget n (snd (StageMotherUpdate v d)) = budget n d"
  using stage_mother.outcome [of v d]
proof
  assume "tables (snd (StageMotherUpdate v d)) = tables d"
  then show ?thesis by (rule budget_cong)
next
  assume "tables (snd (StageMotherUpdate v d)) = upd_mother (\<lambda>r. r\<lparr>mu_StagedVersion := v\<rparr>) (tables d)"
  then have "mother_intent (snd (StageMotherUpdate v d)) =
      mother_intent (upd_mother (\<lambda>r. r\<lparr>mu_StagedVersion := v\<rparr>) (tables d))"
    by (metis mother_intent_tables)
  then show ?thesis by (intro budget_same_intent) (simp_all add: mother_intent_upd_cases)
qed

lemma budget_fail: "budget n (snd (FailMotherUpdate msg d)) \<le> budget n d"
  using fail_mother.outcome [of msg d]
proof
  assume "tables (snd (FailMotherUpdate msg d)) = tables d"
  then show ?thesis using budget_cong by (metis order_refl)
next
  assume "tables (snd (FailMotherUpdate msg d)) = upd_mother
     (\<lambda>r. r\<lparr>mu_DesiredVersion := '''', mu_StagedVersion := '''', mu_Error := msg\<rparr>) (tables d)"
  then have i: "mother_intent (snd (FailMotherUpdate msg d)) = mother_intent (upd_mother
     (\<lambda>r. r\<lparr>mu_DesiredVersion := '''', mu_StagedVersion := '''', mu_Error := msg\<rparr>) (tables d))"
    by (metis mother_intent_tables)
  show ?thesis
    unfolding budget_def i by (simp add: mother_intent_upd_cases)
qed

lemma budget_clear: "budget n (snd (ClearMotherUpdate t d)) \<le> budget n d"
  using clear_mother.outcome [of t d]
proof
  assume "tables (snd (ClearMotherUpdate t d)) = tables d"
  then show ?thesis using budget_cong by (metis order_refl)
next
  assume "tables (snd (ClearMotherUpdate t d)) = upsert_mother (zero_mother_update\<lparr>mu_AppliedAt := t\<rparr>)
     (\<lambda>r. r\<lparr>mu_DesiredVersion := '''', mu_StagedVersion := '''', mu_Attempts := 0,
            mu_Error := '''', mu_AppliedAt := t\<rparr>) (tables d)"
  then have "mother_intent (snd (ClearMotherUpdate t d)) = mother_intent (upsert_mother
     (zero_mother_update\<lparr>mu_AppliedAt := t\<rparr>)
     (\<lambda>r. r\<lparr>mu_DesiredVersion := '''', mu_StagedVersion := '''', mu_Attempts := 0,
            mu_Error := '''', mu_AppliedAt := t\<rparr>) (tables d))"
    by (metis mother_intent_tables)
  then have "mu_DesiredVersion (mother_intent (snd (ClearMotherUpdate t d))) = ''''"
    by (simp add: mother_intent_upsert zero_mother_update_def split: option.split)
  then show ?thesis by (simp add: budget_def)
qed

definition spent :: "mother_update \<Rightarrow> mother_update" where
  "spent r = r\<lparr>mu_Attempts := mu_Attempts r + 1, mu_Error := ''''\<rparr>"

lemma budget_spent:
  assumes "tables d' = upd_mother spent (tables d)" "mu_DesiredVersion (mother_intent d) \<noteq> ''''"
    "mu_Attempts (mother_intent d) < n"
  shows "budget n d' = budget n d - 1"
proof -
  have "mother_intent d' = mother_intent (upd_mother spent (tables d))"
    using assms(1) by (metis mother_intent_tables)
  then have "mother_intent d' = spent (mother_intent d)"
    using mother_row_exists [OF assms(2)] by (simp add: mother_intent_upd_cases)
  with assms(2,3) show ?thesis by (simp add: budget_def spent_def)
qed

lemma BeginMotherAttempt_spent:
  "fst (BeginMotherAttempt d) = Inr n \<Longrightarrow> tables (snd (BeginMotherAttempt d)) = upd_mother spent (tables d)"
  "fst (BeginMotherAttempt d) = Inl e \<Longrightarrow>
     tables (snd (BeginMotherAttempt d)) = tables d \<or>
     tables (snd (BeginMotherAttempt d)) = upd_mother spent (tables d)"
  using BeginMotherAttempt_Inr(1) [of d n "snd (BeginMotherAttempt d)"]
    BeginMotherAttempt_Inl [of d e "snd (BeginMotherAttempt d)"]
  by (cases "BeginMotherAttempt d"; auto simp: spent_def [abs_def])+

lemma budget_attempt_download:
  "budget n (m_db (snd (attempt_download cfg sha lr su ss h v w))) = budget n (m_db w)"
proof -
  have r: "budget n (snd (record_reason msg d)) = budget n d" for msg d
    using budget_record [of n msg d] by (cases "RecordMotherUpdateError msg d") (simp add: record_reason_def)
  obtain goos goarch where p: "cut_platform (uc_Platform cfg) = (goos, goarch)" by fastforce
  show ?thesis
  proof (cases "h_mkdir h")
    case (Some e)
    with p r [of e "m_db w"] show ?thesis by (simp add: attempt_download_def Let_def case_prod_unfold)
  next
    case None
    obtain x fs where pl: "Place (h_get h) sha lr (h_disk h) (uc_DownloadBaseURL cfg) v
        (MotherAssetName goos goarch) (StagedPath cfg) (m_files w) = (x, fs)" by fastforce
    obtain y d where st: "StageMotherUpdate v (m_db w) = (y, d)" by fastforce
    have "budget n d = budget n (m_db w)" using budget_stage [of n v "m_db w"] st by simp
    then show ?thesis
      using None p pl st r by (cases x; cases y) (simp_all add: attempt_download_def Let_def case_prod_unfold)
  qed
qed

definition started :: "(string option \<times> bool) \<times> 'v mother \<Rightarrow> int" where
  "started r = (if snd (fst r) then 1 else 0)"

lemma Tick_budget:
  "started (Tick cfg sha lr su ss h running w) + budget (uc_MaxAttempts cfg) (m_db (snd (Tick cfg sha lr su ss h running w)))
     \<le> budget (uc_MaxAttempts cfg) (m_db w)"
proof -
  let ?n = "uc_MaxAttempts cfg"
  obtain q d where q: "MotherUpdate (m_db w) = (q, d)" by fastforce
  show ?thesis
  proof (cases q)
    case (Inl e)
    then have "tables d = tables (m_db w)" using q by (auto simp: MotherUpdate_def dest: query_Inl)
    from budget_cong [OF this] q Inl show ?thesis by (simp add: Tick_def started_def)
  next
    case (Inr row)
    note mu = MotherUpdate_Inr [OF q [unfolded Inr]]
    have d: "budget ?n d = budget ?n (m_db w)" by (rule budget_cong) (rule mu(2))
    consider (stay) "mu_DesiredVersion row = '''' \<or> mu_DesiredVersion row = running \<or> \<not> Supported cfg h"
      | (fail) "\<not> (mu_DesiredVersion row = '''' \<or> mu_DesiredVersion row = running)" "Supported cfg h"
          "mu_Attempts row \<ge> ?n"
      | (go) "\<not> (mu_DesiredVersion row = '''' \<or> mu_DesiredVersion row = running)" "Supported cfg h"
          "mu_Attempts row < ?n" by fastforce
    then show ?thesis
    proof cases
      case stay
      with q Inr d show ?thesis by (auto simp: Tick_def started_def)
    next
      case fail
      with q Inr show ?thesis
        unfolding d [symmetric] by (simp add: Tick_def started_def case_prod_unfold budget_fail)
    next
      case go
      have row: "mu_DesiredVersion (mother_intent d) \<noteq> ''''" "mu_Attempts (mother_intent d) < ?n"
        using go mu mother_intent_cong [OF mu(2)] by auto
      obtain b d' where b: "BeginMotherAttempt d = (b, d')" by fastforce
      show ?thesis
      proof (cases b)
        case (Inl e)
        then have "budget ?n d' \<le> budget ?n d"
          using BeginMotherAttempt_spent(2) [of d e] b budget_cong [of d' d ?n] budget_spent [OF _ row, of d']
          by fastforce
        with q \<open>q = Inr row\<close> b Inl go d show ?thesis by (simp add: Tick_def started_def)
      next
        case (Inr n)
        then have "budget ?n d' = budget ?n d - 1"
          using BeginMotherAttempt_spent(1) [of d n] b budget_spent [OF _ row] by simp
        with q \<open>q = Inr row\<close> b Inr go d
          budget_attempt_download [of ?n cfg sha lr su ss h "mu_DesiredVersion row" "w\<lparr>m_db := d'\<rparr>"]
        show ?thesis by (simp add: Tick_def started_def)
      qed
    qed
  qed
qed

lemma Reconcile_budget: "budget n (snd (Reconcile now running d)) \<le> budget n d"
proof -
  obtain q d0 where q: "MotherUpdate d = (q, d0)" by fastforce
  show ?thesis
  proof (cases q)
    case (Inl e)
    then have "tables d0 = tables d" using q by (auto simp: MotherUpdate_def dest: query_Inl)
    from budget_cong [OF this] q Inl show ?thesis by (simp add: Reconcile_def bnd_def)
  next
    case (Inr row)
    have "budget n d0 = budget n d" by (rule budget_cong) (rule MotherUpdate_Inr(2) [OF q [unfolded Inr]])
    with q Inr budget_clear [of n "unix now" d0] show ?thesis
      by (simp add: Reconcile_def bnd_def ret_def budget_record)
  qed
qed

section \<open>Runs\<close>

text \<open>
  What happens to the updater between two decisions of the operator: ticks, and restarts that
  reconcile, each with its own surroundings and store faults.
\<close>

datatype updater_event =
    Tick_with host string "string option list"
  | Restart int string "string option list"

fun updater_run ::
  "updater_config \<Rightarrow> (string \<Rightarrow> nat list) \<Rightarrow> (nat \<Rightarrow> nat) \<Rightarrow> (update_error \<Rightarrow> string) \<Rightarrow> (store_error \<Rightarrow> string)
     \<Rightarrow> updater_event list \<Rightarrow> 'v mother \<Rightarrow> int \<times> 'v mother" where
  "updater_run cfg sha lr su ss [] w = (0, w)"
| "updater_run cfg sha lr su ss (Tick_with h running fs # es) w =
     (let r = Tick cfg sha lr su ss h running (w\<lparr>m_db := (m_db w)\<lparr>faults := fs\<rparr>\<rparr>);
          (n, w') = updater_run cfg sha lr su ss es (snd r)
      in (started r + n, w'))"
| "updater_run cfg sha lr su ss (Restart now running fs # es) w =
     updater_run cfg sha lr su ss es (w\<lparr>m_db := snd (Reconcile now running ((m_db w)\<lparr>faults := fs\<rparr>))\<rparr>)"

lemma budget_faults [simp]: "budget n (d\<lparr>faults := fs\<rparr>) = budget n d"
  by (rule budget_cong) simp

lemma updater_run_budget:
  "fst (updater_run cfg sha lr su ss es w) + budget (uc_MaxAttempts cfg) (m_db (snd (updater_run cfg sha lr su ss es w)))
     \<le> budget (uc_MaxAttempts cfg) (m_db w)"
proof (induction es arbitrary: w)
  case (Cons e es)
  show ?case
  proof (cases e)
    case (Tick_with h running fs)
    let ?r = "Tick cfg sha lr su ss h running (w\<lparr>m_db := (m_db w)\<lparr>faults := fs\<rparr>\<rparr>)"
    show ?thesis
      using Cons.IH [of "snd ?r"] Tick_budget [of cfg sha lr su ss h running "w\<lparr>m_db := (m_db w)\<lparr>faults := fs\<rparr>\<rparr>"]
      by (simp add: Tick_with case_prod_unfold Let_def)
  next
    case (Restart now running fs)
    show ?thesis
      using Cons.IH [of "w\<lparr>m_db := snd (Reconcile now running ((m_db w)\<lparr>faults := fs\<rparr>))\<rparr>"]
        Reconcile_budget [of "uc_MaxAttempts cfg" now running "(m_db w)\<lparr>faults := fs\<rparr>"]
      by (simp add: Restart)
  qed
qed simp

section \<open>Properties\<close>

text \<open>
  C15. A bad target cannot make the mother download forever: after an operator sets a target,
  any run of ticks and restarts, with any failures of the network, the disk and the store,
  starts at most \<open>MaxAttempts\<close> transfers until the operator decides again.
\<close>

theorem mother_update_bounded:
  assumes "SetMotherDesiredVersion version now d = (Inr (), d0)" and "0 \<le> uc_MaxAttempts cfg"
  shows "fst (updater_run cfg sha lr su ss es (w\<lparr>m_db := d0\<rparr>)) \<le> uc_MaxAttempts cfg"
proof -
  have "mother_intent d0 = mother_intent (upsert_mother (zero_mother_update\<lparr>mu_DesiredVersion := version, mu_RequestedAt := now\<rparr>)
     (\<lambda>r. r\<lparr>mu_DesiredVersion := version, mu_StagedVersion := '''', mu_Attempts := 0,
            mu_Error := '''', mu_RequestedAt := now\<rparr>) (tables d))"
    using set_mother_desired.success_effect [OF assms(1)] by (metis mother_intent_tables)
  then have "mu_Attempts (mother_intent d0) = 0"
    by (simp add: mother_intent_upsert zero_mother_update_def split: option.split)
  then have "budget (uc_MaxAttempts cfg) d0 \<le> uc_MaxAttempts cfg"
    using assms(2) by (simp add: budget_def)
  with updater_run_budget [of cfg sha lr su ss es "w\<lparr>m_db := d0\<rparr>"]
    budget_nonneg [of "uc_MaxAttempts cfg" "m_db (snd (updater_run cfg sha lr su ss es (w\<lparr>m_db := d0\<rparr>)))"]
  show ?thesis by simp
qed

theorem mother_update_bounded_witness:
  "fst (updater_run \<lparr>uc_DownloadBaseURL = ''https://m'', uc_PromotePath = ''/p'', uc_StageDir = ''/s'',
        uc_Platform = ''linux-amd64'', uc_MaxAttempts = 3\<rparr> (\<lambda>s. []) (\<lambda>r. r) (\<lambda>e. ''e'') (\<lambda>e. ''s'')
      (replicate 9 (Tick_with \<lparr>h_stat = (\<lambda>p. Some False), h_mkdir = None, h_get = (\<lambda>u. NoReply ''down''),
         h_disk = sample_disk\<rparr> ''v1'' []))
      (\<lparr>m_db = empty_db :: int db, m_files = [], m_shutdowns = 0\<rparr>
         \<lparr>m_db := snd (SetMotherDesiredVersion ''v2'' 7 empty_db)\<rparr>)) \<le> 3"
proof -
  let ?cfg = "\<lparr>uc_DownloadBaseURL = ''https://m'', uc_PromotePath = ''/p'', uc_StageDir = ''/s'',
        uc_Platform = ''linux-amd64'', uc_MaxAttempts = 3\<rparr>"
  have set: "SetMotherDesiredVersion ''v2'' 7 (empty_db :: int db) = (Inr (), snd (SetMotherDesiredVersion ''v2'' 7 empty_db))"
    by (simp add: SetMotherDesiredVersion_def modify_def exec_def take_fault_def empty_db_def)
  have "0 \<le> uc_MaxAttempts ?cfg" by simp
  from mother_update_bounded [OF set this] show ?thesis by (simp only: updater_config.select_convs)
qed

lemma Place_case_Inr:
  assumes "Place get sha lr dk url v asset dest fs = (Inr u, fs')" "temp_ok dk dest fs"
  shows "\<exists>raw body b1 b2. get (DownloadURL url v (asset @ ChecksumSuffix)) = Reply 200 raw b1 \<and>
      get (DownloadURL url v asset) = Reply 200 body b2 \<and>
      ParseChecksum lr raw = Inr (hex_encode (sha body)) \<and>
      map_of fs' dest = Some \<lparr>fl_Bytes = body, fl_Mode = 493\<rparr>"
  using Place_Inr [of get sha lr dk url v asset dest fs fs'] assms
  by (fastforce simp: map_of_update)

text \<open>
  C16. The mother shuts down for an update only once a verified binary is staged: a tick that
  asks for a shutdown had a target other than the running version, put at the staged path exactly
  the bytes served for that version whose digest is the published one, and recorded that version
  as staged; at most one shutdown is asked for.
\<close>

theorem Tick_shutdown_staged:
  assumes tick: "Tick cfg sha lr su ss h running w = (r, w')" and tmp: "temp_ok (h_disk h) (StagedPath cfg) (m_files w)"
    and shut: "m_shutdowns w' \<noteq> m_shutdowns w"
  shows "m_shutdowns w' = m_shutdowns w + 1 \<and> Supported cfg h \<and>
    (let v = mu_DesiredVersion (mother_intent (m_db w));
         asset = (case cut_platform (uc_Platform cfg) of (goos, goarch) \<Rightarrow> MotherAssetName goos goarch) in
     v \<noteq> '''' \<and> v \<noteq> running \<and>
     mu_StagedVersion (mother_intent (m_db w')) = v \<and> mu_DesiredVersion (mother_intent (m_db w')) = v \<and>
     (\<exists>raw body b1 b2. h_get h (DownloadURL (uc_DownloadBaseURL cfg) v (asset @ ChecksumSuffix)) = Reply 200 raw b1 \<and>
        h_get h (DownloadURL (uc_DownloadBaseURL cfg) v asset) = Reply 200 body b2 \<and>
        ParseChecksum lr raw = Inr (hex_encode (sha body)) \<and>
        map_of (m_files w') (StagedPath cfg) = Some \<lparr>fl_Bytes = body, fl_Mode = 493\<rparr>))"
proof -
  obtain q d where q: "MotherUpdate (m_db w) = (q, d)" by fastforce
  obtain row where row: "q = Inr row"
    using shut tick q by (cases q) (auto simp: Tick_def)
  note mu = MotherUpdate_Inr [OF q [unfolded row]]
  let ?v = "mu_DesiredVersion row"
  have c: "?v \<noteq> ''''" "?v \<noteq> running" "Supported cfg h" "\<not> mu_Attempts row \<ge> uc_MaxAttempts cfg"
    using shut tick q row by (auto simp: Tick_def split: if_splits prod.splits)
  obtain n d1 where b: "BeginMotherAttempt d = (Inr n, d1)"
    using shut tick q row c by (cases "BeginMotherAttempt d"; cases "fst (BeginMotherAttempt d)") (auto simp: Tick_def)
  obtain goos goarch where p: "cut_platform (uc_Platform cfg) = (goos, goarch)" by fastforce
  have t: "attempt_download cfg sha lr su ss h ?v (w\<lparr>m_db := d1\<rparr>) = (r, w')"
    using tick q row c b by (simp add: Tick_def)
  obtain u fs where pl: "Place (h_get h) sha lr (h_disk h) (uc_DownloadBaseURL cfg) ?v
      (MotherAssetName goos goarch) (StagedPath cfg) (m_files w) = (Inr u, fs)" and mk: "h_mkdir h = None"
    using t shut p by (auto simp: attempt_download_def Let_def split: option.splits prod.splits sum.splits)
  obtain u' d2 where st: "StageMotherUpdate ?v d1 = (Inr u', d2)"
    using t shut p pl mk by (auto simp: attempt_download_def split: prod.splits sum.splits)
  have w': "w' = w\<lparr>m_db := d2, m_files := fs, m_shutdowns := m_shutdowns w + 1\<rparr>"
    using t p pl mk st by (simp add: attempt_download_def)
  have i1: "mother_intent d1 = spent (mother_intent d)"
    using BeginMotherAttempt_spent(1) [of d n] b c(1) mu mother_intent_cong [OF mu(2)] mother_row_exists [of d]
    by (metis fst_conv snd_conv mother_intent_tables mother_intent_upd_cases tables_sel(6))
  have i2: "mother_intent d2 = (mother_intent d1)\<lparr>mu_StagedVersion := ?v\<rparr>"
    using stage_mother.success_effect [OF st] i1 c(1) mu mother_intent_cong [OF mu(2)] mother_row_exists [of d1]
    by (metis mother_intent_tables mother_intent_upd_cases tables_sel(6) mother_update.select_convs(1)
        mother_update.surjective spent_def mother_update.update_convs(3,4))
  have v: "mu_DesiredVersion (mother_intent (m_db w)) = ?v" using mu by simp
  have "mu_DesiredVersion (mother_intent d2) = ?v"
    unfolding i2 i1 using mu mother_intent_cong [OF mu(2)] by (simp add: spent_def)
  with Place_case_Inr [OF pl tmp] c p i2 show ?thesis
    by (simp add: w' v Let_def)
qed

theorem Tick_shutdown_staged_witness:
  "let cfg = \<lparr>uc_DownloadBaseURL = ''https://m'', uc_PromotePath = ''/p'', uc_StageDir = ''/s'',
        uc_Platform = ''linux-amd64'', uc_MaxAttempts = 3\<rparr>;
       h = \<lparr>h_stat = (\<lambda>p. Some False), h_mkdir = None, h_get = sample_get, h_disk = sample_disk\<rparr>;
       w = \<lparr>m_db = snd (SetMotherDesiredVersion ''v2'' 7 (empty_db :: int db)), m_files = [], m_shutdowns = 0\<rparr>;
       w' = snd (Tick cfg (\<lambda>s. replicate 32 171) (\<lambda>r. r) (\<lambda>e. ''e'') (\<lambda>e. ''s'') h ''v1'' w)
   in m_shutdowns w' = 1 \<and> map_of (m_files w') ''/s/feast-watch.new'' = Some \<lparr>fl_Bytes = ''binary'', fl_Mode = 493\<rparr>"
proof -
  let ?cfg = "\<lparr>uc_DownloadBaseURL = ''https://m'', uc_PromotePath = ''/p'', uc_StageDir = ''/s'',
        uc_Platform = ''linux-amd64'', uc_MaxAttempts = 3\<rparr>"
  let ?h = "\<lparr>h_stat = (\<lambda>p. Some False), h_mkdir = None, h_get = sample_get, h_disk = sample_disk\<rparr>"
  let ?d = "snd (SetMotherDesiredVersion ''v2'' 7 (empty_db :: int db))"
  let ?w = "\<lparr>m_db = ?d, m_files = [], m_shutdowns = 0\<rparr>"
  let ?run = "Tick ?cfg (\<lambda>s. replicate 32 171) (\<lambda>r. r) (\<lambda>e. ''e'') (\<lambda>e. ''s'') ?h ''v1'' ?w"
  let ?asset = "MotherAssetName ''linux'' ''amd64''"
  have i: "mother_intent ?d = zero_mother_update\<lparr>mu_DesiredVersion := ''v2'', mu_RequestedAt := 7\<rparr>"
    and f: "faults ?d = []" and m: "mother_row ?d \<noteq> None"
    by (simp_all add: SetMotherDesiredVersion_def modify_def exec_def take_fault_def empty_db_def
        upsert_mother_def mother_intent_def zero_mother_update_def)
  have cut: "cut_platform ''linux-amd64'' = (''linux'', ''amd64'')" by code_simp
  have "\<not> HasSuffix (DownloadURL ''https://m'' ''v2'' ?asset) ''.sha256''" by code_simp
  note s = sample_Place [OF this]
  obtain fs where pl: "Place sample_get (\<lambda>s. replicate 32 171) (\<lambda>r. r) sample_disk ''https://m'' ''v2'' ?asset
      (StagedPath ?cfg) [] = (Inr (), fs)"
    using s(1) [of "StagedPath ?cfg" "[]"] by (metis prod.collapse)
  have shut: "m_shutdowns (snd ?run) = 1"
    using i f m cut pl
    by (simp add: Tick_def MotherUpdate_def query_def exec_def take_fault_def Supported_def
        zero_mother_update_def BeginMotherAttempt_def bnd_def modify_def ret_def attempt_download_def Let_def
        StageMotherUpdate_def upd_mother_def)
  have tmp: "temp_ok (h_disk ?h) (StagedPath ?cfg) (m_files ?w)" by code_simp
  have path: "StagedPath ?cfg = ''/s/feast-watch.new''" by (simp add: StagedPath_def stagedName_def)
  show ?thesis
    using Tick_shutdown_staged [OF surjective_pairing [of ?run] tmp] shut s(2)
    by (auto simp: Let_def cut i path zero_mother_update_def)
qed

definition dead_host :: "host \<Rightarrow> bool" where
  "dead_host h \<longleftrightarrow> h_mkdir h = None \<and> (\<forall>u. \<exists>e. h_get h u = NoReply e)"

lemma Place_dead: "dead_host h \<Longrightarrow> \<exists>e. Place (h_get h) sha lr (h_disk h) url v asset dest fs = (Inl e, fs)"
proof -
  assume "dead_host h"
  then obtain e where "h_get h (DownloadURL url v (asset @ ChecksumSuffix)) = NoReply e"
    unfolding dead_host_def by blast
  then show ?thesis by (simp add: Place_def fetch_def)
qed

definition waiting :: "updater_config \<Rightarrow> string \<Rightarrow> int \<Rightarrow> 'v mother \<Rightarrow> bool" where
  "waiting cfg v a w \<longleftrightarrow> healthy (m_db w) \<and> mu_DesiredVersion (mother_intent (m_db w)) = v \<and>
     mu_Attempts (mother_intent (m_db w)) = a"

lemma Tick_spends:
  assumes "waiting cfg v a w" "v \<noteq> ''''" "v \<noteq> running" "Supported cfg h" "dead_host h" "a < uc_MaxAttempts cfg"
  shows "waiting cfg v (a + 1) (snd (Tick cfg sha lr su ss h running w))"
proof -
  obtain r where r: "mother_row (m_db w) = Some r"
    using assms(1,2) mother_row_exists [of "m_db w"] by (auto simp: waiting_def)
  obtain goos goarch where p: "cut_platform (uc_Platform cfg) = (goos, goarch)" by fastforce
  obtain e where e: "Place (h_get h) sha lr (h_disk h) (uc_DownloadBaseURL cfg) v (MotherAssetName goos goarch)
      (StagedPath cfg) (m_files w) = (Inl e, m_files w)"
    using Place_dead [OF assms(5)] by blast
  have mk: "h_mkdir h = None" using assms(5) by (simp add: dead_host_def)
  show ?thesis
    using assms(1-4,6) r p e mk
    by (simp add: waiting_def Tick_def MotherUpdate_def query_def exec_def take_fault_def healthy_def
        mother_intent_def BeginMotherAttempt_def bnd_def modify_def ret_def attempt_download_def Let_def
        record_reason_def RecordMotherUpdateError_def upd_mother_def not_le)
qed

definition gave_up :: "string \<Rightarrow> int \<Rightarrow> 'v db \<Rightarrow> bool" where
  "gave_up v n d \<longleftrightarrow> mu_DesiredVersion (mother_intent d) = '''' \<and>
     HasPrefix (mu_Error (mother_intent d)) (''gave up on '' @ v @ '' after '' @ Itoa n @ '' attempts: '')"

lemma Tick_gives_up:
  assumes "waiting cfg v a w" "v \<noteq> ''''" "v \<noteq> running" "Supported cfg h" "uc_MaxAttempts cfg \<le> a"
  shows "gave_up v a (m_db (snd (Tick cfg sha lr su ss h running w)))"
proof -
  obtain r where r: "mother_row (m_db w) = Some r"
    using assms(1,2) mother_row_exists [of "m_db w"] by (auto simp: waiting_def)
  have "m_db (snd (Tick cfg sha lr su ss h running w)) =
      upd_mother (\<lambda>r. r\<lparr>mu_DesiredVersion := '''', mu_StagedVersion := '''',
        mu_Error := ''gave up on '' @ v @ '' after '' @ Itoa a @ '' attempts: '' @ lastReason (mu_Error r)\<rparr>) (m_db w)"
    using assms r
    by (simp add: waiting_def Tick_def MotherUpdate_def query_def exec_def take_fault_def healthy_def
        mother_intent_def FailMotherUpdate_def modify_def upd_mother_def)
  then show ?thesis
    using r by (simp add: gave_up_def mother_intent_def upd_mother_def HasPrefix_iff)
qed



end
