(* ===== verification/Agent_Collectors.thy ===== *)
theory Agent_Collectors
  imports Go_Strings
begin

text \<open>
  The agent's collectors and their registry: \<open>agent/collectors/\<close>. What a collector reads from
  the host, from a service or from a database is the record \<open>readings\<close>; what it makes of the
  answer is modelled. Of float arithmetic only the conversion of integers and of text are
  named (\<open>float_ops\<close>), and the operations of the type.
\<close>

section \<open>What a collector reads\<close>

record 'v float_ops =
  fo_of_int :: "int \<Rightarrow> 'v"
  fo_parse :: "string \<Rightarrow> 'v option"

text \<open>The fields of gopsutil's memory snapshot the collector uses.\<close>

record 'v vmstat =
  vm_UsedPercent :: 'v
  vm_SwapTotal :: int
  vm_SwapFree :: int

text \<open>An HTTP request answered with JSON: not at all, or with a status and a decoded body.\<close>

datatype 'b json_reply = NoAnswer string | Answered int "string + 'b"

text \<open>A TCP service: no connection, no write, or the bytes it sends and the error after them.\<close>

datatype tcp_reply = Unconnected string | Unwritten string | Sent string string

record 'v k8s_pod =
  pod_Phase :: string
  pod_RestartCounts :: "'v list"

record 'v readings =
  rd_linux :: bool
  rd_cpu :: "string + 'v list"
  rd_virtual :: "string + 'v vmstat"
  rd_swap :: "string + 'v"
  rd_uptime :: "string + int"
  rd_disk :: "string \<Rightarrow> string + 'v"
  rd_info :: "string \<Rightarrow> string \<Rightarrow> 'v list json_reply"
  rd_dragonfly :: "string \<Rightarrow> tcp_reply"
  rd_nodes :: "string \<Rightarrow> string \<Rightarrow> (string \<times> string) list list json_reply"
  rd_pods :: "string \<Rightarrow> string \<Rightarrow> 'v k8s_pod list json_reply"
  rd_open :: "string \<Rightarrow> string + nat"
  rd_activity :: "nat \<Rightarrow> string + 'v"
  rd_max_connections :: "nat \<Rightarrow> string + string"

datatype collect_error =
    Upstream string
  | CentrifugoStatus int
  | UnexpectedReply string
  | BadLength string
  | KubeStatus string int
  | NotANumber string

text \<open>
  A collection ends with samples or an error; \<open>Panicked\<close> is a run-time panic, which takes the
  process down.
\<close>

datatype 'v outcome = Samples "(string \<times> 'v) list" | Failed collect_error | Panicked

section \<open>The collectors\<close>

text \<open>The Postgres collector keeps the handle it opened.\<close>

datatype 'v collector =
    CPU
  | Memory
  | Uptime
  | Disk
  | Centrifugo string string 'v
  | Dragonfly string
  | Postgres string "nat option"
  | K8s string string

fun Name :: "'v collector \<Rightarrow> string" where
  "Name CPU = ''cpu''"
| "Name Memory = ''memory''"
| "Name Uptime = ''uptime''"
| "Name Disk = ''disk''"
| "Name (Centrifugo url key m) = ''centrifugo''"
| "Name (Dragonfly addr) = ''dragonfly''"
| "Name (Postgres dsn handle) = ''postgres''"
| "Name (K8s url token) = ''k8s''"

definition collect_cpu :: "'v readings \<Rightarrow> 'v outcome" where
  "collect_cpu rd = (case rd_cpu rd of
       Inl e \<Rightarrow> Failed (Upstream e)
     | Inr [] \<Rightarrow> Samples []
     | Inr (v # vs) \<Rightarrow> Samples [(''cpu.usage'', v)])"

definition swapPctFromMeminfo :: "'v::{divide,times} float_ops \<Rightarrow> 'v vmstat option \<Rightarrow> 'v" where
  "swapPctFromMeminfo f v =
     (case v of
        None \<Rightarrow> fo_of_int f 0
      | Some v \<Rightarrow>
          if vm_SwapTotal v = 0 then fo_of_int f 0
          else if vm_SwapFree v \<ge> vm_SwapTotal v then fo_of_int f 0
          else fo_of_int f (vm_SwapTotal v - vm_SwapFree v) div fo_of_int f (vm_SwapTotal v) * fo_of_int f 100)"

text \<open>\<open>swapUsedPercent\<close>: from the same snapshot on Linux, from a second call elsewhere.\<close>

definition swapUsedPercent :: "'v::{divide,times} float_ops \<Rightarrow> 'v readings \<Rightarrow> 'v vmstat \<Rightarrow> string + 'v" where
  "swapUsedPercent f rd v = (if rd_linux rd then Inr (swapPctFromMeminfo f (Some v)) else rd_swap rd)"

definition collect_memory :: "'v::{divide,times} float_ops \<Rightarrow> 'v readings \<Rightarrow> 'v outcome" where
  "collect_memory f rd = (case rd_virtual rd of
       Inl e \<Rightarrow> Failed (Upstream e)
     | Inr v \<Rightarrow> (case swapUsedPercent f rd v of
           Inl e \<Rightarrow> Failed (Upstream e)
         | Inr swap \<Rightarrow> Samples [(''mem.used_pct'', vm_UsedPercent v), (''mem.swap_used_pct'', swap)]))"

definition collect_uptime :: "'v float_ops \<Rightarrow> 'v readings \<Rightarrow> 'v outcome" where
  "collect_uptime f rd = (case rd_uptime rd of
       Inl e \<Rightarrow> Failed (Upstream e) | Inr v \<Rightarrow> Samples [(''uptime_s'', fo_of_int f v)])"

definition collect_disk :: "'v readings \<Rightarrow> 'v outcome" where
  "collect_disk rd = (case rd_disk rd ''/'' of
       Inl e \<Rightarrow> Failed (Upstream e) | Inr u \<Rightarrow> Samples [(''disk.used_pct'', u)])"

definition collect_centrifugo :: "'v::plus float_ops \<Rightarrow> 'v readings \<Rightarrow> string \<Rightarrow> string \<Rightarrow> 'v \<Rightarrow> 'v outcome" where
  "collect_centrifugo f rd apiURL apiKey connsMax = (case rd_info rd apiURL apiKey of
       NoAnswer e \<Rightarrow> Failed (Upstream e)
     | Answered code body \<Rightarrow>
         if code \<noteq> 200 then Failed (CentrifugoStatus code)
         else (case body of
             Inl e \<Rightarrow> Failed (Upstream e)
           | Inr nodes \<Rightarrow> Samples [(''centrifugo.conns'', foldl (+) (fo_of_int f 0) nodes),
                                   (''centrifugo.conns_max'', connsMax)]))"

text \<open>
  A RESP bulk string: the header up to its newline, the length, exactly so many bytes. Lengths
  past what the run time can allocate at all make \<open>make([]byte, size)\<close> panic.
\<close>

definition maxAlloc :: int where "maxAlloc = 2 ^ 48"

text \<open>\<open>strings.Split(s, "\r\n")\<close>.\<close>

fun SplitCRLF :: "string \<Rightarrow> string list" where
  "SplitCRLF [] = [[]]"
| "SplitCRLF [c] = [[c]]"
| "SplitCRLF (c # d # s) =
     (if c = CR \<and> d = LF then [] # SplitCRLF s
      else (case SplitCRLF (d # s) of [] \<Rightarrow> [[c]] | p # ps \<Rightarrow> (c # p) # ps))"

definition info_field :: "'v float_ops \<Rightarrow> (string \<times> 'v) list \<Rightarrow> string \<Rightarrow> (string \<times> 'v) list" where
  "info_field f kv line =
     (case Cut line CHR '':'' of
        None \<Rightarrow> kv
      | Some (k, v) \<Rightarrow> (case fo_parse f (TrimSpace v) of
            None \<Rightarrow> kv | Some x \<Rightarrow> AList.update k x kv))"

definition field_of :: "'v float_ops \<Rightarrow> (string \<times> 'v) list \<Rightarrow> string \<Rightarrow> 'v" where
  "field_of f kv k = (case map_of kv k of None \<Rightarrow> fo_of_int f 0 | Some v \<Rightarrow> v)"

definition info_samples :: "'v float_ops \<Rightarrow> string \<Rightarrow> (string \<times> 'v) list" where
  "info_samples f body =
     (let kv = foldl (info_field f) [] (SplitCRLF body) in
      [(''dragonfly.mem_used'', field_of f kv ''used_memory''),
       (''dragonfly.mem_max'', field_of f kv ''maxmemory''),
       (''dragonfly.clients'', field_of f kv ''connected_clients'')])"

definition collect_dragonfly :: "'v float_ops \<Rightarrow> 'v readings \<Rightarrow> string \<Rightarrow> 'v outcome" where
  "collect_dragonfly f rd addr =
     (case rd_dragonfly rd addr of
        Unconnected e \<Rightarrow> Failed (Upstream e)
      | Unwritten e \<Rightarrow> Failed (Upstream e)
      | Sent bytes broken \<Rightarrow>
          (case Cut bytes LF of
             None \<Rightarrow> Failed (UnexpectedReply bytes)
           | Some (line, rest) \<Rightarrow>
               let header = line @ [LF] in
               if \<not> HasPrefix header ''$'' then Failed (UnexpectedReply header)
               else (case ParseInt (TrimSpace (tl header)) of
                   None \<Rightarrow> Failed (BadLength header)
                 | Some len \<Rightarrow>
                     if len \<le> 0 then Failed (BadLength header)
                     else if len > maxAlloc then Panicked
                     else if int (length rest) < len then Failed (Upstream broken)
                     else Samples (info_samples f (take (nat len) rest)))))"

text \<open>\<open>handle\<close>: the handle held, or a new one that is then held.\<close>

definition handle :: "'v readings \<Rightarrow> string \<Rightarrow> nat option \<Rightarrow> (string + nat) \<times> nat option" where
  "handle rd dsn held =
     (case held of
        Some h \<Rightarrow> (Inr h, held)
      | None \<Rightarrow> (case rd_open rd dsn of Inl e \<Rightarrow> (Inl e, None) | Inr h \<Rightarrow> (Inr h, Some h)))"

definition liveQuery ::
  "'v float_ops \<Rightarrow> 'v readings \<Rightarrow> string \<Rightarrow> nat option \<Rightarrow> (collect_error + 'v \<times> 'v) \<times> nat option" where
  "liveQuery f rd dsn held =
     (case handle rd dsn held of
        (Inl e, held') \<Rightarrow> (Inl (Upstream e), held')
      | (Inr h, held') \<Rightarrow>
          (case rd_activity rd h of
             Inl e \<Rightarrow> (Inl (Upstream e), held')
           | Inr conns \<Rightarrow>
               (case rd_max_connections rd h of
                  Inl e \<Rightarrow> (Inl (Upstream e), held')
                | Inr maxStr \<Rightarrow>
                    (case fo_parse f maxStr of
                       None \<Rightarrow> (Inl (NotANumber maxStr), held')
                     | Some maxConns \<Rightarrow> (Inr (conns, maxConns), held')))))"

definition collect_postgres ::
  "'v float_ops \<Rightarrow> 'v readings \<Rightarrow> string \<Rightarrow> nat option \<Rightarrow> 'v outcome \<times> nat option" where
  "collect_postgres f rd dsn held =
     (case liveQuery f rd dsn held of
        (Inl e, held') \<Rightarrow> (Failed e, held')
      | (Inr (conns, maxConns), held') \<Rightarrow>
          (Samples [(''postgres.conns'', conns), (''postgres.conns_max'', maxConns)], held'))"

definition watchCacheList :: string where "watchCacheList = ''?resourceVersion=0''"

text \<open>\<open>get\<close>: the decoded body of a 200.\<close>

definition k8s_get :: "(string \<Rightarrow> string \<Rightarrow> 'b json_reply) \<Rightarrow> string \<Rightarrow> string \<Rightarrow> string \<Rightarrow> collect_error + 'b" where
  "k8s_get ask apiURL token path =
     (case ask (apiURL @ path) token of
        NoAnswer e \<Rightarrow> Inl (Upstream e)
      | Answered code body \<Rightarrow>
          if code \<noteq> 200 then Inl (KubeStatus path code)
          else (case body of Inl e \<Rightarrow> Inl (Upstream e) | Inr b \<Rightarrow> Inr b))"

definition count_ready :: "'v::plus float_ops \<Rightarrow> (string \<times> string) list list \<Rightarrow> 'v" where
  "count_ready f nodes =
     foldl (\<lambda>ready n. foldl (\<lambda>ready c. if fst c = ''Ready'' \<and> snd c = ''True'' then ready + fo_of_int f 1 else ready)
       ready n) (fo_of_int f 0) nodes"

definition count_pods :: "'v::plus float_ops \<Rightarrow> 'v k8s_pod list \<Rightarrow> 'v \<times> 'v \<times> 'v" where
  "count_pods f pods =
     foldl (\<lambda>(running, failed, restarts) p.
         let running' = (if pod_Phase p = ''Running'' then running + fo_of_int f 1 else running);
             failed' = (if pod_Phase p = ''Failed'' then failed + fo_of_int f 1 else failed)
         in (running', failed', foldl (+) restarts (pod_RestartCounts p)))
       (fo_of_int f 0, fo_of_int f 0, fo_of_int f 0) pods"

definition collect_k8s :: "'v::plus float_ops \<Rightarrow> 'v readings \<Rightarrow> string \<Rightarrow> string \<Rightarrow> 'v outcome" where
  "collect_k8s f rd apiURL token =
     (case k8s_get (rd_nodes rd) apiURL token (''/api/v1/nodes'' @ watchCacheList) of
        Inl e \<Rightarrow> Failed e
      | Inr nodes \<Rightarrow>
          (case k8s_get (rd_pods rd) apiURL token (''/api/v1/pods'' @ watchCacheList) of
             Inl e \<Rightarrow> Failed e
           | Inr pods \<Rightarrow>
               (case count_pods f pods of (running, failed, restarts) \<Rightarrow>
                  Samples [(''k8s.nodes_ready'', count_ready f nodes),
                           (''k8s.nodes_total'', fo_of_int f (int (length nodes))),
                           (''k8s.pods_running'', running), (''k8s.pods_failed'', failed),
                           (''k8s.restarts'', restarts)])))"

fun collect ::
  "'v::{plus,divide,times} float_ops \<Rightarrow> 'v readings \<Rightarrow> 'v collector \<Rightarrow> 'v outcome \<times> 'v collector" where
  "collect f rd CPU = (collect_cpu rd, CPU)"
| "collect f rd Memory = (collect_memory f rd, Memory)"
| "collect f rd Uptime = (collect_uptime f rd, Uptime)"
| "collect f rd Disk = (collect_disk rd, Disk)"
| "collect f rd (Centrifugo url key m) = (collect_centrifugo f rd url key m, Centrifugo url key m)"
| "collect f rd (Dragonfly addr) = (collect_dragonfly f rd addr, Dragonfly addr)"
| "collect f rd (Postgres dsn held) =
     (case collect_postgres f rd dsn held of (r, held') \<Rightarrow> (r, Postgres dsn held'))"
| "collect f rd (K8s url token) = (collect_k8s f rd url token, K8s url token)"

section \<open>The registry\<close>

text \<open>
  \<open>Registry\<close>: a map from names. \<open>CollectEnabled\<close> returns \<open>None\<close> when a collector panicked,
  otherwise the samples and the registry with the collectors as they are now. Each collection
  has readings of its own.
\<close>

type_synonym 'v registry = "(string \<times> 'v collector) list"

definition NewRegistry :: "'v registry" where "NewRegistry = []"

definition Register :: "'v collector \<Rightarrow> 'v registry \<Rightarrow> 'v registry" where
  "Register c r = AList.update (Name c) c r"

definition Names :: "(string list \<Rightarrow> string list) \<Rightarrow> 'v registry \<Rightarrow> string list" where
  "Names ord r = sort (ord (map fst r))"

fun CollectEnabled ::
  "'v::{plus,divide,times} float_ops \<Rightarrow> (nat \<Rightarrow> 'v readings) \<Rightarrow> string list \<Rightarrow> (string \<times> 'v) list \<Rightarrow> 'v registry
     \<Rightarrow> ((string \<times> 'v) list \<times> 'v registry) option" where
  "CollectEnabled f rd [] out r = Some (out, r)"
| "CollectEnabled f rd (name # names) out r =
     (case map_of r name of
        None \<Rightarrow> CollectEnabled f rd names out r
      | Some c \<Rightarrow>
          (case collect f (rd (length names)) c of (res, c') \<Rightarrow>
             let r' = AList.update name c' r in
             (case res of
                Panicked \<Rightarrow> None
              | Failed e \<Rightarrow> CollectEnabled f rd names out r'
              | Samples ss \<Rightarrow> CollectEnabled f rd names (foldl (\<lambda>out (k, v). AList.update k v out) out ss) r')))"

section \<open>The registry\<close>

lemma Names_any_order:
  assumes "any_order ord"
  shows "Names ord r = sort (map fst r)"
  using assms unfolding Names_def any_order_def by (metis mset_sort sorted_sort properties_for_sort)

section \<open>What a collector can yield\<close>

text \<open>The metrics of each collector. No two collectors share one.\<close>

definition metric_keys :: "(string \<times> string list) list" where
  "metric_keys =
     [(''cpu'', [''cpu.usage'']),
      (''memory'', [''mem.used_pct'', ''mem.swap_used_pct'']),
      (''uptime'', [''uptime_s'']),
      (''disk'', [''disk.used_pct'']),
      (''centrifugo'', [''centrifugo.conns'', ''centrifugo.conns_max'']),
      (''dragonfly'', [''dragonfly.mem_used'', ''dragonfly.mem_max'', ''dragonfly.clients'']),
      (''postgres'', [''postgres.conns'', ''postgres.conns_max'']),
      (''k8s'', [''k8s.nodes_ready'', ''k8s.nodes_total'', ''k8s.pods_running'', ''k8s.pods_failed'', ''k8s.restarts''])]"

definition all_keys :: "string list" where
  "all_keys = concat (map snd metric_keys)"

definition owner :: "string \<Rightarrow> string option" where
  "owner k = map_option fst (find (\<lambda>(n, ks). k \<in> set ks) metric_keys)"

lemma collect_Name [simp]: "Name (snd (collect f rd c)) = Name c"
  by (cases c) (auto split: prod.split)

lemma collect_keys:
  assumes "fst (collect f rd c) = Samples ss"
  shows "ss = [] \<or> Some (map fst ss) = map_of metric_keys (Name c)"
  using assms
  by (cases c) (auto simp: metric_keys_def collect_cpu_def collect_memory_def collect_uptime_def collect_disk_def
      collect_centrifugo_def collect_dragonfly_def info_samples_def collect_postgres_def collect_k8s_def Let_def
    split: sum.splits list.splits json_reply.splits if_splits tcp_reply.splits option.splits prod.splits)

lemma owner_key:
  assumes "map_of metric_keys n = Some ks" "k \<in> set ks"
  shows "owner k = Some n"
proof -
  have "list_all (\<lambda>(n, ks). list_all (\<lambda>k. owner k = Some n) ks) metric_keys" by code_simp
  with assms map_of_SomeD [OF assms(1)] show ?thesis by (auto simp: list_all_iff)
qed

lemma metric_keys_distinct: "map_of metric_keys n = Some ks \<Longrightarrow> distinct ks"
proof -
  have "list_all (\<lambda>(n, ks). distinct ks) metric_keys" by code_simp
  then show "map_of metric_keys n = Some ks \<Longrightarrow> distinct ks" by (auto simp: list_all_iff dest: map_of_SomeD)
qed

lemma collect_owner:
  assumes "fst (collect f rd c) = Samples ss"
  shows "distinct (map fst ss)" "map_of ss k = Some v \<Longrightarrow> owner k = Some (Name c)"
proof -
  show "distinct (map fst ss)"
    using collect_keys [OF assms] metric_keys_distinct by (metis distinct.simps(1) list.map(1))
  show "owner k = Some (Name c)" if "map_of ss k = Some v"
  proof -
    from that have "k \<in> set (map fst ss)" by (force dest: map_of_SomeD)
    moreover have "map_of metric_keys (Name c) = Some (map fst ss)"
      using collect_keys [OF assms] that by auto
    ultimately show ?thesis by (rule owner_key [rotated])
  qed
qed

text \<open>A registry maps every name to a collector of that name.\<close>

definition registry_ok :: "'v registry \<Rightarrow> bool" where
  "registry_ok r \<longleftrightarrow> distinct (map fst r) \<and> list_all (\<lambda>(n, c). Name c = n) r"

lemma registry_ok_map_of: "registry_ok r \<Longrightarrow> map_of r n = Some c \<Longrightarrow> Name c = n"
  by (auto simp: registry_ok_def list_all_iff dest!: map_of_SomeD)

lemma registry_ok_update:
  assumes "registry_ok r" "Name c = n"
  shows "registry_ok (AList.update n c r)"
proof -
  have "list_all (\<lambda>(n, c). Name c = n) r \<Longrightarrow> list_all (\<lambda>(n, c). Name c = n) (AList.update n c r)"
    using assms(2) by (induction r) auto
  with assms(1) show ?thesis by (simp add: registry_ok_def distinct_update)
qed

lemma registry_ok_Register: "registry_ok r \<Longrightarrow> registry_ok (Register c r)"
  by (simp add: Register_def registry_ok_update)

lemma registry_ok_New: "registry_ok NewRegistry"
  by (simp add: registry_ok_def NewRegistry_def)

text \<open>
  What the enabled collectors report of one metric: the value its own collector yields, if it
  is enabled, registered and does not fail.
\<close>

definition reported ::
  "'v::{plus,divide,times} float_ops \<Rightarrow> (nat \<Rightarrow> 'v readings) \<Rightarrow> string list \<Rightarrow> 'v registry \<Rightarrow> string \<Rightarrow> 'v option" where
  "reported f rd names r k =
     (case owner k of
        None \<Rightarrow> None
      | Some n \<Rightarrow>
          if n \<notin> set names then None
          else (case map_of r n of
              None \<Rightarrow> None
            | Some c \<Rightarrow> (case fst (collect f (rd (length (tl (dropWhile (\<lambda>m. m \<noteq> n) names)))) c) of
                  Samples ss \<Rightarrow> map_of ss k | _ \<Rightarrow> None)))"

lemma reported_Cons_other:
  "owner k \<noteq> Some name \<Longrightarrow> (\<And>n. n \<noteq> name \<Longrightarrow> map_of r' n = map_of r n) \<Longrightarrow>
   reported f rd (name # names) r k = reported f rd names r' k"
  by (auto simp: reported_def split: option.split)

lemma reported_Cons_same:
  assumes "owner k = Some name"
  shows "reported f rd (name # names) r k =
    (case map_of r name of None \<Rightarrow> None
     | Some c \<Rightarrow> (case fst (collect f (rd (length names)) c) of Samples ss \<Rightarrow> map_of ss k | _ \<Rightarrow> None))"
  using assms by (simp add: reported_def split: option.split)

lemma reported_absent: "owner k = Some name \<Longrightarrow> name \<notin> set names \<Longrightarrow> reported f rd names r k = None"
  by (simp add: reported_def)

text \<open>One step of the loop over the enabled names.\<close>

definition with_outcome :: "'v outcome \<Rightarrow> (string \<times> 'v) list \<Rightarrow> (string \<times> 'v) list" where
  "with_outcome res out = (case res of Samples ss \<Rightarrow> foldl (\<lambda>out (k, v). AList.update k v out) out ss | _ \<Rightarrow> out)"

lemma CollectEnabled_Cons:
  assumes "map_of r name = Some c" "collect f (rd (length names)) c = (res, c')"
  shows "CollectEnabled f rd (name # names) out r =
    (if res = Panicked then None else CollectEnabled f rd names (with_outcome res out) (AList.update name c' r))"
  using assms by (auto simp: Let_def with_outcome_def split: outcome.split)

lemma CollectEnabled_skip: "map_of r name = None \<Longrightarrow>
    CollectEnabled f rd (name # names) out r = CollectEnabled f rd names out r"
  by simp

declare CollectEnabled.simps(2) [simp del]

lemma registry_collected:
  assumes "registry_ok r" "map_of r name = Some c" "collect f x c = (res, c')"
  shows "registry_ok (AList.update name c' r)" "map fst (AList.update name c' r) = map fst r" "Name c = name"
proof -
  show "Name c = name" using registry_ok_map_of [OF assms(1,2)] .
  then have "Name c' = name" using collect_Name [of f x c] assms(3) by simp
  then show "registry_ok (AList.update name c' r)" by (rule registry_ok_update [OF assms(1)])
  have "name \<in> set (map fst r)" using assms(2) by (metis list.set_map map_of_eq_None_iff option.distinct(1))
  then show "map fst (AList.update name c' r) = map fst r" by (simp add: update_keys)
qed

lemma CollectEnabled_induct [consumes 1, case_names Nil Skip Step Panic]:
  assumes "registry_ok r"
    and "\<And>out r. registry_ok r \<Longrightarrow> P [] out r"
    and "\<And>name names out r. registry_ok r \<Longrightarrow> map_of r name = None \<Longrightarrow> P names out r \<Longrightarrow> P (name # names) out r"
    and "\<And>name names out r c res c'. registry_ok r \<Longrightarrow> map_of r name = Some c \<Longrightarrow>
      collect f (rd (length names)) c = (res, c') \<Longrightarrow> res \<noteq> Panicked \<Longrightarrow>
      P names (with_outcome res out) (AList.update name c' r) \<Longrightarrow> P (name # names) out r"
    and "\<And>name names out r c c'. registry_ok r \<Longrightarrow> map_of r name = Some c \<Longrightarrow>
      collect f (rd (length names)) c = (Panicked, c') \<Longrightarrow> P (name # names) out r"
  shows "P names out r"
  using assms(1)
proof (induction names arbitrary: out r)
  case (Cons name names)
  show ?case
  proof (cases "map_of r name")
    case None
    then show ?thesis using assms(3) Cons by blast
  next
    case (Some c)
    obtain res c' where c': "collect f (rd (length names)) c = (res, c')" by fastforce
    show ?thesis
    proof (cases "res = Panicked")
      case True
      then show ?thesis using assms(5) Cons.prems Some c' by blast
    next
      case False
      show ?thesis
        using assms(4) [OF Cons.prems Some c' False Cons.IH [OF registry_collected(1) [OF Cons.prems Some c']]] .
    qed
  qed
qed (rule assms(2))


lemma CollectEnabled_reports:
  assumes "registry_ok r" "distinct names" "CollectEnabled f rd names out r = Some (out', r')"
  shows "map_of out' k = (case reported f rd names r k of None \<Rightarrow> map_of out k | Some v \<Rightarrow> Some v)"
  using assms
proof (induction names out r rule: CollectEnabled_induct [where f = f and rd = rd])
  case Nil
  then show ?case by (simp add: reported_def split: option.split)
next
  case (Skip name names out r)
  then show ?case
    by (cases "owner k = Some name")
      (simp_all add: CollectEnabled_skip reported_Cons_same reported_absent reported_Cons_other [of _ _ r r])
next
  case (Step name names out r c res c')
  define r1 where "r1 = AList.update name c' r"
  have rest: "map_of out' k = (case reported f rd names r1 k of None \<Rightarrow> map_of (with_outcome res out) k | Some v \<Rightarrow> Some v)"
    using Step by (simp add: CollectEnabled_Cons r1_def)
  have res: "fst (collect f (rd (length names)) c) = res" by (simp add: Step)
  have out1: "map_of (with_outcome res out) k =
      (case res of Samples ss \<Rightarrow> (case map_of ss k of None \<Rightarrow> map_of out k | Some v \<Rightarrow> Some v) | _ \<Rightarrow> map_of out k)"
    unfolding with_outcome_def using collect_owner(1) [of f "rd (length names)" c] alist.lookup_put_all
    by (auto simp: res split: outcome.split)
  show ?case
  proof (cases "owner k = Some name")
    case True
    with rest out1 Step.prems(1) Step.hyps(2) res show ?thesis
      by (auto simp: reported_Cons_same reported_absent split: outcome.splits option.splits)
  next
    case False
    have "map_of ss k = None" if "res = Samples ss" for ss
      using collect_owner(2) [of f "rd (length names)" c ss k] False that registry_collected(3) [OF Step.hyps(1-3)]
      by (cases "map_of ss k") (auto simp: res)
    then have same: "map_of (with_outcome res out) k = map_of out k" unfolding out1 by (auto split: outcome.split)
    have "reported f rd (name # names) r k = reported f rd names r1 k"
      using False by (intro reported_Cons_other) (simp_all add: r1_def map_of_update)
    then show ?thesis unfolding rest same by simp
  qed
next
  case (Panic name names out r c c')
  then show ?case by (simp add: CollectEnabled_Cons)
qed

lemma with_outcome_keys:
  assumes "fst (collect f x c) = res" "set (map fst out) \<subseteq> set all_keys" "distinct (map fst out)"
  shows "set (map fst (with_outcome res out)) \<subseteq> set all_keys \<and> distinct (map fst (with_outcome res out))"
proof -
  have upd: "distinct (map fst (foldl (\<lambda>out (k, v). AList.update k v out) out ss)) \<and>
      set (map fst (foldl (\<lambda>out (k, v). AList.update k v out) out ss)) = set (map fst out) \<union> set (map fst ss)"
    if "distinct (map fst out)" for ss :: "(string \<times> 'a) list" and out
    using that
  proof (induction ss arbitrary: out)
    case (Cons p ss)
    then show ?case using Cons.IH [of "AList.update (fst p) (snd p) out"]
      by (auto simp: distinct_update fst_set_update case_prod_unfold)
  qed simp
  have "set (map fst ss) \<subseteq> set all_keys" if "res = Samples ss" for ss
    using collect_keys [of f x c ss] assms(1) that map_of_SomeD [of metric_keys "Name c" "map fst ss"]
    by (force simp: all_keys_def)
  with upd [OF assms(3)] assms(2,3) show ?thesis
    by (auto simp: with_outcome_def split: outcome.split)
qed

lemma CollectEnabled_keys:
  assumes "registry_ok r" "CollectEnabled f rd names out r = Some (out', r')"
    "set (map fst out) \<subseteq> set all_keys" "distinct (map fst out)"
  shows "set (map fst out') \<subseteq> set all_keys \<and> distinct (map fst out')"
  using assms
proof (induction names out r rule: CollectEnabled_induct [where f = f and rd = rd])
  case (Step name names out r c res c')
  then have "fst (collect f (rd (length names)) c) = res" by simp
  from with_outcome_keys [OF this Step.prems(2,3)] Step show ?case by (simp add: CollectEnabled_Cons)
qed (simp_all add: CollectEnabled_Cons CollectEnabled_skip)

lemma CollectEnabled_names:
  assumes "registry_ok r" "CollectEnabled f rd names out r = Some (out', r')"
  shows "registry_ok r' \<and> map fst r' = map fst r"
  using assms
proof (induction names out r rule: CollectEnabled_induct [where f = f and rd = rd])
  case (Step name names out r c res c')
  with registry_collected [OF Step.hyps(1-3)] show ?case by (simp add: CollectEnabled_Cons)
qed (auto simp: CollectEnabled_Cons CollectEnabled_skip)

text \<open>Only the Dragonfly collector can take the process down.\<close>

lemma collect_panics: "fst (collect f rd c) = Panicked \<Longrightarrow> Name c = ''dragonfly''"
  by (cases c) (auto simp: collect_cpu_def collect_memory_def collect_uptime_def collect_disk_def
      collect_centrifugo_def collect_postgres_def collect_k8s_def
    split: sum.splits list.splits json_reply.splits if_splits option.splits prod.splits)

lemma CollectEnabled_alive:
  assumes "registry_ok r" "CollectEnabled f rd names out r = None"
  shows "''dragonfly'' \<in> set names \<inter> set (map fst r)"
  using assms
proof (induction names out r rule: CollectEnabled_induct [where f = f and rd = rd])
  case (Step name names out r c res c')
  with registry_collected [OF Step.hyps(1-3)] show ?case by (simp add: CollectEnabled_Cons)
next
  case (Panic name names out r c c')
  then have "Name c = ''dragonfly''" using collect_panics [of f "rd (length names)" c] by simp
  with Panic registry_collected(3) [OF Panic(1-3)] show ?case by (force dest: map_of_SomeD)
qed (simp_all add: CollectEnabled_skip)

section \<open>Swap\<close>

text \<open>In exact arithmetic the swap figure is a percentage, whatever the kernel reports.\<close>

lemma swapPct_range:
  assumes "0 \<le> vm_SwapFree v"
  shows "0 \<le> swapPctFromMeminfo \<lparr>fo_of_int = of_int, fo_parse = p\<rparr> (Some (v :: 'v::linordered_field vmstat))"
    and "swapPctFromMeminfo \<lparr>fo_of_int = of_int, fo_parse = p\<rparr> (Some v) \<le> (100 :: 'v)"
proof -
  have "0 \<le> swapPctFromMeminfo \<lparr>fo_of_int = of_int, fo_parse = p\<rparr> (Some v) \<and>
      swapPctFromMeminfo \<lparr>fo_of_int = of_int, fo_parse = p\<rparr> (Some v) \<le> (100 :: 'v)"
  proof (cases "vm_SwapTotal v = 0 \<or> vm_SwapFree v \<ge> vm_SwapTotal v")
    case False
    then have "0 < vm_SwapTotal v" "vm_SwapTotal v - vm_SwapFree v \<le> vm_SwapTotal v" "0 \<le> vm_SwapTotal v - vm_SwapFree v"
      using assms by auto
    then have "0 < (of_int (vm_SwapTotal v) :: 'v)" "(of_int (vm_SwapTotal v - vm_SwapFree v) :: 'v) \<le> of_int (vm_SwapTotal v)"
      "0 \<le> (of_int (vm_SwapTotal v - vm_SwapFree v) :: 'v)"
      by (simp_all only: of_int_0_less_iff of_int_le_iff of_int_0_le_iff)
    then have "0 \<le> (of_int (vm_SwapTotal v - vm_SwapFree v) / of_int (vm_SwapTotal v) :: 'v)"
      "(of_int (vm_SwapTotal v - vm_SwapFree v) / of_int (vm_SwapTotal v) :: 'v) \<le> 1"
      by (simp_all add: divide_le_eq_1)
    moreover have "0 \<le> x * 100 \<and> x * 100 \<le> 100" if "0 \<le> x" "x \<le> 1" for x :: 'v
      using that by simp
    ultimately have "0 \<le> (of_int (vm_SwapTotal v - vm_SwapFree v) / of_int (vm_SwapTotal v) * 100 :: 'v) \<and>
      (of_int (vm_SwapTotal v - vm_SwapFree v) / of_int (vm_SwapTotal v) * 100 :: 'v) \<le> 100" by blast
    with False show ?thesis unfolding swapPctFromMeminfo_def by (simp del: of_int_diff)
  qed (auto simp: swapPctFromMeminfo_def)
  then show "0 \<le> swapPctFromMeminfo \<lparr>fo_of_int = of_int, fo_parse = p\<rparr> (Some v)"
    and "swapPctFromMeminfo \<lparr>fo_of_int = of_int, fo_parse = p\<rparr> (Some v) \<le> (100 :: 'v)" by blast+
qed

section \<open>Dragonfly replies\<close>

lemma SplitCRLF_ne [simp]: "SplitCRLF s \<noteq> []"
  by (induction s rule: SplitCRLF.induct) (auto split: list.splits)

lemma SplitCRLF_line: "CR \<notin> set p \<Longrightarrow> SplitCRLF (p @ CR # LF # s) = p # SplitCRLF s"
proof (induction p)
  case (Cons c p)
  then obtain d r where "p @ CR # LF # s = d # r" by (cases p) auto
  with Cons show ?case by auto
qed simp

lemma SplitCRLF_last: "CR \<notin> set p \<Longrightarrow> SplitCRLF p = [p]"
  by (induction p rule: SplitCRLF.induct) auto

lemma SplitCRLF_Join:
  "lines \<noteq> [] \<Longrightarrow> \<forall>l \<in> set lines. CR \<notin> set l \<Longrightarrow> SplitCRLF (Join lines [CR, LF]) = lines"
proof (induction lines rule: induct_list012)
  case (3 x y zs)
  then show ?case using SplitCRLF_line [of x "Join (y # zs) [CR, LF]"] by simp
qed (auto simp: SplitCRLF_last)

lemma Itoa_nat:
  "0 \<le> n \<Longrightarrow> Itoa n \<noteq> [] \<and> list_all is_digit (Itoa n)"
  using nat_dec_digits by (simp add: Itoa_def)

lemma TrimSpace_line:
  assumes "s \<noteq> []" "list_all is_digit s"
  shows "TrimSpace (s @ [CR, LF]) = s"
proof -
  have dig: "48 \<le> byte c \<and> byte c \<le> 57" if "c \<in> set s" for c
    using assms(2) that by (simp add: list_all_iff is_digit_byte)
  have ascii: "\<forall>c \<in> set (s @ [CR, LF]). byte c < 128"
    using dig by fastforce
  define f where "f = (\<lambda>c :: char. (byte c, [c]))"
  have keep: "dropWhile (rune_is_space \<circ> fst) (f c # rs) = f c # rs" if "c \<in> set s" for c rs
    using dig [OF that] by (simp add: f_def rune_is_space_def)
  obtain c cs where "s = c # cs" using assms(1) by (cases s) auto
  then have left: "dropWhile (rune_is_space \<circ> fst) (map f (s @ [CR, LF])) = map f (s @ [CR, LF])"
    using keep [of c "map f (cs @ [CR, LF])"] by simp
  obtain d ds where "rev s = d # ds" using assms(1) by (cases "rev s") auto
  moreover from this have "d \<in> set s" by (metis list.set_intros(1) set_rev)
  ultimately have "dropWhile (rune_is_space \<circ> fst) (map f (rev s)) = map f (rev s)"
    using keep [of d "map f ds"] by simp
  then have right: "dropWhile (rune_is_space \<circ> fst) (rev (map f (s @ [CR, LF]))) = map f (rev s)"
    by (simp add: f_def rune_is_space_def rev_map)
  have "concat (map snd (map f s)) = s" by (induction s) (simp_all add: f_def)
  then show ?thesis
    unfolding TrimSpace_def trim_runes_def runes_ascii [OF ascii] f_def [symmetric] left right by (simp add: rev_map)
qed

text \<open>A reply as the protocol writes it: the announced length, and what follows.\<close>

definition info_reply :: "int \<Rightarrow> string \<Rightarrow> string" where
  "info_reply n rest = ''$'' @ Itoa n @ [CR, LF] @ rest"

lemma collect_info_reply:
  assumes "rd_dragonfly rd addr = Sent (info_reply n rest) broken" "0 \<le> n" "int64 n"
  shows "collect_dragonfly f rd addr =
    (if n = 0 then Failed (BadLength (info_reply n []))
     else if n > maxAlloc then Panicked
     else if int (length rest) < n then Failed (Upstream broken)
     else Samples (info_samples f (take (nat n) rest)))"
proof -
  let ?line = "''$'' @ Itoa n @ [CR]"
  have digits: "Itoa n \<noteq> []" "list_all is_digit (Itoa n)" using Itoa_nat [OF assms(2)] by auto
  then have "LF \<notin> set ?line"
  proof -
    have "\<forall>c \<in> set ?line. byte c \<noteq> byte LF"
      using digits(2) by (auto simp: list_all_iff is_digit_byte) (simp add: byte_def)
    then show ?thesis by blast
  qed
  then have "Cut (info_reply n rest) LF = Some (?line, rest)"
    using Cut_append [of LF ?line rest] by (simp add: info_reply_def)
  moreover have "HasPrefix (?line @ [LF]) ''$''" by (simp add: HasPrefix_def)
  moreover have "ParseInt (TrimSpace (tl (?line @ [LF]))) = Some n"
    using TrimSpace_line [OF digits] assms(3) by simp
  ultimately show ?thesis
    using assms(2) by (simp add: collect_dragonfly_def assms(1) Let_def info_reply_def)
qed

text \<open>The numeric fields of a reply's lines, and the last value given for a name.\<close>

definition numeric_field :: "'v float_ops \<Rightarrow> string \<Rightarrow> (string \<times> 'v) option" where
  "numeric_field f line =
     (case Cut line CHR '':'' of None \<Rightarrow> None | Some (k, v) \<Rightarrow> map_option (Pair k) (fo_parse f (TrimSpace v)))"

definition latest_field :: "'v float_ops \<Rightarrow> string list \<Rightarrow> string \<Rightarrow> 'v" where
  "latest_field f lines k =
     (case map_of (rev (List.map_filter (numeric_field f) lines)) k of None \<Rightarrow> fo_of_int f 0 | Some x \<Rightarrow> x)"

lemma map_of_info_fields:
  "map_of (foldl (info_field f) [] lines) k = map_of (rev (List.map_filter (numeric_field f) lines)) k"
proof (induction lines rule: rev_induct)
  case (snoc line lines)
  then show ?case
    by (auto simp: info_field_def numeric_field_def map_filter_simps map_filter_def map_of_update split: option.split)
qed (simp add: map_filter_simps)

lemma info_samples_lines:
  assumes "lines \<noteq> []" "\<forall>l \<in> set lines. CR \<notin> set l"
  shows "info_samples f (Join lines [CR, LF]) =
    [(''dragonfly.mem_used'', latest_field f lines ''used_memory''),
     (''dragonfly.mem_max'', latest_field f lines ''maxmemory''),
     (''dragonfly.clients'', latest_field f lines ''connected_clients'')]"
  by (simp add: info_samples_def SplitCRLF_Join [OF assms] field_of_def latest_field_def map_of_info_fields)

section \<open>Properties\<close>

text \<open>
  C29. Collectors do not disturb each other: if the process survives a collection, each metric
  reported is exactly what its own collector yielded, whichever others failed or are missing;
  the metrics are among the seventeen the agent knows, each once; and the registry still holds
  a collector under each of its names. Only an enabled Dragonfly collector can end the process.
\<close>

theorem CollectEnabled_isolated:
  assumes "registry_ok r" "distinct enabled"
  shows "case CollectEnabled f rd enabled [] r of
      None \<Rightarrow> ''dragonfly'' \<in> set enabled \<and> ''dragonfly'' \<in> set (map fst r)
    | Some (out, r') \<Rightarrow>
        (\<forall>k. map_of out k = reported f rd enabled r k) \<and>
        distinct (map fst out) \<and> set (map fst out) \<subseteq> set all_keys \<and> length out \<le> 17 \<and>
        registry_ok r' \<and> map fst r' = map fst r"
proof (cases "CollectEnabled f rd enabled [] r")
  case None
  with CollectEnabled_alive [OF assms(1) None] show ?thesis by simp
next
  case (Some p)
  obtain out r' where p: "CollectEnabled f rd enabled [] r = Some (out, r')" using Some by (cases p) auto
  have keys: "set (map fst out) \<subseteq> set all_keys \<and> distinct (map fst out)"
    using CollectEnabled_keys [OF assms(1) p] by simp
  then have "length out \<le> length all_keys"
    by (metis card_length card_mono distinct_card finite_set le_trans length_map)
  moreover have "length all_keys = 17" by code_simp
  moreover have "map_of out k = reported f rd enabled r k" for k
    using CollectEnabled_reports [OF assms p, of k] by (simp split: option.splits)
  ultimately show ?thesis
    using keys CollectEnabled_names [OF assms(1) p] p by simp
qed

text \<open>Two of three collectors enabled, one of them failing.\<close>

definition sample_readings :: "int readings" where
  "sample_readings = \<lparr>rd_linux = True, rd_cpu = Inl ''no counters'',
     rd_virtual = Inr \<lparr>vm_UsedPercent = 40, vm_SwapTotal = 8, vm_SwapFree = 6\<rparr>, rd_swap = Inl '''',
     rd_uptime = Inr 7, rd_disk = (\<lambda>p. Inr 55), rd_info = (\<lambda>u k. NoAnswer ''''),
     rd_dragonfly = (\<lambda>a. Unconnected ''''), rd_nodes = (\<lambda>u t. NoAnswer ''''), rd_pods = (\<lambda>u t. NoAnswer ''''),
     rd_open = (\<lambda>d. Inl ''''), rd_activity = (\<lambda>h. Inl ''''), rd_max_connections = (\<lambda>h. Inl '''')\<rparr>"

definition int_ops :: "int float_ops" where
  "int_ops = \<lparr>fo_of_int = (\<lambda>n. n), fo_parse = ParseInt\<rparr>"

theorem CollectEnabled_isolated_witness:
  "\<exists>out. CollectEnabled int_ops (\<lambda>n. sample_readings) [''cpu'', ''disk'', ''k8s''] []
      (Register Disk (Register Uptime (Register CPU NewRegistry))) =
      Some (out, Register Disk (Register Uptime (Register CPU NewRegistry))) \<and>
    map_of out ''disk.used_pct'' = Some 55 \<and> map_of out ''cpu.usage'' = None \<and> length out \<le> 17"
proof -
  let ?r = "Register Disk (Register Uptime (Register CPU NewRegistry)) :: int registry"
  have run: "CollectEnabled int_ops (\<lambda>n. sample_readings) [''cpu'', ''disk'', ''k8s''] [] ?r =
      Some ([(''disk.used_pct'', 55)], ?r)" by code_simp
  have rep: "reported int_ops (\<lambda>n. sample_readings) [''cpu'', ''disk'', ''k8s''] ?r ''disk.used_pct'' = Some 55"
    "reported int_ops (\<lambda>n. sample_readings) [''cpu'', ''disk'', ''k8s''] ?r ''cpu.usage'' = None" by code_simp+
  have "registry_ok ?r" by (intro registry_ok_Register registry_ok_New)
  from CollectEnabled_isolated [OF this, of "[''cpu'', ''disk'', ''k8s'']" int_ops "\<lambda>n. sample_readings"] run rep
  show ?thesis by simp
qed



end
