(* ===== verification/Agent_Config.thy ===== *)
theory Agent_Config
  imports Agent_Collectors
begin

text \<open>
  The agent's configuration file and what follows from it (\<open>agent/config.go\<close>,
  \<open>agent/uninstall.go\<close>, and the registrations of \<open>agent/cmd/feast-watch-agent/main.go\<close>).
  \<open>net/url\<close>'s parser is the parameter \<open>parse_url\<close>; the order in which the missing keys are
  named is Go's map order.
\<close>

section \<open>Loading\<close>

record 'v config =
  MotherURL :: string
  Token :: string
  ServerName :: string
  CentrifugoAPIURL :: string
  CentrifugoAPIKey :: string
  CentrifugoConnsMax :: 'v
  DragonflyAddr :: string
  PostgresDSN :: string
  K8sAPIURL :: string
  K8sToken :: string
  UninstallCmd :: string

datatype text_file = Unreadable string | Text string "string option"

record url =
  Scheme :: string
  Host :: string

datatype config_error =
    OpenConfig string
  | MalformedLine string
  | ScanError string
  | BadConnsMax string
  | MissingRequired "string list"
  | NotURL string string string
  | BadScheme string string
  | NoHost string string

text \<open>The loop over the lines: comments and blank lines skipped, later keys override.\<close>

fun read_pairs :: "string list \<Rightarrow> (string \<times> string) list \<Rightarrow> config_error + (string \<times> string) list" where
  "read_pairs [] kv = Inr kv"
| "read_pairs (raw # ls) kv =
     (let line = TrimSpace raw in
      if line = '''' \<or> HasPrefix line ''#'' then read_pairs ls kv
      else (case Cut line CHR ''='' of
          None \<Rightarrow> Inl (MalformedLine line)
        | Some (k, v) \<Rightarrow> read_pairs ls (AList.update (TrimSpace k) (TrimSpace v) kv)))"

definition value_of :: "(string \<times> string) list \<Rightarrow> string \<Rightarrow> string" where
  "value_of kv k = (case map_of kv k of None \<Rightarrow> '''' | Some v \<Rightarrow> v)"

definition validateURL :: "(string \<Rightarrow> string + url) \<Rightarrow> string \<Rightarrow> string \<Rightarrow> config_error option" where
  "validateURL parse_url key raw =
     (case parse_url raw of
        Inl e \<Rightarrow> Some (NotURL key raw e)
      | Inr parsed \<Rightarrow>
          if Scheme parsed \<noteq> ''http'' \<and> Scheme parsed \<noteq> ''https'' then Some (BadScheme key raw)
          else if Host parsed = '''' then Some (NoHost key raw)
          else None)"

definition validateMotherURL :: "(string \<Rightarrow> string + url) \<Rightarrow> string \<Rightarrow> config_error option" where
  "validateMotherURL parse_url raw = validateURL parse_url ''MOTHER_URL'' raw"

definition config_of :: "'v \<Rightarrow> (string \<times> string) list \<Rightarrow> 'v config" where
  "config_of connsMax kv =
     \<lparr>MotherURL = value_of kv ''MOTHER_URL'', Token = value_of kv ''TOKEN'', ServerName = value_of kv ''SERVER_NAME'',
      CentrifugoAPIURL = value_of kv ''CENTRIFUGO_API_URL'', CentrifugoAPIKey = value_of kv ''CENTRIFUGO_API_KEY'',
      CentrifugoConnsMax = connsMax, DragonflyAddr = value_of kv ''DRAGONFLY_ADDR'',
      PostgresDSN = value_of kv ''POSTGRES_DSN'', K8sAPIURL = value_of kv ''K8S_API_URL'',
      K8sToken = value_of kv ''K8S_TOKEN'', UninstallCmd = value_of kv ''UNINSTALL_CMD''\<rparr>"

definition missing_keys :: "((string \<times> string) list \<Rightarrow> (string \<times> string) list) \<Rightarrow> 'v config \<Rightarrow> string list" where
  "missing_keys ord cfg =
     map fst (filter (\<lambda>(k, v). v = '''')
       (ord [(''MOTHER_URL'', MotherURL cfg), (''TOKEN'', Token cfg), (''SERVER_NAME'', ServerName cfg)]))"

definition LoadConfig ::
  "'v float_ops \<Rightarrow> (string \<Rightarrow> string + url) \<Rightarrow> ((string \<times> string) list \<Rightarrow> (string \<times> string) list)
     \<Rightarrow> text_file \<Rightarrow> config_error + 'v config" where
  "LoadConfig f parse_url ord conf =
     (case conf of
        Unreadable e \<Rightarrow> Inl (OpenConfig e)
      | Text text broken \<Rightarrow>
          (case ScanLines text broken of (ls, err) \<Rightarrow>
             (case read_pairs ls [] of
                Inl e \<Rightarrow> Inl e
              | Inr kv \<Rightarrow>
                  (case err of
                     Some e \<Rightarrow> Inl (ScanError e)
                   | None \<Rightarrow>
                       let raw = value_of kv ''CENTRIFUGO_CONNS_MAX'' in
                       (case (if raw = '''' then Some (fo_of_int f 0) else fo_parse f raw) of
                          None \<Rightarrow> Inl (BadConnsMax raw)
                        | Some connsMax \<Rightarrow>
                            let cfg = config_of connsMax kv; missing = missing_keys ord cfg in
                            if missing \<noteq> [] then Inl (MissingRequired missing)
                            else (case validateMotherURL parse_url (MotherURL cfg) of
                                Some e \<Rightarrow> Inl e | None \<Rightarrow> Inr cfg))))))"

section \<open>What the agent runs\<close>

text \<open>
  The collectors \<open>main\<close> registers: four always, and a service collector for each service the
  configuration names.
\<close>

definition agent_registry :: "'v config \<Rightarrow> 'v registry" where
  "agent_registry cfg =
     foldl (\<lambda>r c. Register c r) NewRegistry
       ([CPU, Memory, Uptime, Disk] @
        (if CentrifugoAPIURL cfg \<noteq> '''' then [Centrifugo (CentrifugoAPIURL cfg) (CentrifugoAPIKey cfg) (CentrifugoConnsMax cfg)] else []) @
        (if DragonflyAddr cfg \<noteq> '''' then [Dragonfly (DragonflyAddr cfg)] else []) @
        (if PostgresDSN cfg \<noteq> '''' then [Postgres (PostgresDSN cfg) None] else []) @
        (if K8sAPIURL cfg \<noteq> '''' then [K8s (K8sAPIURL cfg) (K8sToken cfg)] else []))"

section \<open>Removal\<close>

definition DefaultUninstaller :: string where
  "DefaultUninstaller = ''/usr/local/sbin/feast-watch-agent-uninstall''"

definition uninstallCommand :: "string \<Rightarrow> string \<Rightarrow> string \<times> string list" where
  "uninstallCommand systemdRun uninstaller =
     (if systemdRun \<noteq> ''''
      then (systemdRun, [''--unit=feast-watch-agent-uninstall'', ''--collect'', uninstaller, ''--purge'', ''--report''])
      else (uninstaller, [''--purge'', ''--report'']))"

definition uninstallerPath :: "'v config \<Rightarrow> string" where
  "uninstallerPath cfg = (if UninstallCmd cfg \<noteq> '''' then UninstallCmd cfg else DefaultUninstaller)"

text \<open>
  The host during a removal: \<open>os.Stat\<close>, the path of \<open>systemd-run\<close> (empty when there is
  none), whether the command starts, and \<open>Process.Release\<close>. The result is the error and the
  command that was started.
\<close>

record removal_host =
  rh_stat :: "string \<Rightarrow> string option"
  rh_systemdRun :: string
  rh_start :: "string \<Rightarrow> string list \<Rightarrow> string option"
  rh_release :: "string option"

definition Uninstall :: "removal_host \<Rightarrow> 'v config \<Rightarrow> string option \<times> (string \<times> string list) option" where
  "Uninstall h cfg =
     (let uninstaller = uninstallerPath cfg in
      case rh_stat h uninstaller of
        Some e \<Rightarrow> (Some (''uninstaller '' @ uninstaller @ '' is not on this host: '' @ e), None)
      | None \<Rightarrow>
          (case uninstallCommand (rh_systemdRun h) uninstaller of (name, args) \<Rightarrow>
             (case rh_start h name args of
                Some e \<Rightarrow> (Some (''start '' @ name @ '': '' @ e), None)
              | None \<Rightarrow> (rh_release h, Some (name, args)))))"

section \<open>Lemmas\<close>

lemma value_of_update: "value_of (AList.update k v kv) k' = (if k' = k then v else value_of kv k')"
  by (simp add: value_of_def map_of_update)

lemma missing_keys_None:
  assumes "any_order ord"
  shows "missing_keys ord cfg = [] \<longleftrightarrow> MotherURL cfg \<noteq> '''' \<and> Token cfg \<noteq> '''' \<and> ServerName cfg \<noteq> ''''"
  using any_order_set [OF assms, of "[(''MOTHER_URL'', MotherURL cfg), (''TOKEN'', Token cfg), (''SERVER_NAME'', ServerName cfg)]"]
  by (auto simp: missing_keys_def filter_empty_conv)

lemma LoadConfig_Inr:
  assumes "LoadConfig f parse_url ord conf = Inr cfg"
  obtains bytes kv connsMax where "conf = Text bytes None" "read_pairs (fst (ScanLines bytes None)) [] = Inr kv"
    "snd (ScanLines bytes None) = None"
    "cfg = config_of connsMax kv" "missing_keys ord cfg = []" "validateMotherURL parse_url (MotherURL cfg) = None"
    "(if value_of kv ''CENTRIFUGO_CONNS_MAX'' = '''' then Some (fo_of_int f 0)
      else fo_parse f (value_of kv ''CENTRIFUGO_CONNS_MAX'')) = Some connsMax"
proof -
  obtain bytes broken where c: "conf = Text bytes broken"
    using assms by (cases conf) (auto simp: LoadConfig_def)
  obtain ls err where s: "ScanLines bytes broken = (ls, err)" by fastforce
  obtain kv where kv: "read_pairs ls [] = Inr kv" and err: "err = None"
    using assms by (auto simp: LoadConfig_def c s split: sum.splits option.splits)
  have none: "broken = None" using s err by (auto simp: ScanLines_def Let_def split: if_splits)
  obtain m where m: "(if value_of kv ''CENTRIFUGO_CONNS_MAX'' = '''' then Some (fo_of_int f 0)
      else fo_parse f (value_of kv ''CENTRIFUGO_CONNS_MAX'')) = Some m"
    using assms c s kv err by (auto simp: LoadConfig_def Let_def split: option.splits)
  show ?thesis
    by (rule that [of bytes kv m])
      (use assms c s kv err none m in \<open>auto simp: LoadConfig_def Let_def split: option.splits if_splits\<close>)
qed

lemma registry_ok_foldl: "registry_ok r \<Longrightarrow> registry_ok (foldl (\<lambda>r c. Register c r) r cs)"
  by (induction cs arbitrary: r) (simp_all add: registry_ok_Register)

lemma registry_ok_agent: "registry_ok (agent_registry cfg)"
  unfolding agent_registry_def by (rule registry_ok_foldl [OF registry_ok_New])

lemma names_foldl: "fst ` set (foldl (\<lambda>r c. Register c r) r cs) = fst ` set r \<union> Name ` set cs"
  by (induction cs arbitrary: r) (auto simp: Register_def fst_set_update)

lemma agent_registry_names:
  "fst ` set (agent_registry cfg) =
     {''cpu'', ''memory'', ''uptime'', ''disk''} \<union> (if CentrifugoAPIURL cfg \<noteq> '''' then {''centrifugo''} else {}) \<union>
     (if DragonflyAddr cfg \<noteq> '''' then {''dragonfly''} else {}) \<union>
     (if PostgresDSN cfg \<noteq> '''' then {''postgres''} else {}) \<union> (if K8sAPIURL cfg \<noteq> '''' then {''k8s''} else {})"
  unfolding agent_registry_def names_foldl by (auto simp: NewRegistry_def)

text \<open>What a line of the file says: nothing, a key with its value, or it is malformed.\<close>

definition skipped_line :: "string \<Rightarrow> bool" where
  "skipped_line raw \<longleftrightarrow> TrimSpace raw = '''' \<or> HasPrefix (TrimSpace raw) ''#''"

definition pair_of_line :: "string \<Rightarrow> (string \<times> string) option" where
  "pair_of_line raw =
     (if skipped_line raw then None
      else map_option (\<lambda>(k, v). (TrimSpace k, TrimSpace v)) (Cut (TrimSpace raw) CHR ''=''))"

text \<open>The value of a key: what its last line gives, empty without one.\<close>

definition last_value :: "string list \<Rightarrow> string \<Rightarrow> string" where
  "last_value ls k = value_of (rev (List.map_filter pair_of_line ls)) k"

lemma read_pairs_fold:
  "read_pairs ls kv =
     (case find (\<lambda>l. \<not> skipped_line l \<and> pair_of_line l = None) ls of
        Some l \<Rightarrow> Inl (MalformedLine (TrimSpace l))
      | None \<Rightarrow> Inr (foldl (\<lambda>kv (k, v). AList.update k v kv) kv (List.map_filter pair_of_line ls)))"
  by (induction ls arbitrary: kv)
    (auto simp: skipped_line_def pair_of_line_def map_filter_simps Let_def split: option.splits)

lemma value_of_put_all: "value_of (alist.put_all ps kv) k = (case map_of (rev ps) k of None \<Rightarrow> value_of kv k | Some v \<Rightarrow> v)"
proof (induction ps rule: rev_induct)
  case (snoc p ps)
  then show ?case by (cases p) (simp add: value_of_update split: option.split)
qed simp

lemma read_pairs_Inr:
  assumes "read_pairs ls [] = Inr kv"
  shows "value_of kv k = last_value ls k" "\<forall>l \<in> set ls. skipped_line l \<or> pair_of_line l \<noteq> None"
proof -
  have none: "find (\<lambda>l. \<not> skipped_line l \<and> pair_of_line l = None) ls = None"
    and kv: "kv = alist.put_all (List.map_filter pair_of_line ls) []"
    using assms by (auto simp: read_pairs_fold split: option.splits)
  from none show "\<forall>l \<in> set ls. skipped_line l \<or> pair_of_line l \<noteq> None" by (auto simp: find_None_iff)
  show "value_of kv k = last_value ls k"
    unfolding kv value_of_put_all last_value_def by (simp add: value_of_def split: option.split)
qed

lemma read_pairs_ok:
  "\<forall>l \<in> set ls. skipped_line l \<or> pair_of_line l \<noteq> None \<Longrightarrow> \<exists>kv. read_pairs ls [] = Inr kv"
  by (auto simp: read_pairs_fold find_None_iff split: option.split)

lemma config_of_values: "(\<And>k. value_of kv k = value_of kv' k) \<Longrightarrow> config_of m kv = config_of m kv'"
  by (simp add: config_of_def)

definition reachable_url :: "(string \<Rightarrow> string + url) \<Rightarrow> string \<Rightarrow> bool" where
  "reachable_url parse_url u \<longleftrightarrow> (case parse_url u of Inl e \<Rightarrow> False
     | Inr p \<Rightarrow> (Scheme p = ''http'' \<or> Scheme p = ''https'') \<and> Host p \<noteq> '''')"

lemma validateMotherURL_None: "validateMotherURL parse_url u = None \<longleftrightarrow> reachable_url parse_url u"
  by (auto simp: validateMotherURL_def validateURL_def reachable_url_def split: sum.split)

text \<open>Everything the loader asks of the lines of a file.\<close>

definition config_lines_ok :: "'v float_ops \<Rightarrow> (string \<Rightarrow> string + url) \<Rightarrow> string list \<Rightarrow> bool" where
  "config_lines_ok f parse_url ls \<longleftrightarrow>
     (\<forall>l \<in> set ls. skipped_line l \<or> pair_of_line l \<noteq> None) \<and>
     (last_value ls ''CENTRIFUGO_CONNS_MAX'' \<noteq> '''' \<longrightarrow> fo_parse f (last_value ls ''CENTRIFUGO_CONNS_MAX'') \<noteq> None) \<and>
     last_value ls ''MOTHER_URL'' \<noteq> '''' \<and> last_value ls ''TOKEN'' \<noteq> '''' \<and> last_value ls ''SERVER_NAME'' \<noteq> '''' \<and>
     reachable_url parse_url (last_value ls ''MOTHER_URL'')"

lemma LoadConfig_lines:
  assumes "any_order ord" "ScanLines bytes broken = (ls, None)"
  shows "(\<exists>cfg. LoadConfig f parse_url ord (Text bytes broken) = Inr cfg) \<longleftrightarrow> config_lines_ok f parse_url ls"
proof
  assume "\<exists>cfg. LoadConfig f parse_url ord (Text bytes broken) = Inr cfg"
  then obtain cfg where "LoadConfig f parse_url ord (Text bytes broken) = Inr cfg" ..
  then obtain b kv m where l: "Text bytes broken = Text b None" "read_pairs (fst (ScanLines b None)) [] = Inr kv"
    "cfg = config_of m kv" "missing_keys ord cfg = []" "validateMotherURL parse_url (MotherURL cfg) = None"
    "(if value_of kv ''CENTRIFUGO_CONNS_MAX'' = '''' then Some (fo_of_int f 0)
      else fo_parse f (value_of kv ''CENTRIFUGO_CONNS_MAX'')) = Some m"
    by (rule LoadConfig_Inr)
  then have kv: "read_pairs ls [] = Inr kv" using assms(2) by simp
  from l show "config_lines_ok f parse_url ls"
    using read_pairs_Inr [OF kv]
    by (auto simp: config_lines_ok_def missing_keys_None [OF assms(1)] validateMotherURL_None config_of_def split: if_splits)
next
  assume ok: "config_lines_ok f parse_url ls"
  then obtain kv where kv: "read_pairs ls [] = Inr kv"
    using read_pairs_ok [of ls] by (auto simp: config_lines_ok_def)
  note vals = read_pairs_Inr(1) [OF kv]
  have "(if value_of kv ''CENTRIFUGO_CONNS_MAX'' = '''' then Some (fo_of_int f 0)
      else fo_parse f (value_of kv ''CENTRIFUGO_CONNS_MAX'')) \<noteq> None"
    using ok by (simp add: vals config_lines_ok_def)
  then obtain m where "(if value_of kv ''CENTRIFUGO_CONNS_MAX'' = '''' then Some (fo_of_int f 0)
      else fo_parse f (value_of kv ''CENTRIFUGO_CONNS_MAX'')) = Some m" by blast
  moreover have "missing_keys ord (config_of m kv) = []" "validateMotherURL parse_url (MotherURL (config_of m kv)) = None"
    using ok by (simp_all add: missing_keys_None [OF assms(1)] validateMotherURL_None config_of_def vals config_lines_ok_def)
  ultimately show "\<exists>cfg. LoadConfig f parse_url ord (Text bytes broken) = Inr cfg"
    using kv assms(2) by (simp add: LoadConfig_def Let_def)
qed

text \<open>The file the installer writes for an agent.\<close>

definition conf_text :: "string \<Rightarrow> string \<Rightarrow> string \<Rightarrow> string" where
  "conf_text u t n =
     concat (map (\<lambda>p. p @ [LF]) [''MOTHER_URL='' @ u, ''TOKEN='' @ t, ''SERVER_NAME='' @ n])"

lemma pair_of_plain_line:
  assumes "plain k" "plain v" "CHR ''='' \<notin> set k" "k \<noteq> ''''" "hd k \<noteq> CHR ''#''"
  shows "pair_of_line (k @ CHR ''='' # v) = Some (k, v)"
proof -
  have "plain (k @ CHR ''='' # v)" using assms(1,2) by (simp add: byte_def)
  then have "TrimSpace (k @ CHR ''='' # v) = k @ CHR ''='' # v" by (rule TrimSpace_plain)
  moreover have "\<not> HasPrefix (k @ CHR ''='' # v) ''#''" using assms(4,5) by (cases k) (auto simp: HasPrefix_def)
  moreover have "Cut (k @ CHR ''='' # v) CHR ''='' = Some (k, v)" using assms(3) by (rule Cut_append)
  ultimately show ?thesis
    by (simp add: pair_of_line_def skipped_line_def TrimSpace_plain assms(1,2))
qed

lemma conf_text_lines:
  assumes "plain u" "plain t" "plain n" "length u < 65000" "length t < 65000" "length n < 65000"
  defines "ls \<equiv> [''MOTHER_URL='' @ u, ''TOKEN='' @ t, ''SERVER_NAME='' @ n]"
  shows "ScanLines (conf_text u t n) None = (ls, None)"
    and "List.map_filter pair_of_line ls = [(''MOTHER_URL'', u), (''TOKEN'', t), (''SERVER_NAME'', n)]"
proof -
  have "\<forall>p \<in> set ls. plain p \<and> length p < MaxScanTokenSize"
    using assms(1-6) by (simp add: ls_def MaxScanTokenSize_def byte_def)
  then have "\<forall>p \<in> set ls. LF \<notin> set p \<and> CR \<notin> set p \<and> length p < MaxScanTokenSize"
    using plain_no_break by blast
  from ScanLines_concat [OF this, of None] show "ScanLines (conf_text u t n) None = (ls, None)"
    by (simp add: conf_text_def ls_def)
  show "List.map_filter pair_of_line ls = [(''MOTHER_URL'', u), (''TOKEN'', t), (''SERVER_NAME'', n)]"
    using pair_of_plain_line [of "''MOTHER_URL''" u] pair_of_plain_line [of "''TOKEN''" t]
      pair_of_plain_line [of "''SERVER_NAME''" n] assms(1-3)
    by (simp add: ls_def map_filter_simps byte_def)
qed

lemma LoadConfig_conf_text:
  assumes "any_order ord" "plain u" "plain t" "plain n" "length u < 65000" "length t < 65000" "length n < 65000"
    "t \<noteq> ''''" "n \<noteq> ''''" "u \<noteq> ''''" "reachable_url parse_url u"
  shows "\<exists>cfg. LoadConfig f parse_url ord (Text (conf_text u t n) None) = Inr cfg \<and>
    MotherURL cfg = u \<and> Token cfg = t \<and> ServerName cfg = n \<and> uninstallerPath cfg = DefaultUninstaller \<and>
    map fst (agent_registry cfg) = [''cpu'', ''memory'', ''uptime'', ''disk'']"
proof -
  define ls where "ls = [''MOTHER_URL='' @ u, ''TOKEN='' @ t, ''SERVER_NAME='' @ n]"
  note scan = conf_text_lines(1) [OF assms(2-7), folded ls_def]
    and pairs = conf_text_lines(2) [OF assms(2-7), folded ls_def]
  have vals: "last_value ls k = (if k = ''MOTHER_URL'' then u else if k = ''TOKEN'' then t else if k = ''SERVER_NAME'' then n else '''')" for k
    unfolding last_value_def pairs by (simp add: value_of_def)
  have "\<forall>l \<in> set ls. skipped_line l \<or> pair_of_line l \<noteq> None"
    unfolding ls_def using pair_of_plain_line [of "''MOTHER_URL''" u] pair_of_plain_line [of "''TOKEN''" t]
      pair_of_plain_line [of "''SERVER_NAME''" n] assms(2-4) by (simp add: byte_def)
  then have "config_lines_ok f parse_url ls"
    using assms(8-11) by (simp add: config_lines_ok_def vals)
  then obtain cfg where cfg: "LoadConfig f parse_url ord (Text (conf_text u t n) None) = Inr cfg"
    using LoadConfig_lines [OF assms(1) scan] by blast
  then obtain b kv m where "Text (conf_text u t n) None = Text b None"
    "read_pairs (fst (ScanLines b None)) [] = Inr kv" "cfg = config_of m kv"
    by (rule LoadConfig_Inr)
  with scan have kv: "read_pairs ls [] = Inr kv" "cfg = config_of m kv" by simp_all
  have "value_of kv k = last_value ls k" for k by (rule read_pairs_Inr(1) [OF kv(1)])
  then show ?thesis
    using cfg by (simp add: kv(2) config_of_def vals uninstallerPath_def agent_registry_def Register_def NewRegistry_def)
qed

section \<open>Properties\<close>

text \<open>
  C31. What configuration an agent runs with: a file is accepted exactly if it can be read to its
  end, every line is blank, a comment or KEY=VALUE, the mother's address, the token and the
  name are given, the address is an http or https URL with a host, and the connection limit is
  a number when given; every field then holds the value of the last line with its key.
\<close>

theorem LoadConfig_exact:
  assumes "any_order ord"
  shows "((\<exists>cfg. LoadConfig f parse_url ord conf = Inr cfg) \<longleftrightarrow>
      (\<exists>bytes ls. conf = Text bytes None \<and> ScanLines bytes None = (ls, None) \<and> config_lines_ok f parse_url ls)) \<and>
    (\<forall>cfg bytes. conf = Text bytes None \<longrightarrow> LoadConfig f parse_url ord conf = Inr cfg \<longrightarrow>
      (let v = last_value (fst (ScanLines bytes None)) in
       MotherURL cfg = v ''MOTHER_URL'' \<and> Token cfg = v ''TOKEN'' \<and> ServerName cfg = v ''SERVER_NAME'' \<and>
       CentrifugoAPIURL cfg = v ''CENTRIFUGO_API_URL'' \<and> CentrifugoAPIKey cfg = v ''CENTRIFUGO_API_KEY'' \<and>
       DragonflyAddr cfg = v ''DRAGONFLY_ADDR'' \<and> PostgresDSN cfg = v ''POSTGRES_DSN'' \<and>
       K8sAPIURL cfg = v ''K8S_API_URL'' \<and> K8sToken cfg = v ''K8S_TOKEN'' \<and> UninstallCmd cfg = v ''UNINSTALL_CMD'' \<and>
       Some (CentrifugoConnsMax cfg) = (if v ''CENTRIFUGO_CONNS_MAX'' = '''' then Some (fo_of_int f 0)
         else fo_parse f (v ''CENTRIFUGO_CONNS_MAX''))))"
proof (intro conjI allI impI)
  show "(\<exists>cfg. LoadConfig f parse_url ord conf = Inr cfg) \<longleftrightarrow>
      (\<exists>bytes ls. conf = Text bytes None \<and> ScanLines bytes None = (ls, None) \<and> config_lines_ok f parse_url ls)"
  proof
    assume "\<exists>cfg. LoadConfig f parse_url ord conf = Inr cfg"
    then obtain cfg where cfg: "LoadConfig f parse_url ord conf = Inr cfg" ..
    then obtain bytes where b: "conf = Text bytes None" "snd (ScanLines bytes None) = None"
      by (rule LoadConfig_Inr) simp
    then have "ScanLines bytes None = (fst (ScanLines bytes None), None)" by (simp add: prod_eq_iff)
    with cfg b LoadConfig_lines [OF assms this, of f parse_url] show "\<exists>bytes ls. conf = Text bytes None \<and>
        ScanLines bytes None = (ls, None) \<and> config_lines_ok f parse_url ls" by blast
  qed (use LoadConfig_lines [OF assms] in blast)
next
  fix cfg bytes
  assume c: "conf = Text bytes None" and l: "LoadConfig f parse_url ord conf = Inr cfg"
  from l obtain b kv m where "conf = Text b None" and kv: "read_pairs (fst (ScanLines b None)) [] = Inr kv"
    and cfg: "cfg = config_of m kv"
    and m: "(if value_of kv ''CENTRIFUGO_CONNS_MAX'' = '''' then Some (fo_of_int f 0)
      else fo_parse f (value_of kv ''CENTRIFUGO_CONNS_MAX'')) = Some m" by (rule LoadConfig_Inr)
  with c have vals: "value_of kv = last_value (fst (ScanLines bytes None))"
    using read_pairs_Inr(1) [OF kv] by auto
  from m [symmetric] show "let v = last_value (fst (ScanLines bytes None)) in
       MotherURL cfg = v ''MOTHER_URL'' \<and> Token cfg = v ''TOKEN'' \<and> ServerName cfg = v ''SERVER_NAME'' \<and>
       CentrifugoAPIURL cfg = v ''CENTRIFUGO_API_URL'' \<and> CentrifugoAPIKey cfg = v ''CENTRIFUGO_API_KEY'' \<and>
       DragonflyAddr cfg = v ''DRAGONFLY_ADDR'' \<and> PostgresDSN cfg = v ''POSTGRES_DSN'' \<and>
       K8sAPIURL cfg = v ''K8S_API_URL'' \<and> K8sToken cfg = v ''K8S_TOKEN'' \<and> UninstallCmd cfg = v ''UNINSTALL_CMD'' \<and>
       Some (CentrifugoConnsMax cfg) = (if v ''CENTRIFUGO_CONNS_MAX'' = '''' then Some (fo_of_int f 0)
         else fo_parse f (v ''CENTRIFUGO_CONNS_MAX''))"
    by (simp only: cfg config_of_def Let_def vals config.simps)
qed

theorem LoadConfig_exact_witness:
  "\<exists>cfg. LoadConfig int_ops (\<lambda>u. Inr \<lparr>Scheme = ''http'', Host = ''m''\<rparr>) as_listed
      (Text (conf_text ''http://m'' ''tk'' ''web'') None) = Inr cfg \<and>
    Token cfg = ''tk'' \<and> last_value (fst (ScanLines (conf_text ''http://m'' ''tk'' ''web'') None)) ''TOKEN'' = ''tk''"
proof -
  let ?parse = "\<lambda>u :: string. Inr \<lparr>Scheme = ''http'', Host = ''m''\<rparr> :: string + url"
  have "plain ''http://m''" "plain ''tk''" "plain ''web''" by (simp_all add: byte_def)
  then obtain cfg where cfg: "LoadConfig int_ops ?parse as_listed (Text (conf_text ''http://m'' ''tk'' ''web'') None) = Inr cfg"
    "Token cfg = ''tk''"
    using LoadConfig_conf_text [of as_listed "''http://m''" "''tk''" "''web''" ?parse int_ops]
    by (auto simp: reachable_url_def)
  with LoadConfig_exact [of as_listed int_ops ?parse "Text (conf_text ''http://m'' ''tk'' ''web'') None"]
  show ?thesis by (auto simp: Let_def)
qed

end
