(* ===== verification/Agent_Loop.thy ===== *)
theory Agent_Loop
  imports Agent_Config Self_Update Protocol Throttle
begin

text \<open>
  The agent's push loop (\<open>agent/loop.go\<close>) and its self-update (\<open>agent/update.go\<close>). A round is
  one \<open>RunOnce\<close>; what it meets outside the process (readings, the mother's answer, the clock,
  the disk) is the record \<open>round\<close>. Each round also yields the event an observer sees: the
  request built, the answer, and what was called.
\<close>

section \<open>State\<close>

definition defaultInterval :: int where "defaultInterval = 10"
definition updateRetryGap :: int where "updateRetryGap = 5 * Minute"
definition uninstallRetryGap :: int where "uninstallRetryGap = 5 * Minute"

record 'v loop =
  lp_cfg :: "'v config"
  lp_reg :: "'v registry"
  lp_enabled :: "string list"
  lp_interval :: int
  lp_pushed :: bool
  lp_updateErr :: string
  lp_updateTarget :: string
  lp_lastUpdateAt :: int
  lp_uninstallErr :: string
  lp_lastUninstallAt :: int

definition NewLoopWithClient :: "'v config \<Rightarrow> 'v registry \<Rightarrow> 'v loop" where
  "NewLoopWithClient cfg reg =
     \<lparr>lp_cfg = cfg, lp_reg = reg, lp_enabled = [''cpu'', ''memory'', ''uptime'', ''disk''],
      lp_interval = defaultInterval, lp_pushed = False, lp_updateErr = '''', lp_updateTarget = '''',
      lp_lastUpdateAt = zeroTime, lp_uninstallErr = '''', lp_lastUninstallAt = zeroTime\<rparr>"

text \<open>What the build fixed: the version, \<open>GOOS\<close> and \<open>GOARCH\<close>.\<close>

record binary =
  bn_Version :: string
  bn_OS :: string
  bn_Arch :: string

text \<open>
  A POST with its bearer token: no answer, or a status with the decoded body. A reading of the
  host's name and address for the first push; the executable's path for an update.
\<close>

datatype post_reply = Unsent string | Replied int "string + ingest_response"

record 'v round =
  ro_readings :: "nat \<Rightarrow> 'v readings"
  ro_hostname :: string
  ro_ip :: string
  ro_order :: "string list \<Rightarrow> string list"
  ro_marshal :: "'v ingest_request \<Rightarrow> string option"
  ro_post :: "string \<Rightarrow> string \<Rightarrow> 'v ingest_request \<Rightarrow> post_reply"
  ro_now :: int
  ro_executable :: "string + string"
  ro_get :: "string \<Rightarrow> http_reply"
  ro_disk :: disk
  ro_removal :: removal_host

section \<open>One push\<close>

definition push_request ::
  "'v::{plus,divide,times} float_ops \<Rightarrow> binary \<Rightarrow> 'v round \<Rightarrow> 'v loop \<Rightarrow> ('v ingest_request \<times> 'v registry) option" where
  "push_request f b ro l =
     (case CollectEnabled f (ro_readings ro) (lp_enabled l) [] (lp_reg l) of
        None \<Rightarrow> None
      | Some (samples, reg) \<Rightarrow>
          Some (\<lparr>iq_Server = ServerName (lp_cfg l), iq_AgentVersion = bn_Version b,
             iq_Hostname = (if lp_pushed l then '''' else ro_hostname ro),
             iq_IP = (if lp_pushed l then '''' else ro_ip ro),
             iq_OS = (if lp_pushed l then '''' else bn_OS b),
             iq_Arch = (if lp_pushed l then '''' else bn_Arch b),
             iq_Capabilities = (if lp_pushed l then [] else Names (ro_order ro) reg),
             iq_UpdateError = lp_updateErr l, iq_UninstallError = lp_uninstallErr l,
             iq_Samples = samples\<rparr>, reg))"

text \<open>What the mother's answer changes.\<close>

definition adopt :: "ingest_response \<Rightarrow> 'v loop \<Rightarrow> 'v loop" where
  "adopt resp l =
     l\<lparr>lp_pushed := True,
       lp_enabled := (if ir_Collectors resp \<noteq> [] then ir_Collectors resp else lp_enabled l),
       lp_interval := (if ir_Interval resp > 0 then ir_Interval resp else lp_interval l)\<rparr>"

definition PushOnce ::
  "'v::{plus,divide,times} float_ops \<Rightarrow> binary \<Rightarrow> 'v round \<Rightarrow> 'v loop
     \<Rightarrow> ('v ingest_request \<times> (string + ingest_response) \<times> 'v loop) option" where
  "PushOnce f b ro l =
     (case push_request f b ro l of
        None \<Rightarrow> None
      | Some (req, reg) \<Rightarrow>
          let l1 = l\<lparr>lp_reg := reg\<rparr> in
          Some (case ro_marshal ro req of
              Some e \<Rightarrow> (req, Inl e, l1)
            | None \<Rightarrow>
                (case ro_post ro (MotherURL (lp_cfg l) @ ''/v1/ingest'') (Token (lp_cfg l)) req of
                   Unsent e \<Rightarrow> (req, Inl e, l1)
                 | Replied code body \<Rightarrow>
                     if code \<noteq> 200 then (req, Inl (''ingest returned '' @ Itoa code), l1)
                     else (case body of
                         Inl e \<Rightarrow> (req, Inl e, l1)
                       | Inr resp \<Rightarrow> (req, Inr resp, adopt resp l1)))))"

section \<open>Acting on the answer\<close>

text \<open>
  \<open>update\<close> and \<open>uninstall\<close> act on a world of any type; the first component of an attempt is
  the result of the call, \<open>None\<close> when there was none.
\<close>

definition error_text :: "string option \<Rightarrow> string" where
  "error_text r = (case r of None \<Rightarrow> '''' | Some e \<Rightarrow> e)"

definition tryUninstall ::
  "int \<Rightarrow> ('w \<Rightarrow> string option \<times> 'w) option \<Rightarrow> 'v loop \<Rightarrow> 'w \<Rightarrow> string option option \<times> 'v loop \<times> 'w" where
  "tryUninstall now uninstall l w =
     (case uninstall of
        None \<Rightarrow> (None, l\<lparr>lp_uninstallErr := ''this agent cannot remove itself (no uninstaller wired in)''\<rparr>, w)
      | Some u \<Rightarrow>
          if lp_lastUninstallAt l \<noteq> zeroTime \<and> time_sub now (lp_lastUninstallAt l) < uninstallRetryGap
          then (None, l, w)
          else let l1 = l\<lparr>lp_lastUninstallAt := now\<rparr> in
            (case u w of (r, w') \<Rightarrow> (Some r, l1\<lparr>lp_uninstallErr := error_text r\<rparr>, w')))"

definition tryUpdate ::
  "int \<Rightarrow> (string \<Rightarrow> 'w \<Rightarrow> string option \<times> 'w) \<Rightarrow> string \<Rightarrow> 'v loop \<Rightarrow> 'w
     \<Rightarrow> string option option \<times> 'v loop \<times> 'w" where
  "tryUpdate now update desired l w =
     (if desired = lp_updateTarget l \<and> time_sub now (lp_lastUpdateAt l) < updateRetryGap then (None, l, w)
      else let l1 = l\<lparr>lp_updateTarget := desired, lp_lastUpdateAt := now\<rparr> in
        (case update desired w of (r, w') \<Rightarrow> (Some r, l1\<lparr>lp_updateErr := error_text r\<rparr>, w')))"

definition forgetUpdate :: "'v loop \<Rightarrow> 'v loop" where
  "forgetUpdate l = l\<lparr>lp_updateErr := '''', lp_updateTarget := '''', lp_lastUpdateAt := zeroTime\<rparr>"

datatype called = Nothing | Update string "string option" | Removal "string option"

record 'v event =
  ev_request :: "'v ingest_request"
  ev_answer :: "string + ingest_response"
  ev_called :: called

definition RunOnce ::
  "'v::{plus,divide,times} float_ops \<Rightarrow> binary \<Rightarrow> (string \<Rightarrow> 'w \<Rightarrow> string option \<times> 'w)
     \<Rightarrow> ('w \<Rightarrow> string option \<times> 'w) option \<Rightarrow> 'v round \<Rightarrow> 'v loop \<Rightarrow> 'w \<Rightarrow> ('v event \<times> 'v loop \<times> 'w) option" where
  "RunOnce f b update uninstall ro l w =
     (case PushOnce f b ro l of
        None \<Rightarrow> None
      | Some (req, answer, l1) \<Rightarrow>
          let ev = (\<lambda>c. \<lparr>ev_request = req, ev_answer = answer, ev_called = c\<rparr>) in
          Some (case answer of
              Inl e \<Rightarrow> (ev Nothing, l1, w)
            | Inr resp \<Rightarrow>
                if ir_Uninstall resp then
                  (case tryUninstall (ro_now ro) uninstall l1 w of
                     (tried, l2, w') \<Rightarrow> (ev (case tried of None \<Rightarrow> Nothing | Some r \<Rightarrow> Removal r), l2, w'))
                else if ir_DesiredVersion resp = '''' \<or> ir_DesiredVersion resp = bn_Version b then
                  (ev Nothing, forgetUpdate l1, w)
                else
                  (case tryUpdate (ro_now ro) update (ir_DesiredVersion resp) l1 w of
                     (tried, l2, w') \<Rightarrow> (ev (case tried of None \<Rightarrow> Nothing | Some r \<Rightarrow> Update (ir_DesiredVersion resp) r), l2, w'))))"

section \<open>The process\<close>

text \<open>
  The host as the agent changes it: its files, how often the process asked to exit, and the
  commands it started.
\<close>

record world =
  aw_files :: files
  aw_exits :: nat
  aw_started :: "(string \<times> string list) list"

text \<open>\<open>SelfUpdateWithClient\<close> and \<open>selfUpdate\<close>.\<close>

definition selfUpdate ::
  "(string \<Rightarrow> nat list) \<Rightarrow> (nat \<Rightarrow> nat) \<Rightarrow> (update_error \<Rightarrow> string) \<Rightarrow> binary \<Rightarrow> 'v round \<Rightarrow> 'v config
     \<Rightarrow> string \<Rightarrow> string \<Rightarrow> world \<Rightarrow> string option \<times> world" where
  "selfUpdate sha256 lr show_update b ro cfg target desired w =
     (case Place (ro_get ro) sha256 lr (ro_disk ro) (MotherURL cfg) desired (AssetName (bn_OS b) (bn_Arch b)) target (aw_files w) of
        (Inl e, fs) \<Rightarrow> (Some (show_update e), w\<lparr>aw_files := fs\<rparr>)
      | (Inr u, fs) \<Rightarrow> (None, w\<lparr>aw_files := fs, aw_exits := aw_exits w + 1\<rparr>))"

definition SelfUpdateWithClient ::
  "(string \<Rightarrow> nat list) \<Rightarrow> (nat \<Rightarrow> nat) \<Rightarrow> (update_error \<Rightarrow> string) \<Rightarrow> binary \<Rightarrow> 'v round \<Rightarrow> 'v config
     \<Rightarrow> string \<Rightarrow> world \<Rightarrow> string option \<times> world" where
  "SelfUpdateWithClient sha256 lr show_update b ro cfg desired w =
     (case ro_executable ro of
        Inl e \<Rightarrow> (Some e, w)
      | Inr self \<Rightarrow> selfUpdate sha256 lr show_update b ro cfg self desired w)"

definition run_uninstall :: "'v round \<Rightarrow> 'v config \<Rightarrow> world \<Rightarrow> string option \<times> world" where
  "run_uninstall ro cfg w =
     (case Uninstall (ro_removal ro) cfg of
        (err, None) \<Rightarrow> (err, w)
      | (err, Some cmd) \<Rightarrow> (err, w\<lparr>aw_started := aw_started w @ [cmd]\<rparr>))"

text \<open>A round of the agent as \<open>main\<close> wires it.\<close>

definition agent_round ::
  "'v::{plus,divide,times} float_ops \<Rightarrow> (string \<Rightarrow> nat list) \<Rightarrow> (nat \<Rightarrow> nat) \<Rightarrow> (update_error \<Rightarrow> string) \<Rightarrow> binary
     \<Rightarrow> 'v round \<Rightarrow> 'v loop \<Rightarrow> world \<Rightarrow> ('v event \<times> 'v loop \<times> world) option" where
  "agent_round f sha256 lr show_update b ro l w =
     RunOnce f b (SelfUpdateWithClient sha256 lr show_update b ro (lp_cfg l))
       (Some (run_uninstall ro (lp_cfg l))) ro l w"

text \<open>
  \<open>Run\<close>: round after round until the process ends, by an exit after an update or by a panic.
  The result says whether the process is still running.
\<close>

fun agent_run ::
  "'v::{plus,divide,times} float_ops \<Rightarrow> (string \<Rightarrow> nat list) \<Rightarrow> (nat \<Rightarrow> nat) \<Rightarrow> (update_error \<Rightarrow> string) \<Rightarrow> binary
     \<Rightarrow> 'v round list \<Rightarrow> 'v loop \<Rightarrow> world \<Rightarrow> bool \<times> 'v event list \<times> 'v loop \<times> world" where
  "agent_run f sha256 lr show_update b [] l w = (True, [], l, w)"
| "agent_run f sha256 lr show_update b (ro # ros) l w =
     (case agent_round f sha256 lr show_update b ro l w of
        None \<Rightarrow> (False, [], l, w)
      | Some (ev, l', w') \<Rightarrow>
          if aw_exits w' \<noteq> aw_exits w then (False, [ev], l', w')
          else (case agent_run f sha256 lr show_update b ros l' w' of
              (alive, evs, l'', w'') \<Rightarrow> (alive, ev # evs, l'', w'')))"

text \<open>
  \<open>main\<close> of the agent, over what its configuration file holds and the rounds that come: it exits
  with code 1, or runs its loop with the collectors its configuration names.
\<close>

datatype 'v process = ConfigRefused config_error | Ran "bool \<times> 'v event list \<times> 'v loop \<times> world"

definition agent_main ::
  "'v::{plus,divide,times} float_ops \<Rightarrow> (string \<Rightarrow> string + url) \<Rightarrow> ((string \<times> string) list \<Rightarrow> (string \<times> string) list)
     \<Rightarrow> (string \<Rightarrow> nat list) \<Rightarrow> (nat \<Rightarrow> nat) \<Rightarrow> (update_error \<Rightarrow> string) \<Rightarrow> binary
     \<Rightarrow> text_file \<Rightarrow> 'v round list \<Rightarrow> world \<Rightarrow> 'v process" where
  "agent_main f parse_url ord sha256 lr show_update b conf ros w =
     (case LoadConfig f parse_url ord conf of
        Inl e \<Rightarrow> ConfigRefused e
      | Inr cfg \<Rightarrow> Ran (agent_run f sha256 lr show_update b ros (NewLoopWithClient cfg (agent_registry cfg)) w))"

text \<open>The pause between two rounds.\<close>

definition push_delay :: "'v loop \<Rightarrow> int" where
  "push_delay l = wrap64 (lp_interval l * Second)"

section \<open>One round\<close>

text \<open>
  A push changes the registry's handles, and, when it is answered, what the answer carries; it
  leaves the state of updates and removals alone.
\<close>

lemma PushOnce_Some:
  assumes "PushOnce f b ro l = Some (req, answer, l1)"
  obtains reg where "push_request f b ro l = Some (req, reg)"
    "l1 = (case answer of Inl e \<Rightarrow> l\<lparr>lp_reg := reg\<rparr> | Inr resp \<Rightarrow> adopt resp (l\<lparr>lp_reg := reg\<rparr>))"
    "\<And>resp. answer = Inr resp \<Longrightarrow>
       ro_post ro (MotherURL (lp_cfg l) @ ''/v1/ingest'') (Token (lp_cfg l)) req = Replied 200 (Inr resp)"
  using assms
  by (auto simp: PushOnce_def Let_def split: option.splits post_reply.splits if_splits sum.splits)

lemma adopt_fields [simp]:
  "lp_cfg (adopt r l) = lp_cfg l" "lp_reg (adopt r l) = lp_reg l" "lp_pushed (adopt r l)"
  "lp_updateErr (adopt r l) = lp_updateErr l" "lp_updateTarget (adopt r l) = lp_updateTarget l"
  "lp_lastUpdateAt (adopt r l) = lp_lastUpdateAt l" "lp_uninstallErr (adopt r l) = lp_uninstallErr l"
  "lp_lastUninstallAt (adopt r l) = lp_lastUninstallAt l"
  by (simp_all add: adopt_def)

text \<open>The state an answer is acted on in.\<close>

abbreviation after_push :: "'v registry \<Rightarrow> string + ingest_response \<Rightarrow> 'v loop \<Rightarrow> 'v loop" where
  "after_push reg answer l \<equiv>
     (case answer of Inl e \<Rightarrow> l\<lparr>lp_reg := reg\<rparr> | Inr resp \<Rightarrow> adopt resp (l\<lparr>lp_reg := reg\<rparr>))"

lemma after_push_fields [simp]:
  "lp_cfg (after_push reg answer l) = lp_cfg l" "lp_reg (after_push reg answer l) = reg"
  "lp_updateErr (after_push reg answer l) = lp_updateErr l" "lp_updateTarget (after_push reg answer l) = lp_updateTarget l"
  "lp_lastUpdateAt (after_push reg answer l) = lp_lastUpdateAt l" "lp_uninstallErr (after_push reg answer l) = lp_uninstallErr l"
  "lp_lastUninstallAt (after_push reg answer l) = lp_lastUninstallAt l"
  "lp_pushed (after_push reg answer l) = (lp_pushed l \<or> (\<exists>r. answer = Inr r))"
  by (cases answer; simp)+

lemma RunOnce_cases:
  assumes "RunOnce f b update uninstall ro l w = Some (ev, l', w')"
  obtains
    (unanswered) reg e where "push_request f b ro l = Some (ev_request ev, reg)" "ev_answer ev = Inl e"
      "ev_called ev = Nothing" "l' = after_push reg (Inl e) l" "w' = w"
  | (remove) reg resp tried where "push_request f b ro l = Some (ev_request ev, reg)" "ev_answer ev = Inr resp"
      "ro_post ro (MotherURL (lp_cfg l) @ ''/v1/ingest'') (Token (lp_cfg l)) (ev_request ev) = Replied 200 (Inr resp)"
      "ir_Uninstall resp" "tryUninstall (ro_now ro) uninstall (after_push reg (Inr resp) l) w = (tried, l', w')"
      "ev_called ev = (case tried of None \<Rightarrow> Nothing | Some r \<Rightarrow> Removal r)"
  | (forget) reg resp where "push_request f b ro l = Some (ev_request ev, reg)" "ev_answer ev = Inr resp"
      "ro_post ro (MotherURL (lp_cfg l) @ ''/v1/ingest'') (Token (lp_cfg l)) (ev_request ev) = Replied 200 (Inr resp)"
      "\<not> ir_Uninstall resp" "ir_DesiredVersion resp = '''' \<or> ir_DesiredVersion resp = bn_Version b"
      "l' = forgetUpdate (after_push reg (Inr resp) l)" "w' = w" "ev_called ev = Nothing"
  | (target) reg resp tried where "push_request f b ro l = Some (ev_request ev, reg)" "ev_answer ev = Inr resp"
      "ro_post ro (MotherURL (lp_cfg l) @ ''/v1/ingest'') (Token (lp_cfg l)) (ev_request ev) = Replied 200 (Inr resp)"
      "\<not> ir_Uninstall resp" "ir_DesiredVersion resp \<noteq> ''''" "ir_DesiredVersion resp \<noteq> bn_Version b"
      "tryUpdate (ro_now ro) update (ir_DesiredVersion resp) (after_push reg (Inr resp) l) w = (tried, l', w')"
      "ev_called ev = (case tried of None \<Rightarrow> Nothing | Some r \<Rightarrow> Update (ir_DesiredVersion resp) r)"
proof -
  obtain req answer l1 where p: "PushOnce f b ro l = Some (req, answer, l1)"
    using assms by (auto simp: RunOnce_def split: option.splits)
  then obtain reg where reg: "push_request f b ro l = Some (req, reg)" and l1: "l1 = after_push reg answer l"
    and post: "\<And>resp. answer = Inr resp \<Longrightarrow>
       ro_post ro (MotherURL (lp_cfg l) @ ''/v1/ingest'') (Token (lp_cfg l)) req = Replied 200 (Inr resp)"
    by (rule PushOnce_Some) blast
  show ?thesis
  proof (cases answer)
    case (Inl e)
    with assms p l1 reg show ?thesis by (intro unanswered) (auto simp: RunOnce_def Let_def)
  next
    case (Inr resp)
    note post = post [OF Inr]
    consider "ir_Uninstall resp" | "\<not> ir_Uninstall resp" "ir_DesiredVersion resp = '''' \<or> ir_DesiredVersion resp = bn_Version b"
      | "\<not> ir_Uninstall resp" "ir_DesiredVersion resp \<noteq> ''''" "ir_DesiredVersion resp \<noteq> bn_Version b" by blast
    then show ?thesis
    proof cases
      case 1
      obtain tried l2 w2 where t: "tryUninstall (ro_now ro) uninstall l1 w = (tried, l2, w2)" by (cases "tryUninstall (ro_now ro) uninstall l1 w")
      with assms p l1 reg Inr 1 post show ?thesis
        by (intro remove [of reg resp tried]) (auto simp: RunOnce_def Let_def)
    next
      case 2
      with assms p l1 reg Inr post show ?thesis
        by (intro forget [of reg resp]) (auto simp: RunOnce_def Let_def)
    next
      case 3
      obtain tried l2 w2 where t: "tryUpdate (ro_now ro) update (ir_DesiredVersion resp) l1 w = (tried, l2, w2)"
        by (cases "tryUpdate (ro_now ro) update (ir_DesiredVersion resp) l1 w")
      with assms p l1 reg Inr 3 post show ?thesis
        by (intro target [of reg resp tried]) (auto simp: RunOnce_def Let_def)
    qed
  qed
qed

lemma tryUpdate_result:
  assumes "tryUpdate now update desired l w = (tried, l', w')"
  shows "tried \<noteq> None \<longleftrightarrow> \<not> (desired = lp_updateTarget l \<and> time_sub now (lp_lastUpdateAt l) < updateRetryGap)"
    and "tried = None \<Longrightarrow> l' = l \<and> w' = w"
    and "tried = Some r \<Longrightarrow> lp_updateTarget l' = desired \<and> lp_lastUpdateAt l' = now \<and>
      lp_updateErr l' = error_text r \<and> update desired w = (r, w')"
    and "lp_cfg l' = lp_cfg l" "lp_reg l' = lp_reg l" "lp_pushed l' = lp_pushed l" "lp_enabled l' = lp_enabled l"
      "lp_lastUninstallAt l' = lp_lastUninstallAt l" "lp_uninstallErr l' = lp_uninstallErr l"
  using assms by (auto simp: tryUpdate_def Let_def split: if_splits prod.splits option.splits)

lemma tryUninstall_result:
  assumes "tryUninstall now uninstall l w = (tried, l', w')"
  shows "tried \<noteq> None \<longleftrightarrow> uninstall \<noteq> None \<and>
      \<not> (lp_lastUninstallAt l \<noteq> zeroTime \<and> time_sub now (lp_lastUninstallAt l) < uninstallRetryGap)"
    and "lp_lastUninstallAt l' = (if tried = None then lp_lastUninstallAt l else now)"
    and "tried = None \<Longrightarrow> w' = w" and "tried = None \<Longrightarrow> uninstall \<noteq> None \<Longrightarrow> l' = l"
    and "tried = Some r \<Longrightarrow> lp_uninstallErr l' = error_text r \<and> the uninstall w = (r, w')"
    and "lp_cfg l' = lp_cfg l" "lp_reg l' = lp_reg l" "lp_pushed l' = lp_pushed l" "lp_enabled l' = lp_enabled l"
      "lp_updateErr l' = lp_updateErr l" "lp_updateTarget l' = lp_updateTarget l" "lp_lastUpdateAt l' = lp_lastUpdateAt l"
  using assms by (auto simp: tryUninstall_def split: if_splits prod.splits option.splits)

lemma forgetUpdate_fields [simp]:
  "lp_cfg (forgetUpdate l) = lp_cfg l" "lp_reg (forgetUpdate l) = lp_reg l" "lp_pushed (forgetUpdate l) = lp_pushed l"
  "lp_updateErr (forgetUpdate l) = ''''" "lp_updateTarget (forgetUpdate l) = ''''"
  "lp_lastUninstallAt (forgetUpdate l) = lp_lastUninstallAt l" "lp_uninstallErr (forgetUpdate l) = lp_uninstallErr l"
  by (simp_all add: forgetUpdate_def)

section \<open>The two retry gaps\<close>

text \<open>A round in which the mother, if it answers at all, asks for version \<open>v\<close>.\<close>

definition asks_for :: "string \<Rightarrow> string \<Rightarrow> 'v round \<Rightarrow> bool" where
  "asks_for running v ro \<longleftrightarrow> v \<noteq> '''' \<and> v \<noteq> running \<and>
     (\<forall>url token req resp. ro_post ro url token req = Replied 200 (Inr resp) \<longrightarrow>
        \<not> ir_Uninstall resp \<and> ir_DesiredVersion resp = v)"

text \<open>One round as an attempt, the calls in question given by \<open>c\<close>.\<close>

fun is_update :: "string \<Rightarrow> called \<Rightarrow> bool" where
  "is_update v (Update u r) = (u = v)"
| "is_update v c = False"

fun is_removal :: "called \<Rightarrow> bool" where
  "is_removal (Removal r) = True"
| "is_removal c = False"

definition attempt ::
  "'v::{plus,divide,times} float_ops \<Rightarrow> (string \<Rightarrow> nat list) \<Rightarrow> (nat \<Rightarrow> nat) \<Rightarrow> (update_error \<Rightarrow> string) \<Rightarrow> binary
     \<Rightarrow> (called \<Rightarrow> bool) \<Rightarrow> 'v round \<Rightarrow> 'v loop \<times> world \<Rightarrow> bool \<times> 'v loop \<times> world" where
  "attempt f sha256 lr show_update b c ro s =
     (case agent_round f sha256 lr show_update b ro (fst s) (snd s) of
        None \<Rightarrow> (False, s) | Some (ev, l', w') \<Rightarrow> (c (ev_called ev), l', w'))"

lemma attempt_True:
  "attempt f sha256 lr show_update b c ro s = (True, s') \<Longrightarrow>
   \<exists>ev. agent_round f sha256 lr show_update b ro (fst s) (snd s) = Some (ev, fst s', snd s') \<and> c (ev_called ev)"
  by (auto simp: attempt_def split: option.splits prod.splits)

lemma attempt_False:
  "attempt f sha256 lr show_update b c ro s = (False, s') \<Longrightarrow> s' = s \<or>
   (\<exists>ev. agent_round f sha256 lr show_update b ro (fst s) (snd s) = Some (ev, fst s', snd s') \<and> \<not> c (ev_called ev))"
  by (auto simp: attempt_def split: option.splits prod.splits)

definition last_update :: "string \<Rightarrow> 'v loop \<times> world \<Rightarrow> int option" where
  "last_update v s = (if lp_updateTarget (fst s) = v then Some (lp_lastUpdateAt (fst s)) else None)"

definition last_removal :: "'v loop \<times> world \<Rightarrow> int option" where
  "last_removal s = (if lp_lastUninstallAt (fst s) = zeroTime then None else Some (lp_lastUninstallAt (fst s)))"

lemma round_asked:
  assumes "agent_round f sha256 lr show_update b ro l w = Some (ev, l', w')" "asks_for (bn_Version b) v ro"
  obtains (unanswered) reg e where "push_request f b ro l = Some (ev_request ev, reg)" "ev_answer ev = Inl e"
      "ev_called ev = Nothing" "l' = after_push reg (Inl e) l" "w' = w"
  | (target) reg resp tried where "push_request f b ro l = Some (ev_request ev, reg)" "ev_answer ev = Inr resp"
      "tryUpdate (ro_now ro) (SelfUpdateWithClient sha256 lr show_update b ro (lp_cfg l)) v
         (after_push reg (Inr resp) l) w = (tried, l', w')"
      "ev_called ev = (case tried of None \<Rightarrow> Nothing | Some r \<Rightarrow> Update v r)"
  using assms(1) unfolding agent_round_def
proof (cases rule: RunOnce_cases)
  case (remove reg resp tried)
  with assms(2) show ?thesis unfolding asks_for_def by blast
next
  case (forget reg resp)
  with assms(2) show ?thesis unfolding asks_for_def by metis
next
  case (target reg resp tried)
  have v: "ir_DesiredVersion resp = v" using target(3) assms(2) unfolding asks_for_def by blast
  show ?thesis using that(2) [OF target(1,2)] target(7,8) unfolding v by blast
qed (rule that(1))

lemma round_update:
  assumes "agent_round f sha256 lr show_update b ro l w = Some (ev, l', w')" "asks_for (bn_Version b) v ro"
  shows "is_update v (ev_called ev) \<Longrightarrow> lp_updateTarget l' = v \<and> lp_lastUpdateAt l' = ro_now ro"
    and "\<not> is_update v (ev_called ev) \<Longrightarrow> lp_updateTarget l' = lp_updateTarget l \<and> lp_lastUpdateAt l' = lp_lastUpdateAt l"
    and "lp_updateTarget l = v \<Longrightarrow> time_sub (ro_now ro) (lp_lastUpdateAt l) < updateRetryGap \<Longrightarrow> \<not> is_update v (ev_called ev)"
proof -
  have "(is_update v (ev_called ev) \<longrightarrow> lp_updateTarget l' = v \<and> lp_lastUpdateAt l' = ro_now ro) \<and>
    (\<not> is_update v (ev_called ev) \<longrightarrow> lp_updateTarget l' = lp_updateTarget l \<and> lp_lastUpdateAt l' = lp_lastUpdateAt l) \<and>
    (lp_updateTarget l = v \<longrightarrow> time_sub (ro_now ro) (lp_lastUpdateAt l) < updateRetryGap \<longrightarrow> \<not> is_update v (ev_called ev))"
    using assms
  proof (cases rule: round_asked)
    case (unanswered reg e)
    then show ?thesis by simp
  next
    case (target reg resp tried)
    from tryUpdate_result(1-3) [OF target(3)] target(4) show ?thesis by (cases tried) simp_all
  qed
  then show "is_update v (ev_called ev) \<Longrightarrow> lp_updateTarget l' = v \<and> lp_lastUpdateAt l' = ro_now ro"
    and "\<not> is_update v (ev_called ev) \<Longrightarrow> lp_updateTarget l' = lp_updateTarget l \<and> lp_lastUpdateAt l' = lp_lastUpdateAt l"
    and "lp_updateTarget l = v \<Longrightarrow> time_sub (ro_now ro) (lp_lastUpdateAt l) < updateRetryGap \<Longrightarrow> \<not> is_update v (ev_called ev)"
    by blast+
qed

lemma round_removal:
  assumes "agent_round f sha256 lr show_update b ro l w = Some (ev, l', w')"
  shows "lp_lastUninstallAt l' = (if is_removal (ev_called ev) then ro_now ro else lp_lastUninstallAt l)"
    and "is_removal (ev_called ev) \<Longrightarrow> lp_lastUninstallAt l \<noteq> zeroTime \<Longrightarrow>
      \<not> time_sub (ro_now ro) (lp_lastUninstallAt l) < uninstallRetryGap"
proof -
  have "lp_lastUninstallAt l' = (if is_removal (ev_called ev) then ro_now ro else lp_lastUninstallAt l) \<and>
    (is_removal (ev_called ev) \<longrightarrow> lp_lastUninstallAt l \<noteq> zeroTime \<longrightarrow>
      \<not> time_sub (ro_now ro) (lp_lastUninstallAt l) < uninstallRetryGap)"
    using assms unfolding agent_round_def
  proof (cases rule: RunOnce_cases)
    case (remove reg resp tried)
    from tryUninstall_result(1,2) [OF remove(5)] remove(6) show ?thesis by (cases tried) auto
  next
    case (target reg resp tried)
    from tryUpdate_result(8) [OF target(7)] target(8) show ?thesis by (cases tried) simp_all
  qed simp_all
  then show "lp_lastUninstallAt l' = (if is_removal (ev_called ev) then ro_now ro else lp_lastUninstallAt l)"
    and "is_removal (ev_called ev) \<Longrightarrow> lp_lastUninstallAt l \<noteq> zeroTime \<Longrightarrow>
      \<not> time_sub (ro_now ro) (lp_lastUninstallAt l) < uninstallRetryGap" by blast+
qed

interpretation update_throttle: throttle updateRetryGap "last_update v" ro_now "asks_for (bn_Version b) v"
  "attempt f sha256 lr show_update b (is_update v)"
proof unfold_locales
  show "0 < updateRetryGap" "updateRetryGap \<le> maxDuration" by (simp_all add: updateRetryGap_def)
next
  fix e :: "'a round" and s s'
  assume a: "asks_for (bn_Version b) v e" "attempt f sha256 lr show_update b (is_update v) e s = (True, s')"
  from round_update(1) [OF _ a(1)] attempt_True [OF a(2)] show "last_update v s' = Some (ro_now e)"
    by (fastforce simp: last_update_def)
next
  fix e :: "'a round" and s s'
  assume a: "asks_for (bn_Version b) v e" "attempt f sha256 lr show_update b (is_update v) e s = (False, s')"
  from round_update(2) [OF _ a(1)] attempt_False [OF a(2)] show "last_update v s' = last_update v s"
    by (fastforce simp: last_update_def)
next
  fix e :: "'a round" and s :: "'a loop \<times> world" and t
  assume a: "asks_for (bn_Version b) v e" "last_update v s = Some t" "time_sub (ro_now e) t < updateRetryGap"
  from round_update(3) [OF _ a(1)] a(2,3) show "\<not> fst (attempt f sha256 lr show_update b (is_update v) e s)"
    by (fastforce simp: attempt_def last_update_def split: if_splits option.splits)
qed

interpretation removal_throttle: throttle uninstallRetryGap last_removal ro_now "\<lambda>ro. ro_now ro \<noteq> zeroTime"
  "attempt f sha256 lr show_update b is_removal"
proof unfold_locales
  show "0 < uninstallRetryGap" "uninstallRetryGap \<le> maxDuration" by (simp_all add: uninstallRetryGap_def)
next
  fix e :: "'a round" and s s'
  assume a: "ro_now e \<noteq> zeroTime" "attempt f sha256 lr show_update b is_removal e s = (True, s')"
  from attempt_True [OF a(2)] obtain ev where
    ev: "agent_round f sha256 lr show_update b e (fst s) (snd s) = Some (ev, fst s', snd s')" "is_removal (ev_called ev)" by blast
  from round_removal(1) [OF ev(1)] ev(2) a(1) show "last_removal s' = Some (ro_now e)"
    by (simp add: last_removal_def)
next
  fix e :: "'a round" and s s'
  assume a: "ro_now e \<noteq> zeroTime" "attempt f sha256 lr show_update b is_removal e s = (False, s')"
  from attempt_False [OF a(2)] round_removal(1) [of f sha256 lr show_update b e "fst s" "snd s" _ "fst s'" "snd s'"]
  show "last_removal s' = last_removal s"
    by (fastforce simp: last_removal_def)
next
  fix e :: "'a round" and s :: "'a loop \<times> world" and t
  assume a: "ro_now e \<noteq> zeroTime" "last_removal s = Some t" "time_sub (ro_now e) t < uninstallRetryGap"
  then show "\<not> fst (attempt f sha256 lr show_update b is_removal e s)"
    using round_removal(2) [of f sha256 lr show_update b e "fst s" "snd s"]
    by (fastforce simp: attempt_def last_removal_def split: if_splits option.splits)
qed

section \<open>What the mother is told\<close>

text \<open>
  The failure an agent must report, read off the events: the outcome of the last attempt,
  forgotten when the mother stops asking for anything.
\<close>

definition acknowledged :: "'v event \<Rightarrow> bool" where
  "acknowledged ev \<longleftrightarrow> (case ev_answer ev of Inl e \<Rightarrow> False | Inr r \<Rightarrow> True)"

definition withdraws :: "string \<Rightarrow> 'v event \<Rightarrow> bool" where
  "withdraws running ev \<longleftrightarrow> (case ev_answer ev of Inl e \<Rightarrow> False
     | Inr r \<Rightarrow> \<not> ir_Uninstall r \<and> (ir_DesiredVersion r = '''' \<or> ir_DesiredVersion r = running))"

definition err_after :: "string \<Rightarrow> 'v event \<Rightarrow> string \<Rightarrow> string" where
  "err_after running ev e =
     (case ev_called ev of Update v r \<Rightarrow> error_text r | _ \<Rightarrow> if withdraws running ev then '''' else e)"

definition uninstall_after :: "'v event \<Rightarrow> string \<Rightarrow> string" where
  "uninstall_after ev e = (case ev_called ev of Removal r \<Rightarrow> error_text r | _ \<Rightarrow> e)"

lemma round_after:
  assumes "agent_round f sha256 lr show_update b ro l w = Some (ev, l', w')"
  shows "lp_updateErr l' = err_after (bn_Version b) ev (lp_updateErr l)"
    and "lp_uninstallErr l' = uninstall_after ev (lp_uninstallErr l)"
    and "lp_pushed l' \<longleftrightarrow> lp_pushed l \<or> acknowledged ev"
    and "lp_cfg l' = lp_cfg l"
    and "push_request f b ro l = Some (ev_request ev, lp_reg l')"
proof -
  have "lp_updateErr l' = err_after (bn_Version b) ev (lp_updateErr l) \<and>
    lp_uninstallErr l' = uninstall_after ev (lp_uninstallErr l) \<and>
    (lp_pushed l' \<longleftrightarrow> lp_pushed l \<or> acknowledged ev) \<and> lp_cfg l' = lp_cfg l \<and>
    push_request f b ro l = Some (ev_request ev, lp_reg l')"
    using assms unfolding agent_round_def
  proof (cases rule: RunOnce_cases)
    case (remove reg resp tried)
    from tryUninstall_result [OF remove(5)] remove show ?thesis
      by (cases tried) (simp_all add: err_after_def uninstall_after_def acknowledged_def withdraws_def)
  next
    case (target reg resp tried)
    from tryUpdate_result [OF target(7)] target show ?thesis
      by (cases tried) (simp_all add: err_after_def uninstall_after_def acknowledged_def withdraws_def)
  qed (simp_all add: err_after_def uninstall_after_def acknowledged_def withdraws_def)
  then show "lp_updateErr l' = err_after (bn_Version b) ev (lp_updateErr l)"
    and "lp_uninstallErr l' = uninstall_after ev (lp_uninstallErr l)"
    and "lp_pushed l' \<longleftrightarrow> lp_pushed l \<or> acknowledged ev"
    and "lp_cfg l' = lp_cfg l"
    and "push_request f b ro l = Some (ev_request ev, lp_reg l')" by blast+
qed

text \<open>What a loop may hold: the registry of its configuration, with handles opened since.\<close>

definition loop_ok :: "'v loop \<Rightarrow> bool" where
  "loop_ok l \<longleftrightarrow> registry_ok (lp_reg l) \<and> map fst (lp_reg l) = map fst (agent_registry (lp_cfg l))"

lemma loop_ok_new: "loop_ok (NewLoopWithClient cfg (agent_registry cfg))"
  by (simp add: loop_ok_def NewLoopWithClient_def registry_ok_agent)

lemma push_request_Some:
  assumes "push_request f b ro l = Some (req, reg)" "loop_ok l"
  shows "registry_ok reg" "map fst reg = map fst (lp_reg l)"
    and "set (map fst (iq_Samples req)) \<subseteq> set all_keys" "distinct (map fst (iq_Samples req))"
    and "iq_Server req = ServerName (lp_cfg l)" "iq_AgentVersion req = bn_Version b"
      "iq_UpdateError req = lp_updateErr l" "iq_UninstallError req = lp_uninstallErr l"
proof -
  obtain samples where c: "CollectEnabled f (ro_readings ro) (lp_enabled l) [] (lp_reg l) = Some (samples, reg)"
    and s: "iq_Samples req = samples"
    using assms(1) by (auto simp: push_request_def split: option.splits)
  have r: "registry_ok (lp_reg l)" using assms(2) by (simp add: loop_ok_def)
  from CollectEnabled_names [OF r c] show "registry_ok reg" "map fst reg = map fst (lp_reg l)" by simp_all
  from CollectEnabled_keys [OF r c] show "set (map fst (iq_Samples req)) \<subseteq> set all_keys"
    "distinct (map fst (iq_Samples req))" by (simp_all add: s)
  from assms(1) show "iq_Server req = ServerName (lp_cfg l)" "iq_AgentVersion req = bn_Version b"
    "iq_UpdateError req = lp_updateErr l" "iq_UninstallError req = lp_uninstallErr l"
    by (auto simp: push_request_def split: option.splits)
qed

lemma push_request_identity:
  assumes "push_request f b ro l = Some (req, reg)" "loop_ok l" "any_order (ro_order ro)"
  shows "if lp_pushed l
    then iq_Hostname req = '''' \<and> iq_IP req = '''' \<and> iq_OS req = '''' \<and> iq_Arch req = '''' \<and> iq_Capabilities req = []
    else iq_Hostname req = ro_hostname ro \<and> iq_IP req = ro_ip ro \<and> iq_OS req = bn_OS b \<and> iq_Arch req = bn_Arch b \<and>
      iq_Capabilities req = sort (map fst (agent_registry (lp_cfg l)))"
  using assms push_request_Some(2) [OF assms(1,2)] Names_any_order [OF assms(3), of reg]
  by (auto simp: push_request_def loop_ok_def split: option.splits)

lemma round_loop_ok:
  assumes "agent_round f sha256 lr show_update b ro l w = Some (ev, l', w')" "loop_ok l"
  shows "loop_ok l'"
  using push_request_Some(1,2) [OF round_after(5) [OF assms(1)] assms(2)] round_after(4) [OF assms(1)] assms(2)
  by (simp add: loop_ok_def)

text \<open>One event of a run, seen from the state before its round.\<close>

lemma agent_run_nth:
  assumes "agent_run f sha256 lr show_update b ros l w = (alive, evs, l', w')" "i < length evs" "loop_ok l"
  shows "i < length ros \<and> (\<exists>li wi li' wi'. agent_round f sha256 lr show_update b (ros ! i) li wi = Some (evs ! i, li', wi') \<and>
    loop_ok li \<and> lp_cfg li = lp_cfg l \<and>
    lp_updateErr li = fold (err_after (bn_Version b)) (take i evs) (lp_updateErr l) \<and>
    lp_uninstallErr li = fold uninstall_after (take i evs) (lp_uninstallErr l) \<and>
    (lp_pushed li \<longleftrightarrow> lp_pushed l \<or> (\<exists>ev \<in> set (take i evs). acknowledged ev)))"
  using assms
proof (induction ros arbitrary: i l w evs alive)
  case (Cons ro ros)
  from Cons.prems(1,2) obtain ev l1 w1 evs' where r: "agent_round f sha256 lr show_update b ro l w = Some (ev, l1, w1)"
    and evs: "evs = ev # evs'"
    and rest: "evs' = [] \<or> (\<exists>alive'. agent_run f sha256 lr show_update b ros l1 w1 = (alive', evs', l', w'))"
    by (auto split: option.splits prod.splits if_splits)
  show ?case
  proof (cases i)
    case 0
    with r Cons.prems(3) evs show ?thesis by auto
  next
    case (Suc j)
    with Cons.prems(2) evs have j: "j < length evs'" by simp
    then obtain alive' where run: "agent_run f sha256 lr show_update b ros l1 w1 = (alive', evs', l', w')"
      using rest by auto
    from Cons.IH [OF run j round_loop_ok [OF r Cons.prems(3)]] round_after(1-4) [OF r] show ?thesis
      by (simp add: Suc evs)
  qed
qed simp

definition call_times :: "(called \<Rightarrow> bool) \<Rightarrow> 'v round list \<Rightarrow> 'v event list \<Rightarrow> int list" where
  "call_times c ros evs = map (ro_now \<circ> fst) (filter (\<lambda>(ro, ev). c (ev_called ev)) (zip ros evs))"

text \<open>The calls of a run are the first of those its throttle admits.\<close>

lemma call_times_prefix:
  assumes adm: "\<And>s. adm [] s = []"
    "\<And>ro ros s. adm (ro # ros) s = (case attempt f sha256 lr show_update b c ro s of
       (ok, s') \<Rightarrow> if ok then ro_now ro # adm ros s' else adm ros s')"
  shows "agent_run f sha256 lr show_update b ros l w = (alive, evs, l', w') \<Longrightarrow>
    prefix (call_times c ros evs) (adm ros (l, w))"
proof (induction ros arbitrary: l w alive evs)
  case (Cons ro ros)
  show ?case
  proof (cases "agent_round f sha256 lr show_update b ro l w")
    case None
    with Cons.prems show ?thesis by (simp add: call_times_def)
  next
    case (Some p)
    obtain ev l1 w1 where p: "p = (ev, l1, w1)" by (cases p)
    from Cons.prems Some p obtain evs' where evs: "evs = ev # evs'"
      and rest: "evs' = [] \<or> (\<exists>alive'. agent_run f sha256 lr show_update b ros l1 w1 = (alive', evs', l', w'))"
      by (auto split: prod.splits if_splits)
    have "prefix (call_times c ros evs') (adm ros (l1, w1))"
      using rest Cons.IH by (auto simp: call_times_def)
    then show ?thesis
      using Some p by (simp add: adm(2) attempt_def evs call_times_def)
  qed
qed (simp add: call_times_def)

lemma successively_prefix: "successively P ys \<Longrightarrow> prefix xs ys \<Longrightarrow> successively P xs"
  by (auto simp: prefix_def successively_append_iff)

section \<open>Properties\<close>


text \<open>
  C27. Every push is determined by what happened before it: it carries the outcome of the last
  update attempt until the mother asks for nothing more, the outcome of the last removal
  attempt, and the host's identity and capabilities (the sorted names of the collectors the
  configuration enables) exactly until a push has been answered; and its samples are among the
  agent's metrics, each once.
\<close>

theorem pushes_follow_history:
  assumes "agent_run f sha256 lr show_update b ros (NewLoopWithClient cfg (agent_registry cfg)) w = (alive, evs, l', w')"
    and "i < length evs" "any_order (ro_order (ros ! i))"
  shows "let past = take i evs; req = ev_request (evs ! i) in
    iq_Server req = ServerName cfg \<and> iq_AgentVersion req = bn_Version b \<and>
    iq_UpdateError req = fold (err_after (bn_Version b)) past '''' \<and>
    iq_UninstallError req = fold uninstall_after past '''' \<and>
    (if \<exists>ev \<in> set past. acknowledged ev
     then iq_Hostname req = '''' \<and> iq_IP req = '''' \<and> iq_OS req = '''' \<and> iq_Arch req = '''' \<and> iq_Capabilities req = []
     else iq_Hostname req = ro_hostname (ros ! i) \<and> iq_IP req = ro_ip (ros ! i) \<and> iq_OS req = bn_OS b \<and>
       iq_Arch req = bn_Arch b \<and> iq_Capabilities req = sort (map fst (agent_registry cfg))) \<and>
    set (map fst (iq_Samples req)) \<subseteq> set all_keys \<and> distinct (map fst (iq_Samples req))"
proof -
  let ?l = "NewLoopWithClient cfg (agent_registry cfg)"
  from agent_run_nth [OF assms(1,2) loop_ok_new] obtain li wi li' wi' where
    r: "agent_round f sha256 lr show_update b (ros ! i) li wi = Some (evs ! i, li', wi')" and ok: "loop_ok li"
    and li: "lp_cfg li = lp_cfg ?l" "lp_updateErr li = fold (err_after (bn_Version b)) (take i evs) (lp_updateErr ?l)"
      "lp_uninstallErr li = fold uninstall_after (take i evs) (lp_uninstallErr ?l)"
      "lp_pushed li \<longleftrightarrow> lp_pushed ?l \<or> (\<exists>ev \<in> set (take i evs). acknowledged ev)" by blast
  note req = round_after(5) [OF r]
  from li have l: "lp_cfg li = cfg" "lp_updateErr li = fold (err_after (bn_Version b)) (take i evs) ''''"
    "lp_uninstallErr li = fold uninstall_after (take i evs) ''''"
    "lp_pushed li \<longleftrightarrow> (\<exists>ev \<in> set (take i evs). acknowledged ev)" by (simp_all add: NewLoopWithClient_def)
  from push_request_Some(3-8) [OF req ok] push_request_identity [OF req ok assms(3)]
  show ?thesis unfolding Let_def l by blast
qed


section \<open>A run\<close>

definition sample_cfg :: "int config" where
  "sample_cfg = config_of 0 [(''MOTHER_URL'', ''http://m''), (''TOKEN'', ''tk''), (''SERVER_NAME'', ''web'')]"

definition sample_binary :: binary where
  "sample_binary = \<lparr>bn_Version = ''v1'', bn_OS = ''linux'', bn_Arch = ''amd64''\<rparr>"

definition sample_round :: "(string \<Rightarrow> http_reply) \<Rightarrow> string \<Rightarrow> int \<Rightarrow> int round" where
  "sample_round get v now =
     \<lparr>ro_readings = (\<lambda>n. sample_readings), ro_hostname = ''h'', ro_ip = ''10.0.0.2'', ro_order = as_listed,
      ro_marshal = (\<lambda>r. None),
      ro_post = (\<lambda>u t r. Replied 200 (Inr \<lparr>ir_Collectors = [], ir_Interval = 10, ir_DesiredVersion = v, ir_Uninstall = False\<rparr>)),
      ro_now = now, ro_executable = Inr ''/bin/agent'', ro_get = get, ro_disk = sample_disk,
      ro_removal = \<lparr>rh_stat = (\<lambda>p. None), rh_systemdRun = '''', rh_start = (\<lambda>n a. None), rh_release = None\<rparr>\<rparr>"

definition sample_world :: world where
  "sample_world = \<lparr>aw_files = [(''/bin/agent'', \<lparr>fl_Bytes = ''old'', fl_Mode = 493\<rparr>)], aw_exits = 0, aw_started = []\<rparr>"

text \<open>Four rounds asked for a version the mother does not deliver.\<close>

definition sample_run :: "bool \<times> int event list \<times> int loop \<times> world" where
  "sample_run = agent_run int_ops (\<lambda>s. []) (\<lambda>r. r) (\<lambda>e. ''no update'') sample_binary
     (map (sample_round (\<lambda>u. NoReply ''refused'') ''v2'') [0, 10 * Second, 5 * Minute, 6 * Minute])
     (NewLoopWithClient sample_cfg (agent_registry sample_cfg)) sample_world"

lemma sample_run:
  "length (fst (snd sample_run)) = 4"
  "call_times (is_update ''v2'') (map (sample_round (\<lambda>u. NoReply ''refused'') ''v2'') [0, 10 * Second, 5 * Minute, 6 * Minute])
     (fst (snd sample_run)) = [0, 5 * Minute]"
  "fold (err_after ''v1'') (take 1 (fst (snd sample_run))) '''' = ''no update''"
  "\<exists>ev \<in> set (take 1 (fst (snd sample_run))). acknowledged ev"
  by code_simp+


theorem pushes_follow_history_witness:
  "iq_UpdateError (ev_request (fst (snd sample_run) ! 1)) = ''no update'' \<and>
   iq_Capabilities (ev_request (fst (snd sample_run) ! 1)) = []"
proof -
  obtain alive evs l' w' where run: "sample_run = (alive, evs, l', w')" by (cases sample_run)
  note s = sample_run [unfolded run, simplified]
  have o: "any_order (ro_order (map (sample_round (\<lambda>u. NoReply ''refused'') ''v2'') [0, 10 * Second, 5 * Minute, 6 * Minute] ! 1))"
    by (simp add: sample_round_def)
  have i: "1 < length evs" using s(1) by simp
  from pushes_follow_history [OF run [unfolded sample_run_def] i o] s(3,4) show ?thesis
    unfolding run Let_def by (simp add: sample_binary_def)
qed

lemma sample_push:
  "\<exists>req l1. PushOnce int_ops sample_binary (sample_round get ''v2'' 0) (NewLoopWithClient sample_cfg (agent_registry sample_cfg)) =
     Some (req, Inr \<lparr>ir_Collectors = [], ir_Interval = 10, ir_DesiredVersion = ''v2'', ir_Uninstall = False\<rparr>, l1) \<and>
     lp_updateTarget l1 = ''''"
proof -
  let ?l = "NewLoopWithClient sample_cfg (agent_registry sample_cfg)"
  have "push_request int_ops sample_binary (sample_round get ''v2'' 0) ?l \<noteq> None"
  proof
    assume "push_request int_ops sample_binary (sample_round get ''v2'' 0) ?l = None"
    then have "CollectEnabled int_ops (\<lambda>n. sample_readings) (lp_enabled ?l) [] (lp_reg ?l) = None"
      by (auto simp: push_request_def sample_round_def split: option.splits)
    from CollectEnabled_alive [OF _ this] show False
      by (simp add: NewLoopWithClient_def registry_ok_agent)
  qed
  then show ?thesis
    by (auto simp: PushOnce_def sample_round_def Let_def NewLoopWithClient_def)
qed


end
