(* ===== verification/Build_Publish.thy ===== *)
theory Build_Publish
  imports Catalogue
begin

text \<open>
  Compiling a version into the catalogue: \<open>mother/build/build.go\<close>. The catalogue directory is an
  association list from the names of its directories to their files. What the host does is the
  record \<open>build_host\<close>: the Go tool chain is a function from a directory, the arguments and the
  environment to the bytes it leaves at the output path. The result carries every state of the
  catalogue a concurrent reader may see, in order, because the catalogue is read while it is
  built.
\<close>

section \<open>What is built\<close>

record build_target =
  tg_pkg :: string
  tg_asset :: string
  tg_goos :: string
  tg_goarch :: string

definition targets :: "build_target list" where
  "targets =
     map (\<lambda>p. \<lparr>tg_pkg = ''./agent/cmd/feast-watch-agent'', tg_asset = AssetName (GOOS p) (GOARCH p),
       tg_goos = GOOS p, tg_goarch = GOARCH p\<rparr>) Platforms @
     map (\<lambda>p. \<lparr>tg_pkg = ''./mother/cmd/feast-watch'', tg_asset = MotherAssetName (GOOS p) (GOARCH p),
       tg_goos = GOOS p, tg_goarch = GOARCH p\<rparr>) MotherPlatforms"

type_synonym dir_files = "(string \<times> string) list"
type_synonym tree = "(string \<times> dir_files) list"

text \<open>
  The host: \<open>os.RemoveAll\<close> and \<open>os.MkdirAll\<close> of the staging directory, the look-up of \<open>go\<close>,
  its environment, \<open>os.MkdirAll\<close> of a cache directory, the compiler, the writing of a checksum,
  \<open>os.Rename\<close>, and whether the deferred removal of the staging directory works.
\<close>

record build_host =
  bh_removeAll :: "string option"
  bh_mkdirAll :: "string option"
  bh_lookPath :: "string option"
  bh_environ :: "string list"
  bh_getenv :: "string \<Rightarrow> string"
  bh_mkdirCache :: "string \<Rightarrow> string option"
  bh_go :: "string \<Rightarrow> string list \<Rightarrow> string list \<Rightarrow> string + string"
  bh_writeSum :: "string \<Rightarrow> string option"
  bh_rename :: "string option"
  bh_cleanup :: bool

datatype build_error =
    NoVersion
  | PathSeparator string
  | AlreadyBuilt string
  | NoToolchain
  | Preparing string string
  | CompileFailed string string
  | BuildIO string

definition toolchainCacheDir :: string where "toolchainCacheDir = ''.toolchain-cache''"

section \<open>The steps\<close>

text \<open>The tree gains the cache directory with the first cache that has to be made.\<close>

definition make_cache_dir :: "tree \<Rightarrow> tree" where
  "make_cache_dir tree =
     (if toolchainCacheDir \<in> fst ` set tree then tree else tree @ [(toolchainCacheDir, [])])"

fun cache_env ::
  "build_host \<Rightarrow> string \<Rightarrow> (string \<times> string) list \<Rightarrow> string list \<Rightarrow> tree \<Rightarrow> (build_error + string list) \<times> tree" where
  "cache_env h outDir [] env tree = (Inr env, tree)"
| "cache_env h outDir ((key, sub) # caches) env tree =
     (if bh_getenv h key \<noteq> '''' then cache_env h outDir caches env tree
      else let dir = path_join [outDir, toolchainCacheDir, sub] in
        (case bh_mkdirCache h dir of
           Some e \<Rightarrow> (Inl (Preparing key e), tree)
         | None \<Rightarrow> cache_env h outDir caches (env @ [key @ ''='' @ dir]) (make_cache_dir tree)))"

definition toolchainEnv :: "build_host \<Rightarrow> string \<Rightarrow> tree \<Rightarrow> (build_error + string list) \<times> tree" where
  "toolchainEnv h outDir tree =
     cache_env h outDir [(''GOCACHE'', ''build''), (''GOMODCACHE'', ''mod''), (''GOPATH'', ''gopath''), (''HOME'', ''home'')]
       [''CGO_ENABLED=0''] tree"

definition buildArgs :: "string \<Rightarrow> string \<Rightarrow> string \<Rightarrow> string list" where
  "buildArgs out version pkg =
     [''build'', ''-ldflags'',
      ''-s -w -X github.com/osman-yahya/feast-watch/shared/version.Version='' @ version,
      ''-buildvcs=false'', ''-o'', out, pkg]"

text \<open>
  One target: what the compiler leaves, and the successive contents of the staging directory
  (the binary, then the binary with its checksum).
\<close>

definition compiled ::
  "build_host \<Rightarrow> string \<Rightarrow> string \<Rightarrow> string \<Rightarrow> string list \<Rightarrow> build_target \<Rightarrow> string + string" where
  "compiled h sourceDir staging version toolchain t =
     bh_go h sourceDir (buildArgs (path_join [staging, tg_asset t]) version (tg_pkg t))
       (bh_environ h @ toolchain @ [''GOOS='' @ tg_goos t, ''GOARCH='' @ tg_goarch t])"

definition checksum_file :: "(string \<Rightarrow> nat list) \<Rightarrow> string \<Rightarrow> string" where
  "checksum_file sha256 bytes = hex_encode (sha256 bytes) @ [LF]"

definition writeChecksum ::
  "build_host \<Rightarrow> (string \<Rightarrow> nat list) \<Rightarrow> string \<Rightarrow> string \<Rightarrow> dir_files \<Rightarrow> build_error option \<times> dir_files list" where
  "writeChecksum h sha256 asset bytes fs =
     (case bh_writeSum h asset of
        Some e \<Rightarrow> (Some (BuildIO e), [])
      | None \<Rightarrow> (None, [AList.update (asset @ ChecksumSuffix) (checksum_file sha256 bytes) fs]))"

definition compile_target ::
  "build_host \<Rightarrow> (string \<Rightarrow> nat list) \<Rightarrow> string \<Rightarrow> string \<Rightarrow> string \<Rightarrow> string list \<Rightarrow> build_target \<Rightarrow> dir_files
     \<Rightarrow> build_error option \<times> dir_files list" where
  "compile_target h sha256 sourceDir staging version toolchain t fs =
     (case compiled h sourceDir staging version toolchain t of
        Inl out \<Rightarrow> (Some (CompileFailed (tg_asset t) (TrimSpace out)), [])
      | Inr bytes \<Rightarrow>
          let fs1 = AList.update (tg_asset t) bytes fs in
          (case writeChecksum h sha256 (tg_asset t) bytes fs1 of (r, later) \<Rightarrow> (r, fs1 # later)))"

fun compile_all ::
  "build_host \<Rightarrow> (string \<Rightarrow> nat list) \<Rightarrow> string \<Rightarrow> string \<Rightarrow> string \<Rightarrow> string list \<Rightarrow> build_target list \<Rightarrow> dir_files
     \<Rightarrow> build_error option \<times> dir_files list" where
  "compile_all h sha256 sourceDir staging version toolchain [] fs = (None, [])"
| "compile_all h sha256 sourceDir staging version toolchain (t # ts) fs =
     (case compile_target h sha256 sourceDir staging version toolchain t fs of
        (Some e, stages) \<Rightarrow> (Some e, stages)
      | (None, stages) \<Rightarrow>
          (case compile_all h sha256 sourceDir staging version toolchain ts (List.last (fs # stages)) of
             (r, later) \<Rightarrow> (r, stages @ later)))"

definition bad_version :: "string \<Rightarrow> bool" where
  "bad_version version \<longleftrightarrow>
     CHR ''/'' \<in> set version \<or> char_of (92 :: nat) \<in> set version \<or> version = ''.'' \<or> version = ''..''"

definition stagingName :: "string \<Rightarrow> string" where
  "stagingName version = version @ ''.building''"

definition clean_up :: "build_host \<Rightarrow> string \<Rightarrow> tree \<Rightarrow> tree" where
  "clean_up h staging tree = (if bh_cleanup h then AList.delete staging tree else tree)"

text \<open>Everything after the staging directory exists; its removal is deferred.\<close>

definition build_staged ::
  "build_host \<Rightarrow> (string \<Rightarrow> nat list) \<Rightarrow> string \<Rightarrow> string \<Rightarrow> string \<Rightarrow> tree \<Rightarrow> build_error option \<times> tree list" where
  "build_staged h sha256 sourceDir outDir version t1 =
     (let staging = stagingName version in
      if bh_lookPath h \<noteq> None then (Some NoToolchain, [clean_up h staging t1])
      else (case toolchainEnv h outDir t1 of
          (Inl e, t2) \<Rightarrow> (Some e, [t2, clean_up h staging t2])
        | (Inr toolchain, t2) \<Rightarrow>
            (case compile_all h sha256 sourceDir (path_join [outDir, staging]) version toolchain targets [] of
               (r, stages) \<Rightarrow>
                 let trees = t2 # map (\<lambda>fs. AList.update staging fs t2) stages;
                     now = List.last trees;
                     r' = (case r of Some e \<Rightarrow> Some e
                       | None \<Rightarrow> if version \<in> fst ` set now then Some (BuildIO ''file exists'')
                           else map_option BuildIO (bh_rename h)) in
                 (case r' of
                    Some e \<Rightarrow> (Some e, trees @ [clean_up h staging now])
                  | None \<Rightarrow> (None, trees @
                      [AList.update version (List.last ([] # stages)) (AList.delete staging now)])))))"

definition Build ::
  "build_host \<Rightarrow> (string \<Rightarrow> nat list) \<Rightarrow> string \<Rightarrow> string \<Rightarrow> string \<Rightarrow> tree \<Rightarrow> build_error option \<times> tree list" where
  "Build h sha256 sourceDir outDir given tree =
     (let version = TrimSpace given; staging = stagingName version in
      if version = '''' then (Some NoVersion, [])
      else if bad_version version then (Some (PathSeparator version), [])
      else if version \<in> fst ` set tree then (Some (AlreadyBuilt version), [])
      else (case bh_removeAll h of
          Some e \<Rightarrow> (Some (BuildIO e), [])
        | None \<Rightarrow>
            let t0 = AList.delete staging tree in
            (case bh_mkdirAll h of
               Some e \<Rightarrow> (Some (BuildIO e), [t0])
             | None \<Rightarrow>
                 let t1 = AList.update staging [] t0 in
                 (case build_staged h sha256 sourceDir outDir version t1 of
                    (r, trees) \<Rightarrow> (r, t0 # t1 # trees)))))"

text \<open>The catalogue a reader finds in a tree.\<close>

definition listing_of :: "tree \<Rightarrow> catalogue" where
  "listing_of tree = Listing (map (\<lambda>(n, fs). \<lparr>de_Name = n, de_IsDir = True, de_Files = Listing (map fst fs)\<rparr>) tree)"

section \<open>A complete build\<close>

definition complete_build ::
  "build_host \<Rightarrow> (string \<Rightarrow> nat list) \<Rightarrow> string \<Rightarrow> string \<Rightarrow> string \<Rightarrow> string list \<Rightarrow> build_target list \<Rightarrow> dir_files \<Rightarrow> bool" where
  "complete_build h sha256 sourceDir staging version toolchain ts fs \<longleftrightarrow>
     list_all (\<lambda>t. case compiled h sourceDir staging version toolchain t of
         Inl e \<Rightarrow> False
       | Inr bytes \<Rightarrow> map_of fs (tg_asset t) = Some bytes \<and>
           map_of fs (tg_asset t @ ChecksumSuffix) = Some (checksum_file sha256 bytes)) ts"

definition target_names :: "build_target list \<Rightarrow> string list" where
  "target_names ts = concat (map (\<lambda>t. [tg_asset t, tg_asset t @ ChecksumSuffix]) ts)"

lemma target_names_simps [simp]:
  "target_names [] = []" "target_names (t # ts) = tg_asset t # (tg_asset t @ ChecksumSuffix) # target_names ts"
  by (simp_all add: target_names_def)

lemma names_of_targets: "target_names targets = ExpectedAssets" "distinct ExpectedAssets"
  by code_simp+

lemma compile_target_None:
  assumes "compile_target h sha256 sourceDir staging version toolchain t fs = (None, stages)"
  obtains bytes where "compiled h sourceDir staging version toolchain t = Inr bytes"
    "List.last (fs # stages) =
      AList.update (tg_asset t @ ChecksumSuffix) (checksum_file sha256 bytes) (AList.update (tg_asset t) bytes fs)"
  using assms by (auto simp: compile_target_def writeChecksum_def Let_def split: sum.splits option.splits)

lemma compile_all_complete:
  assumes "compile_all h sha256 sourceDir staging version toolchain ts fs = (None, stages)"
    "distinct (target_names ts)"
  shows "complete_build h sha256 sourceDir staging version toolchain ts (List.last (fs # stages)) \<and>
    (\<forall>n. n \<notin> set (target_names ts) \<longrightarrow> map_of (List.last (fs # stages)) n = map_of fs n)"
  using assms
proof (induction ts arbitrary: fs stages)
  case Nil
  then show ?case by (simp add: complete_build_def)
next
  case (Cons t ts)
  from Cons.prems(1) obtain s1 s2 where c: "compile_target h sha256 sourceDir staging version toolchain t fs = (None, s1)"
    and rest: "compile_all h sha256 sourceDir staging version toolchain ts (List.last (fs # s1)) = (None, s2)"
    and stages: "stages = s1 @ s2"
    by (auto split: prod.splits option.splits)
  define g where "g = List.last (fs # s1)"
  from c obtain bytes where b: "compiled h sourceDir staging version toolchain t = Inr bytes"
    and g: "g = AList.update (tg_asset t @ ChecksumSuffix) (checksum_file sha256 bytes) (AList.update (tg_asset t) bytes fs)"
    unfolding g_def by (rule compile_target_None)
  define g' where "g' = List.last (g # s2)"
  have last: "List.last (fs # stages) = g'"
    by (simp add: stages g'_def g_def)
  have "complete_build h sha256 sourceDir staging version toolchain ts g' \<and>
      (\<forall>n. n \<notin> set (target_names ts) \<longrightarrow> map_of g' n = map_of g n)"
    using Cons.IH [OF rest] Cons.prems(2) unfolding g'_def g_def by simp
  with b Cons.prems(2) show ?case
    unfolding last by (auto simp: complete_build_def g map_of_update)
qed

section \<open>What readers see\<close>

text \<open>Two trees agree on every directory but those named.\<close>

definition same_but :: "string set \<Rightarrow> tree \<Rightarrow> tree \<Rightarrow> bool" where
  "same_but names t u \<longleftrightarrow> (\<forall>n. n \<notin> names \<longrightarrow> map_of t n = map_of u n)"

lemma same_but_refl [simp]: "same_but names t t"
  by (simp add: same_but_def)

lemma same_but_trans: "same_but names t u \<Longrightarrow> same_but names u v \<Longrightarrow> same_but names t v"
  by (simp add: same_but_def)

lemma same_but_update: "n \<in> names \<Longrightarrow> same_but names (AList.update n fs t) u \<longleftrightarrow> same_but names t u"
  by (auto simp: same_but_def map_of_update)

lemma same_but_delete: "n \<in> names \<Longrightarrow> same_but names (AList.delete n t) u \<longleftrightarrow> same_but names t u"
  by (auto simp: same_but_def delete_conv')

lemma same_but_clean_up: "staging \<in> names \<Longrightarrow> same_but names (clean_up h staging t) u \<longleftrightarrow> same_but names t u"
  by (simp add: clean_up_def same_but_delete)

lemma make_cache_dir_same: "toolchainCacheDir \<in> names \<Longrightarrow> same_but names (make_cache_dir t) t"
  by (auto simp: make_cache_dir_def same_but_def map_add_def split: option.split)

lemma cache_env_same:
  "toolchainCacheDir \<in> names \<Longrightarrow> same_but names (snd (cache_env h outDir caches env t)) t"
proof (induction h outDir caches env t rule: cache_env.induct)
  case (2 h outDir key sub caches env t)
  then show ?case
    using make_cache_dir_same [of names t]
    by (auto simp: Let_def split: option.split intro: same_but_trans)
qed simp

lemma stagingName_ne [simp]: "stagingName version \<noteq> version" "version \<noteq> stagingName version"
  "stagingName version \<noteq> toolchainCacheDir"
proof -
  show "stagingName version \<noteq> version" "version \<noteq> stagingName version" by (simp_all add: stagingName_def)
  have "HasSuffix (stagingName version) ''.building''" by (simp add: stagingName_def)
  moreover have "\<not> HasSuffix toolchainCacheDir ''.building''" by code_simp
  ultimately show "stagingName version \<noteq> toolchainCacheDir" by metis
qed

text \<open>
  The trees of a build: those before the last touch only the staging and the cache directory;
  the last of a success adds the complete version and drops the staging directory.
\<close>

lemma build_staged_compiled:
  assumes run: "build_staged h sha256 sourceDir outDir version t1 = (r, trees)" and path: "bh_lookPath h = None"
    and env: "toolchainEnv h outDir t1 = (Inr toolchain, t2)"
    and t2: "same_but {stagingName version, toolchainCacheDir} t2 t1"
  shows "(\<forall>t \<in> set (butlast trees). same_but {stagingName version, toolchainCacheDir} t t1) \<and>
    (r \<noteq> None \<longrightarrow> same_but {stagingName version, toolchainCacheDir} (List.last trees) t1 \<and> (bh_cleanup h \<longrightarrow> map_of (List.last trees) (stagingName version) = None)) \<and>
    (r = None \<longrightarrow> (\<exists>toolchain fs now. complete_build h sha256 sourceDir (path_join [outDir, stagingName version])
        version toolchain targets fs \<and> (\<forall>n. n \<notin> set ExpectedAssets \<longrightarrow> map_of fs n = None) \<and>
      List.last trees = AList.update version fs (AList.delete (stagingName version) now) \<and> same_but {stagingName version, toolchainCacheDir} now t1))"
proof -
  let ?N = "{stagingName version, toolchainCacheDir}"
  obtain rc stages where c: "compile_all h sha256 sourceDir (path_join [outDir, stagingName version]) version toolchain
      targets [] = (rc, stages)" by fastforce
  define ts where "ts = t2 # map (\<lambda>fs. AList.update (stagingName version) fs t2) stages"
  have ts: "ts \<noteq> []" "\<forall>t \<in> set ts. same_but ?N t t1"
    using t2 by (auto simp: ts_def same_but_update)
  then have now: "same_but ?N (List.last ts) t1" by simp
  define r' where "r' = (case rc of Some e \<Rightarrow> Some e
    | None \<Rightarrow> if version \<in> fst ` set (List.last ts) then Some (BuildIO ''file exists'') else map_option BuildIO (bh_rename h))"
  have "build_staged h sha256 sourceDir outDir version t1 = (case r' of
        Some e \<Rightarrow> (Some e, ts @ [clean_up h (stagingName version) (List.last ts)])
      | None \<Rightarrow> (None, ts @ [AList.update version (List.last ([] # stages)) (AList.delete (stagingName version) (List.last ts))]))"
    unfolding build_staged_def Let_def env prod.case sum.case c r'_def ts_def path
    by (simp only: simp_thms if_False)
  note res = this [unfolded run]
  show ?thesis
  proof (cases r')
    case (Some e)
    with res ts now show ?thesis
      by (auto simp: clean_up_def same_but_delete delete_conv')
  next
    case r'None: None
    then have "rc = None" by (auto simp: r'_def split: option.splits)
    moreover define built where "built = List.last ([] # stages)"
    ultimately have complete: "complete_build h sha256 sourceDir (path_join [outDir, stagingName version]) version toolchain targets
        built" "\<forall>n. n \<notin> set ExpectedAssets \<longrightarrow> map_of built n = None"
      using compile_all_complete [of h sha256 sourceDir "path_join [outDir, stagingName version]" version toolchain targets "[]" stages]
        c names_of_targets by simp_all
    from res r'None have r: "r = None"
      "trees = ts @ [AList.update version built (AList.delete (stagingName version) (List.last ts))]"
      by (simp_all only: option.case built_def prod.inject)
    have last: "List.last trees = AList.update version built (AList.delete (stagingName version) (List.last ts))"
      "butlast trees = ts" unfolding r by simp_all
    show ?thesis unfolding last using r(1) ts(2) now complete by blast
  qed
qed

lemma build_staged_trees:
  assumes "build_staged h sha256 sourceDir outDir version t1 = (r, trees)"
  shows "trees \<noteq> []"
    and "\<forall>t \<in> set (butlast trees). same_but {stagingName version, toolchainCacheDir} t t1"
    and "r \<noteq> None \<Longrightarrow> same_but {stagingName version, toolchainCacheDir} (List.last trees) t1 \<and>
      (bh_cleanup h \<longrightarrow> map_of (List.last trees) (stagingName version) = None)"
    and "r = None \<Longrightarrow> \<exists>toolchain fs now. complete_build h sha256 sourceDir (path_join [outDir, stagingName version])
        version toolchain targets fs \<and> (\<forall>n. n \<notin> set ExpectedAssets \<longrightarrow> map_of fs n = None) \<and>
      List.last trees = AList.update version fs (AList.delete (stagingName version) now) \<and>
      same_but {stagingName version, toolchainCacheDir} now t1"
proof -
  let ?N = "{stagingName version, toolchainCacheDir}"
  show "trees \<noteq> []" using assms
    by (auto simp: build_staged_def Let_def split: if_splits prod.splits sum.splits option.splits)
  have all: "(\<forall>t \<in> set (butlast trees). same_but ?N t t1) \<and>
    (r \<noteq> None \<longrightarrow> same_but ?N (List.last trees) t1 \<and> (bh_cleanup h \<longrightarrow> map_of (List.last trees) (stagingName version) = None)) \<and>
    (r = None \<longrightarrow> (\<exists>toolchain fs now. complete_build h sha256 sourceDir (path_join [outDir, stagingName version])
        version toolchain targets fs \<and> (\<forall>n. n \<notin> set ExpectedAssets \<longrightarrow> map_of fs n = None) \<and>
      List.last trees = AList.update version fs (AList.delete (stagingName version) now) \<and> same_but ?N now t1))"
  proof (cases "bh_lookPath h")
    case (Some e)
    with assms show ?thesis
      by (auto simp: build_staged_def Let_def clean_up_def same_but_delete delete_conv')
  next
    case None
    obtain res t2 where env: "toolchainEnv h outDir t1 = (res, t2)" by fastforce
    have t2: "same_but ?N t2 t1" using cache_env_same [of ?N h outDir] env unfolding toolchainEnv_def by (metis insertI1 insertI2 snd_conv)
    show ?thesis
    proof (cases res)
      case (Inl e)
      with assms None env t2 show ?thesis
        by (auto simp: build_staged_def Let_def clean_up_def same_but_delete delete_conv')
    next
      case (Inr toolchain)
      from build_staged_compiled [OF assms None env [unfolded Inr] t2] show ?thesis .
    qed
  qed
  show "\<forall>t \<in> set (butlast trees). same_but ?N t t1" using all by blast
  show "r \<noteq> None \<Longrightarrow> same_but ?N (List.last trees) t1 \<and> (bh_cleanup h \<longrightarrow> map_of (List.last trees) (stagingName version) = None)"
    using all by blast
  show "r = None \<Longrightarrow> \<exists>toolchain fs now. complete_build h sha256 sourceDir (path_join [outDir, stagingName version])
        version toolchain targets fs \<and> (\<forall>n. n \<notin> set ExpectedAssets \<longrightarrow> map_of fs n = None) \<and>
      List.last trees = AList.update version fs (AList.delete (stagingName version) now) \<and> same_but ?N now t1"
    using all by blast
qed

lemma Build_cases:
  assumes "Build h sha256 sourceDir outDir given tree = (r, trace)"
  obtains (refused) e where "r = Some e" "trace = []"
  | (prepared) e where "r = Some e" "trace = [AList.delete (stagingName (TrimSpace given)) tree]"
      "TrimSpace given \<notin> fst ` set tree"
  | (staged) trees where "TrimSpace given \<noteq> ''''" "\<not> bad_version (TrimSpace given)" "TrimSpace given \<notin> fst ` set tree"
      "build_staged h sha256 sourceDir outDir (TrimSpace given)
         (AList.update (stagingName (TrimSpace given)) [] (AList.delete (stagingName (TrimSpace given)) tree)) = (r, trees)"
      "trace = AList.delete (stagingName (TrimSpace given)) tree #
         AList.update (stagingName (TrimSpace given)) [] (AList.delete (stagingName (TrimSpace given)) tree) # trees"
  using assms by (auto simp: Build_def Let_def split: if_splits option.splits prod.splits)

lemma staged_stages:
  assumes "compile_target h sha256 sourceDir staging version toolchain t fs = (None, [f1, f2])"
  shows "f2 \<in> set (snd (compile_all h sha256 sourceDir staging version toolchain (t # ts) fs))"
  using assms by (simp split: prod.split)

lemma Fetch_lists_dir:
  assumes "(n, fs) \<in> set tree" "\<not> HasPrefix n ''.''" "p \<in> set Platforms"
    "AssetName (GOOS p) (GOARCH p) \<in> fst ` set fs" "AssetName (GOOS p) (GOARCH p) @ ChecksumSuffix \<in> fst ` set fs"
  shows "index_offers (Fetch as_listed (listing_of tree)) KindAgent n (Platform_String p)"
proof -
  let ?e = "\<lparr>de_Name = n, de_IsDir = True, de_Files = Listing (map fst fs)\<rparr>"
  have "offered (remdups (map fst fs)) (AssetName (GOOS p) (GOARCH p)) = Some (KindAgent, Platform_String p)"
    using AssetKindOf_AssetName [OF assms(3)] assms(5) by (simp add: offered_def)
  then have "Platform_String p \<in> set (fst (platformsOf as_listed (de_Files ?e)))"
    using assms(4) by (force simp: platformsOf_def Let_def set_of_kind)
  then have "\<exists>b \<in> set (build_of False ?e). bl_Version b = n \<and> Platform_String p \<in> set (bl_Platforms b)"
    using assms(2) by (auto simp: build_of_def Let_def)
  then obtain b where b: "b \<in> set (build_of False ?e)" "bl_Version b = n" "Platform_String p \<in> set (bl_Platforms b)" by blast
  define es where "es = map (\<lambda>(n, fs). \<lparr>de_Name = n, de_IsDir = True, de_Files = Listing (map fst fs)\<rparr>) tree"
  have "?e \<in> set es" using assms(1) by (force simp: es_def)
  then have "b \<in> set (SortDescending (concat (map (build_of False) es)))" using b(1) by auto
  with b(2,3) show ?thesis
    unfolding index_offers_def listing_of_def es_def [symmetric] Fetch_lists by (auto simp: list_ex_iff)
qed

section \<open>Properties\<close>

text \<open>
  C32. One version names one set of bytes, and appears whole: whatever fails, no state of the
  catalogue during a build changes a published version (a directory named after this build's
  own staging place apart) or shows the new version in part; after a success the version holds
  every asset of the matrix, as the compiler left it for that platform with this version linked
  in, each with the digest of exactly those bytes beside it, and nothing else; after a failure
  the staging directory is gone if it can be removed.
\<close>

theorem Build_publishes:
  assumes "Build h sha256 sourceDir outDir given tree = (r, trace)" "version = TrimSpace given"
    "version \<noteq> toolchainCacheDir"
  shows "(\<forall>t \<in> set trace. \<forall>v fs. map_of tree v = Some fs \<longrightarrow> v \<noteq> stagingName version \<longrightarrow> v \<noteq> toolchainCacheDir \<longrightarrow>
      map_of t v = Some fs) \<and>
    (\<forall>t \<in> set (butlast trace). map_of t version = None) \<and>
    (r = None \<longrightarrow> trace \<noteq> [] \<and> map_of tree version = None \<and> map_of (List.last trace) (stagingName version) = None \<and>
      (\<exists>toolchain fs. map_of (List.last trace) version = Some fs \<and>
        complete_build h sha256 sourceDir (path_join [outDir, stagingName version]) version toolchain targets fs \<and>
        (\<forall>n. n \<notin> set ExpectedAssets \<longrightarrow> map_of fs n = None))) \<and>
    (r \<noteq> None \<longrightarrow> trace \<noteq> [] \<longrightarrow> map_of (List.last trace) version = None \<and>
      (bh_cleanup h \<longrightarrow> map_of (List.last trace) (stagingName version) = None))"
  using assms(1)
proof (cases rule: Build_cases)
  case (refused e)
  then show ?thesis by simp
next
  case (prepared e)
  then show ?thesis by (auto simp: delete_conv' assms(2) map_of_eq_None_iff)
next
  case (staged trees)
  let ?N = "{stagingName version, toolchainCacheDir}"
  define t0 where "t0 = AList.delete (stagingName version) tree"
  define t1 where "t1 = AList.update (stagingName version) [] t0"
  have b: "build_staged h sha256 sourceDir outDir version t1 = (r, trees)" and trace: "trace = t0 # t1 # trees"
    using staged(4,5) by (simp_all add: t0_def t1_def assms(2))
  note s = build_staged_trees [OF b]
  have absent: "map_of tree version = None" using staged(3) by (simp add: map_of_eq_None_iff assms(2))
  have t01: "same_but ?N t0 tree" "same_but ?N t1 tree" by (simp_all add: t0_def t1_def same_but_update same_but_delete)
  have last: "List.last trace = List.last trees" "set (butlast trace) \<subseteq> {t0, t1} \<union> set (butlast trees)"
    using s(1) by (auto simp: trace)
  have early: "same_but ?N t tree" if "t \<in> set (butlast trace)" for t
    using that last(2) s(2) t01 same_but_trans by blast
  have final: "map_of (List.last trace) v = Some fs" if "map_of tree v = Some fs" "v \<notin> ?N" for v fs
  proof (cases r)
    case None
    from s(4) [OF None] obtain fs' now where "List.last trees = AList.update version fs' (AList.delete (stagingName version) now)"
      "same_but ?N now t1" by blast
    then show ?thesis
      using that absent t01(2) unfolding last(1) by (auto simp: map_of_update delete_conv' same_but_def)
  next
    case (Some e)
    with s(3) that t01(2) show ?thesis unfolding last(1) by (auto simp: same_but_def)
  qed
  have members: "t \<in> set (butlast trace) \<or> t = List.last trace" if "t \<in> set trace" for t
    using that by (metis Un_iff append_butlast_last_id empty_iff list.set(1) set_ConsD set_append)
  have kept: "map_of t v = Some fs" if "t \<in> set trace" "map_of tree v = Some fs" "v \<notin> ?N" for t v fs
    using members [OF that(1)] early final that(2,3) by (fastforce simp: same_but_def)
  have version: "version \<notin> ?N" using assms(3) by simp
  have "map_of t version = None" if "t \<in> set (butlast trace)" for t
    using early [OF that] absent version by (auto simp: same_but_def)
  moreover have "map_of (List.last trace) version = None \<and> (bh_cleanup h \<longrightarrow> map_of (List.last trace) (stagingName version) = None)"
    if "r \<noteq> None"
    using s(3) [OF that] t01(2) absent version unfolding last(1) by (auto simp: same_but_def)
  moreover have "map_of (List.last trace) (stagingName version) = None \<and>
      (\<exists>toolchain fs. map_of (List.last trace) version = Some fs \<and>
        complete_build h sha256 sourceDir (path_join [outDir, stagingName version]) version toolchain targets fs \<and>
        (\<forall>n. n \<notin> set ExpectedAssets \<longrightarrow> map_of fs n = None))" if "r = None"
    using s(4) [OF that] unfolding last(1) by (auto simp: map_of_update delete_conv')
  ultimately show ?thesis using kept absent trace by auto
qed

text \<open>A host on which nothing fails.\<close>

definition healthy_host :: "build_host \<Rightarrow> bool" where
  "healthy_host h \<longleftrightarrow> bh_removeAll h = None \<and> bh_mkdirAll h = None \<and> bh_lookPath h = None \<and> bh_rename h = None \<and>
     bh_cleanup h \<and> (\<forall>d. bh_mkdirCache h d = None) \<and> (\<forall>a. bh_writeSum h a = None) \<and>
     (\<forall>d args env. \<exists>bytes. bh_go h d args env = Inr bytes)"

lemma healthy_cache_env:
  "healthy_host h \<Longrightarrow> \<exists>toolchain t'. cache_env h outDir caches env t = (Inr toolchain, t') \<and>
    fst ` set t' \<subseteq> insert toolchainCacheDir (fst ` set t)"
proof (induction h outDir caches env t rule: cache_env.induct)
  case (2 h outDir key sub caches env t)
  have "fst ` set (make_cache_dir t) \<subseteq> insert toolchainCacheDir (fst ` set t)" by (auto simp: make_cache_dir_def)
  note keys = this
  show ?case
  proof (cases "bh_getenv h key \<noteq> ''''")
    case True
    with 2(1) [OF True 2(3)] show ?thesis by simp
  next
    case False
    have mk: "bh_mkdirCache h d = None" for d using 2(3) by (simp add: healthy_host_def)
    from 2(2) [OF False refl mk 2(3)] obtain toolchain t' where
      t': "cache_env h outDir caches (env @ [key @ ''='' @ path_join [outDir, toolchainCacheDir, sub]]) (make_cache_dir t) =
        (Inr toolchain, t')" "fst ` set t' \<subseteq> insert toolchainCacheDir (fst ` set (make_cache_dir t))" by blast
    then have "fst ` set t' \<subseteq> insert toolchainCacheDir (fst ` set t)" using keys by blast
    with t'(1) False mk show ?thesis by (simp add: Let_def)
  qed
qed auto

lemma healthy_compile_target:
  "healthy_host h \<Longrightarrow> \<exists>bytes. compile_target h sha256 sourceDir staging version toolchain t fs = (None,
     [AList.update (tg_asset t) bytes fs,
      AList.update (tg_asset t @ ChecksumSuffix) (checksum_file sha256 bytes) (AList.update (tg_asset t) bytes fs)])"
proof -
  assume h: "healthy_host h"
  then obtain bytes where "compiled h sourceDir staging version toolchain t = Inr bytes"
    unfolding healthy_host_def compiled_def by blast
  moreover have "bh_writeSum h a = None" for a using h by (simp add: healthy_host_def)
  ultimately show ?thesis
    by (intro exI [of _ bytes]) (simp add: compile_target_def writeChecksum_def Let_def)
qed

lemma healthy_compile_all:
  "healthy_host h \<Longrightarrow> \<exists>stages. compile_all h sha256 sourceDir staging version toolchain ts fs = (None, stages)"
proof (induction ts arbitrary: fs)
  case (Cons t ts)
  from healthy_compile_target [OF Cons.prems, of sha256 sourceDir staging version toolchain t fs] obtain s where
    s: "compile_target h sha256 sourceDir staging version toolchain t fs = (None, s)" by blast
  obtain s' where "compile_all h sha256 sourceDir staging version toolchain ts (List.last (fs # s)) = (None, s')"
    using Cons.IH [OF Cons.prems] by blast
  with s show ?case by simp
qed simp

lemma healthy_build_staged:
  assumes "healthy_host h" "version \<notin> fst ` set t1" "version \<noteq> toolchainCacheDir"
  obtains trees toolchain t2 bytes where "build_staged h sha256 sourceDir outDir version t1 = (None, trees)"
    "AList.update (stagingName version) [(tg_asset (hd targets), bytes),
       (tg_asset (hd targets) @ ChecksumSuffix, checksum_file sha256 bytes)] t2 \<in> set (butlast trees)"
proof -
  obtain toolchain t2 where env: "toolchainEnv h outDir t1 = (Inr toolchain, t2)"
    and keys: "fst ` set t2 \<subseteq> insert toolchainCacheDir (fst ` set t1)"
    using healthy_cache_env [OF assms(1)] unfolding toolchainEnv_def by blast
  let ?s = "path_join [outDir, stagingName version]"
  obtain stages where c: "compile_all h sha256 sourceDir ?s version toolchain targets [] = (None, stages)"
    using healthy_compile_all [OF assms(1)] by blast
  obtain bytes where first: "compile_target h sha256 sourceDir ?s version toolchain (hd targets) [] =
      (None, [[(tg_asset (hd targets), bytes)], [(tg_asset (hd targets), bytes),
       (tg_asset (hd targets) @ ChecksumSuffix, checksum_file sha256 bytes)]])"
  proof -
    have "ChecksumSuffix \<noteq> []" by (simp add: ChecksumSuffix_def)
    then show ?thesis
      using healthy_compile_target [OF assms(1), of sha256 sourceDir ?s version toolchain "hd targets" "[]"] that by auto
  qed
  have "targets = hd targets # tl targets" by code_simp
  with staged_stages [OF first, of "tl targets"] c
  have stage: "[(tg_asset (hd targets), bytes), (tg_asset (hd targets) @ ChecksumSuffix, checksum_file sha256 bytes)] \<in> set stages"
    by (metis snd_conv)
  define ts where "ts = t2 # map (\<lambda>fs. AList.update (stagingName version) fs t2) stages"
  have t2: "version \<notin> fst ` set t2" using keys assms(2,3) by blast
  then have "version \<notin> fst ` set (AList.update (stagingName version) fs t2)" for fs by (simp add: fst_set_update)
  with t2 have "version \<notin> fst ` set t" if "t \<in> set ts" for t
    using that unfolding ts_def by auto
  then have "version \<notin> fst ` set (List.last ts)" by (metis last_in_set list.distinct(1) ts_def)
  then have "build_staged h sha256 sourceDir outDir version t1 = (None, ts @
      [AList.update version (List.last ([] # stages)) (AList.delete (stagingName version) (List.last ts))])"
    unfolding build_staged_def Let_def env prod.case sum.case c ts_def [symmetric] option.case
    using assms(1) by (simp only: healthy_host_def simp_thms if_False option.map option.case)
  from that [OF this] stage show ?thesis by (auto simp: ts_def)
qed

text \<open>
  On a host where nothing fails, building a new version succeeds; and while it runs the
  catalogue is not as quiet as the comment on \<open>Build\<close> says: as soon as the first target is
  compiled there is a state, the version itself still absent, in which the index offers a version
  named after the staging directory, holding the platforms compiled so far.
\<close>

theorem Build_healthy:
  assumes "healthy_host h" "version = TrimSpace given" "version \<noteq> ''''" "\<not> bad_version version"
    "version \<notin> fst ` set tree" "\<not> HasPrefix version ''.''"
  shows "fst (Build h sha256 sourceDir outDir given tree) = None \<and>
    (\<exists>t \<in> set (snd (Build h sha256 sourceDir outDir given tree)). map_of t version = None \<and>
       index_offers (Fetch as_listed (listing_of t)) KindAgent (version @ ''.building'') ''linux-amd64'')"
proof -
  have cache: "version \<noteq> toolchainCacheDir" using assms(6) by (auto simp: toolchainCacheDir_def HasPrefix_def)
  define t1 where "t1 = AList.update (stagingName version) [] (AList.delete (stagingName version) tree)"
  have "fst ` set (AList.delete (stagingName version) tree) \<subseteq> fst ` set tree"
    by (auto simp: AList.delete_eq)
  then have t1: "version \<notin> fst ` set t1" using assms(5) by (auto simp: t1_def fst_set_update)
  from assms(1) t1 cache obtain trees toolchain t2 bytes where
    b: "build_staged h sha256 sourceDir outDir version t1 = (None, trees)"
    and mem: "AList.update (stagingName version) [(tg_asset (hd targets), bytes),
       (tg_asset (hd targets) @ ChecksumSuffix, checksum_file sha256 bytes)] t2 \<in> set (butlast trees)"
    by (rule healthy_build_staged)
  let ?fs = "[(tg_asset (hd targets), bytes), (tg_asset (hd targets) @ ChecksumSuffix, checksum_file sha256 bytes)]"
  let ?t = "AList.update (stagingName version) ?fs t2"
  have build: "Build h sha256 sourceDir outDir given tree =
      (None, AList.delete (stagingName version) tree # t1 # trees)"
    using assms(1) assms(3-5) b unfolding Build_def Let_def assms(2) [symmetric] t1_def [symmetric]
    by (simp add: healthy_host_def)
  have "same_but {stagingName version, toolchainCacheDir} ?t t1"
    using build_staged_trees(2) [OF b] mem by blast
  then have "map_of ?t version = None"
    using t1 cache by (auto simp: same_but_def map_of_eq_None_iff)
  moreover have "index_offers (Fetch as_listed (listing_of ?t)) KindAgent (stagingName version) (Platform_String (hd Platforms))"
  proof (rule Fetch_lists_dir)
    have "map_of ?t (stagingName version) = Some ?fs" by (simp add: map_of_update)
    then show "(stagingName version, ?fs) \<in> set ?t" by (rule map_of_SomeD)
    show "\<not> HasPrefix (stagingName version) ''.''"
      using assms(3,6) by (cases version) (auto simp: stagingName_def HasPrefix_def)
    show "hd Platforms \<in> set Platforms" by (simp add: Platforms_def)
    have "tg_asset (hd targets) = AssetName (GOOS (hd Platforms)) (GOARCH (hd Platforms))" by code_simp
    then show "AssetName (GOOS (hd Platforms)) (GOARCH (hd Platforms)) \<in> fst ` set ?fs"
      "AssetName (GOOS (hd Platforms)) (GOARCH (hd Platforms)) @ ChecksumSuffix \<in> fst ` set ?fs" by simp_all
  qed
  moreover have "Platform_String (hd Platforms) = ''linux-amd64''" by code_simp
  ultimately show ?thesis
    unfolding build using mem by (auto simp: stagingName_def dest: in_set_butlastD)
qed

definition sample_host :: build_host where
  "sample_host = \<lparr>bh_removeAll = None, bh_mkdirAll = None, bh_lookPath = None, bh_environ = [],
     bh_getenv = (\<lambda>k. ''x''), bh_mkdirCache = (\<lambda>d. None), bh_go = (\<lambda>d args env. Inr (List.last env)),
     bh_writeSum = (\<lambda>a. None), bh_rename = None, bh_cleanup = True\<rparr>"

lemma sample_host: "healthy_host sample_host" "TrimSpace ''v2'' = ''v2''" "\<not> bad_version ''v2''"
proof -
  show "healthy_host sample_host" by (simp add: healthy_host_def sample_host_def)
  show "TrimSpace ''v2'' = ''v2''" by (rule TrimSpace_plain) (simp add: byte_def)
  show "\<not> bad_version ''v2''" by code_simp
qed

theorem Build_healthy_witness:
  "\<exists>t \<in> set (snd (Build sample_host (\<lambda>b. [171]) ''src'' ''builds'' ''v2'' [(''v1'', [])])).
     index_offers (Fetch as_listed (listing_of t)) KindAgent ''v2.building'' ''linux-amd64''"
proof -
  have "''v2'' \<notin> fst ` set [(''v1'', [] :: dir_files)]" "\<not> HasPrefix ''v2'' ''.''" by (simp_all add: HasPrefix_def)
  from Build_healthy [OF sample_host(1) sample_host(2) [symmetric] _ sample_host(3) this, of "\<lambda>b. [171]" "''src''" "''builds''"]
  show ?thesis by auto
qed

theorem Build_publishes_witness:
  "\<exists>trace fs. Build sample_host (\<lambda>b. [171]) ''src'' ''builds'' ''v2'' [(''v1'', [])] = (None, trace) \<and>
     map_of (List.last trace) ''v1'' = Some [] \<and> map_of (List.last trace) ''v2'' = Some fs \<and>
     (\<forall>n. n \<notin> set ExpectedAssets \<longrightarrow> map_of fs n = None)"
proof -
  let ?tree = "[(''v1'', [] :: dir_files)]"
  obtain r trace where b: "Build sample_host (\<lambda>b. [171]) ''src'' ''builds'' ''v2'' ?tree = (r, trace)" by fastforce
  have ok: "''v2'' \<notin> fst ` set ?tree" by simp
  define t1 where "t1 = AList.update (stagingName ''v2'') [] (AList.delete (stagingName ''v2'') ?tree)"
  have "''v2'' \<notin> fst ` set t1" by (simp add: t1_def stagingName_def)
  then obtain trees where "build_staged sample_host (\<lambda>b. [171]) ''src'' ''builds'' ''v2'' t1 = (None, trees)"
    by (rule healthy_build_staged [OF sample_host(1)]) (simp add: toolchainCacheDir_def)
  then have r: "r = None"
    using b sample_host ok unfolding Build_def Let_def sample_host(2) t1_def by (simp add: healthy_host_def)
  have "''v2'' \<noteq> toolchainCacheDir" by (simp add: toolchainCacheDir_def)
  from Build_publishes [OF b sample_host(2) [symmetric] this] r have *:
    "trace \<noteq> []" "\<forall>t \<in> set trace. map_of t ''v1'' = Some []"
    "\<exists>fs. map_of (List.last trace) ''v2'' = Some fs \<and> (\<forall>n. n \<notin> set ExpectedAssets \<longrightarrow> map_of fs n = None)"
    by (auto simp: stagingName_def toolchainCacheDir_def)
  with b r last_in_set [OF *(1)] show ?thesis by auto
qed

end
