(* ===== verification/Source_Archive.thy ===== *)
theory Source_Archive
  imports Self_Update
begin

text \<open>
  Fetching a source tree and unpacking it: \<open>mother/build/source.go\<close>. The HTTP host is the
  parameter \<open>get\<close>, the gzip and tar readers are the parameter \<open>unpack\<close> (not gzip at all, or
  the entries of the archive and the error after them), and the outcome of each file operation
  is part of the record \<open>fs_host\<close>. A cleaned absolute path is the list of its elements.
\<close>

section \<open>Paths\<close>

text \<open>\<open>filepath.Clean\<close> on a rooted path, from the elements before, innermost first.\<close>

fun clean_from :: "string list \<Rightarrow> string list \<Rightarrow> string list" where
  "clean_from acc [] = rev acc"
| "clean_from acc (p # ps) =
     (if p = '''' \<or> p = ''.'' then clean_from acc ps
      else if p = ''..'' then clean_from (tl acc) ps
      else clean_from (p # acc) ps)"

definition join_path :: "string list \<Rightarrow> string \<Rightarrow> string list" where
  "join_path root rel = clean_from (rev root) (Split rel CHR ''/'')"

definition path_text :: "string list \<Rightarrow> string" where
  "path_text ps = ''/'' @ Join ps ''/''"

section \<open>Archive and file system\<close>

datatype type_flag = TypeReg | TypeDir | TypeOther

record tar_entry =
  te_Name :: string
  te_Type :: type_flag
  te_Perm :: nat
  te_Body :: string
  te_Broken :: "string option"

record extraction =
  ex_dirs :: "string list list"
  ex_files :: "(string list \<times> disk_file) list"

record fs_host =
  xh_abs :: "string \<Rightarrow> string + string list"
  xh_mkdir :: "string list \<Rightarrow> string option"
  xh_open :: "string list \<Rightarrow> string option"
  xh_close :: "string list \<Rightarrow> string option"

datatype source_error =
    SourceIO string
  | NoArchive string string nat
  | NotGzip string
  | AbsoluteName string
  | EscapingName string
  | EntryTooLarge string

definition maxSourceSize :: nat where "maxSourceSize = 268435456"
definition maxSourceFile :: nat where "maxSourceFile = 67108864"

definition mkdir_all :: "fs_host \<Rightarrow> string list \<Rightarrow> extraction \<Rightarrow> source_error option \<times> extraction" where
  "mkdir_all h ps x =
     (case xh_mkdir h ps of
        Some e \<Rightarrow> (Some (SourceIO e), x)
      | None \<Rightarrow> (None, x\<lparr>ex_dirs := ex_dirs x @ filter (\<lambda>d. d \<notin> set (ex_dirs x)) (prefixes ps)\<rparr>))"

section \<open>Unpacking\<close>

definition refuseHostilePath :: "string \<Rightarrow> source_error option" where
  "refuseHostilePath name =
     (let clean = TrimPrefix name ''./'' in
      if HasPrefix clean ''/'' then Some (AbsoluteName name)
      else if ''..'' \<in> set (Split clean CHR ''/'') then Some (EscapingName name)
      else None)"

definition strip :: "string \<Rightarrow> string" where
  "strip name = (case Cut (TrimPrefix name ''./'') CHR ''/'' of None \<Rightarrow> '''' | Some (w, rest) \<Rightarrow> rest)"

definition writeFile ::
  "fs_host \<Rightarrow> tar_entry \<Rightarrow> string list \<Rightarrow> extraction \<Rightarrow> source_error option \<times> extraction" where
  "writeFile h te dest x =
     (case mkdir_all h (butlast dest) x of
        (Some e, x1) \<Rightarrow> (Some e, x1)
      | (None, x1) \<Rightarrow>
          (case xh_open h dest of
             Some e \<Rightarrow> (Some (SourceIO e), x1)
           | None \<Rightarrow>
               let mode = (case map_of (ex_files x1) dest of Some f \<Rightarrow> fl_Mode f | None \<Rightarrow> te_Perm te);
                   copied = read_limited (maxSourceFile + 1) (te_Body te) (te_Broken te);
                   err = (case copied of
                       Inl e \<Rightarrow> Some (SourceIO e)
                     | Inr bytes \<Rightarrow> if length bytes > maxSourceFile then Some (EntryTooLarge (path_text dest)) else None);
                   err = (case err of Some e \<Rightarrow> Some e | None \<Rightarrow> map_option SourceIO (xh_close h dest))
               in (case (err, copied) of
                     (None, Inr bytes) \<Rightarrow>
                       (None, x1\<lparr>ex_files := AList.update dest \<lparr>fl_Bytes = bytes, fl_Mode = mode\<rparr> (ex_files x1)\<rparr>)
                   | (e, _) \<Rightarrow> (e, x1\<lparr>ex_files := AList.delete dest (ex_files x1)\<rparr>))))"

text \<open>One entry: the error that ends the extraction, and the state.\<close>

definition extract_entry ::
  "fs_host \<Rightarrow> string list \<Rightarrow> tar_entry \<Rightarrow> extraction \<Rightarrow> source_error option \<times> extraction" where
  "extract_entry h root te x =
     (if te_Type te \<noteq> TypeReg \<and> te_Type te \<noteq> TypeDir then (None, x)
      else (case refuseHostilePath (te_Name te) of
          Some e \<Rightarrow> (Some e, x)
        | None \<Rightarrow>
            let rel = strip (te_Name te) in
            if rel = '''' then (None, x)
            else (case refuseHostilePath rel of
                Some e \<Rightarrow> (Some e, x)
              | None \<Rightarrow>
                  let dest = join_path root rel in
                  if dest \<noteq> root \<and> \<not> HasPrefix (path_text dest) (path_text root @ ''/'')
                  then (Some (EscapingName (te_Name te)), x)
                  else if te_Type te = TypeDir then mkdir_all h dest x
                  else writeFile h te dest x)))"

fun extract_all ::
  "fs_host \<Rightarrow> string list \<Rightarrow> tar_entry list \<Rightarrow> string option \<Rightarrow> extraction \<Rightarrow> source_error option \<times> extraction" where
  "extract_all h root [] broken x = (map_option SourceIO broken, x)"
| "extract_all h root (te # tes) broken x =
     (case extract_entry h root te x of
        (Some e, x') \<Rightarrow> (Some e, x') | (None, x') \<Rightarrow> extract_all h root tes broken x')"

definition unpack_tree ::
  "fs_host \<Rightarrow> tar_entry list \<times> string option \<Rightarrow> string \<Rightarrow> extraction \<Rightarrow> source_error option \<times> extraction" where
  "unpack_tree h archive dir x =
     (case xh_abs h dir of
        Inl e \<Rightarrow> (Some (SourceIO e), x)
      | Inr root \<Rightarrow> extract_all h root (fst archive) (snd archive) x)"

definition FetchSource ::
  "(string \<Rightarrow> http_reply) \<Rightarrow> (string \<Rightarrow> string option \<Rightarrow> (tar_entry list \<times> string option) option) \<Rightarrow> fs_host
     \<Rightarrow> string \<Rightarrow> string \<Rightarrow> string \<Rightarrow> extraction \<Rightarrow> source_error option \<times> extraction" where
  "FetchSource get unpack h repoURL ref dir x =
     (let url = TrimSuffix repoURL ''/'' @ ''/archive/refs/tags/'' @ ref @ ''.tar.gz'' in
      case get url of
        NoReply e \<Rightarrow> (Some (SourceIO e), x)
      | Reply status body broken \<Rightarrow>
          if status \<noteq> 200 then (Some (NoArchive ref url status), x)
          else (case xh_abs h dir of
              Inl e \<Rightarrow> (Some (SourceIO e), x)
            | Inr root \<Rightarrow>
                (case mkdir_all h root x of
                   (Some e, x1) \<Rightarrow> (Some e, x1)
                 | (None, x1) \<Rightarrow>
                     (case unpack (take maxSourceSize body) (if length body < maxSourceSize then broken else None) of
                        None \<Rightarrow> (Some (NotGzip ref), x1)
                      | Some archive \<Rightarrow> unpack_tree h archive dir x1))))"

section \<open>Lemmas\<close>

lemma Split_no_sep: "\<forall>p \<in> set (Split s c). c \<notin> set p"
  by (induction s) (auto split: list.splits)

lemma clean_from_below: "''..'' \<notin> set ps \<Longrightarrow> prefix (rev acc) (clean_from acc ps)"
proof (induction ps arbitrary: acc)
  case (Cons p ps)
  then show ?case using Cons.IH [of acc] Cons.IH [of "p # acc"]
    by (auto intro: prefix_order.trans [of "rev acc" "rev acc @ [p]"])
qed simp

lemma join_path_below: "''..'' \<notin> set (Split rel CHR ''/'') \<Longrightarrow> prefix root (join_path root rel)"
  unfolding join_path_def by (metis clean_from_below rev_rev_ident)

lemma refuseHostilePath_None:
  "refuseHostilePath name = None \<longleftrightarrow>
   \<not> HasPrefix (TrimPrefix name ''./'') ''/'' \<and> ''..'' \<notin> set (Split (TrimPrefix name ''./'') CHR ''/'')"
  by (simp add: refuseHostilePath_def Let_def)

lemma accepted_no_dots:
  assumes "refuseHostilePath name = None"
  shows "''..'' \<notin> set (Split name CHR ''/'')"
proof (cases "HasPrefix name ''./''")
  case True
  then obtain r where "name = ''./'' @ r" using HasPrefix_iff by blast
  with assms show ?thesis by (simp add: refuseHostilePath_None TrimPrefix_def HasPrefix_def)
next
  case False
  with assms show ?thesis by (simp add: refuseHostilePath_None TrimPrefix_def)
qed

text \<open>What an extraction may have changed: directories and files at or below the root.\<close>

definition confined :: "string list \<Rightarrow> extraction \<Rightarrow> extraction \<Rightarrow> bool" where
  "confined root x x' \<longleftrightarrow>
     set (ex_dirs x) \<subseteq> set (ex_dirs x') \<and> (\<forall>d \<in> set (ex_dirs x') - set (ex_dirs x). strict_prefix root d) \<and>
     (\<forall>p. \<not> strict_prefix root p \<longrightarrow> map_of (ex_files x') p = map_of (ex_files x) p) \<and>
     (\<forall>p f. map_of (ex_files x') p = Some f \<longrightarrow> map_of (ex_files x) p = Some f \<or> length (fl_Bytes f) \<le> maxSourceFile)"

lemma confined_refl [simp]: "confined root x x"
  by (auto simp: confined_def)

lemma confined_trans: "confined root x y \<Longrightarrow> confined root y z \<Longrightarrow> confined root x z"
  unfolding confined_def by (intro conjI allI impI ballI) (blast, blast, metis, metis)

text \<open>The root exists with everything above it, and a directory cannot be opened for writing.\<close>

definition rooted :: "fs_host \<Rightarrow> string list \<Rightarrow> extraction \<Rightarrow> bool" where
  "rooted h root x \<longleftrightarrow> set (prefixes root) \<subseteq> set (ex_dirs x) \<and> xh_open h root \<noteq> None"

lemma rooted_confined: "rooted h root x \<Longrightarrow> confined root x x' \<Longrightarrow> rooted h root x'"
  by (auto simp: rooted_def confined_def)

lemma mkdir_all_confined:
  assumes "rooted h root x" "prefix root ps \<or> prefix ps root" "mkdir_all h ps x = (r, x')"
  shows "confined root x x'"
proof -
  have "strict_prefix root d" if "prefix d ps" "d \<notin> set (ex_dirs x)" for d
  proof -
    have "\<not> prefix d root" using that(2) assms(1) by (auto simp: rooted_def)
    moreover from this have "\<not> prefix ps root" using that(1) prefix_order.trans by blast
    then have "prefix root ps" using assms(2) by blast
    with that(1) have "prefix root d \<or> prefix d root" by (rule prefix_same_cases [rotated]) 
    ultimately show ?thesis by (auto simp: strict_prefix_def)
  qed
  with assms(3) show ?thesis
    by (auto simp: mkdir_all_def confined_def split: option.splits)
qed

lemma writeFile_confined:
  assumes "rooted h root x" "prefix root dest" "writeFile h te dest x = (r, x')"
  shows "confined root x x'"
proof -
  obtain r1 x1 where m: "mkdir_all h (butlast dest) x = (r1, x1)" by fastforce
  have "prefix root (butlast dest) \<or> prefix (butlast dest) root"
    using assms(2) by (metis prefixeq_butlast prefix_same_cases)
  from mkdir_all_confined [OF assms(1) this m] have c: "confined root x x1" .
  show ?thesis
  proof (cases "r1 = None \<and> xh_open h dest = None")
    case True
    then have "strict_prefix root dest" using assms(1,2) by (auto simp: rooted_def strict_prefix_def)
    moreover have "x' = x1\<lparr>ex_files := AList.delete dest (ex_files x1)\<rparr> \<or>
        (\<exists>bytes mode. length bytes \<le> maxSourceFile \<and>
          x' = x1\<lparr>ex_files := AList.update dest \<lparr>fl_Bytes = bytes, fl_Mode = mode\<rparr> (ex_files x1)\<rparr>)"
      using assms(3) m True
      by (simp add: writeFile_def Let_def split: option.splits sum.splits if_splits) (metis linorder_not_less)+
    ultimately have "confined root x1 x'"
      by (auto simp: confined_def delete_conv' map_of_update split: if_splits)
    with c show ?thesis by (rule confined_trans)
  next
    case False
    with assms(3) m c show ?thesis by (auto simp: writeFile_def split: option.splits)
  qed
qed

lemma extract_entry_confined:
  assumes "rooted h root x" "extract_entry h root te x = (r, x')"
  shows "confined root x x'"
proof -
  have "x' = x \<or> (\<exists>dest. prefix root dest \<and> (mkdir_all h dest x = (r, x') \<or> writeFile h te dest x = (r, x')))"
    using assms(2) join_path_below [OF accepted_no_dots, of "strip (te_Name te)" root]
    by (auto simp: extract_entry_def Let_def split: if_splits option.splits)
  then show ?thesis
    using mkdir_all_confined [OF assms(1)] writeFile_confined [OF assms(1)] confined_refl by blast
qed

lemma extract_all_confined:
  "rooted h root x \<Longrightarrow> extract_all h root tes broken x = (r, x') \<Longrightarrow> confined root x x'"
proof (induction tes arbitrary: x)
  case (Cons te tes)
  obtain r1 x1 where e: "extract_entry h root te x = (r1, x1)" by fastforce
  note c = extract_entry_confined [OF Cons.prems(1) e]
  show ?case
  proof (cases r1)
    case None
    with Cons.prems(2) e have "extract_all h root tes broken x1 = (r, x')" by simp
    from Cons.IH [OF rooted_confined [OF Cons.prems(1) c] this] c show ?thesis by (rule confined_trans [rotated])
  next
    case (Some er)
    with Cons.prems(2) e c show ?thesis by simp
  qed
qed simp

section \<open>A well formed archive is unpacked exactly\<close>

text \<open>One element of a clean path, and an entry of the tree under the archive's wrapper.\<close>

definition element :: "string \<Rightarrow> bool" where
  "element p \<longleftrightarrow> p \<notin> {'''', ''.'', ''..''} \<and> CHR ''/'' \<notin> set p"

definition wrapped :: "string \<Rightarrow> string list \<times> tar_entry \<Rightarrow> tar_entry" where
  "wrapped w e = snd e\<lparr>te_Name := w @ ''/'' @ Join (fst e) ''/''\<rparr>"

definition sound_entry :: "string list \<times> tar_entry \<Rightarrow> bool" where
  "sound_entry e \<longleftrightarrow> fst e \<noteq> [] \<and> list_all element (fst e) \<and> te_Type (snd e) \<noteq> TypeOther \<and>
     length (te_Body (snd e)) \<le> maxSourceFile \<and> te_Broken (snd e) = None"

definition healthy_fs :: "fs_host \<Rightarrow> string \<Rightarrow> string list \<Rightarrow> bool" where
  "healthy_fs h dir root \<longleftrightarrow> root \<noteq> [] \<and> xh_abs h dir = Inr root \<and> xh_mkdir h = (\<lambda>_. None) \<and>
     (\<forall>segs. segs \<noteq> [] \<longrightarrow> xh_open h (root @ segs) = None) \<and> xh_close h = (\<lambda>_. None)"

lemma Split_Join: "ps \<noteq> [] \<Longrightarrow> \<forall>p \<in> set ps. c \<notin> set p \<Longrightarrow> Split (Join ps [c]) c = ps"
proof (induction ps rule: induct_list012)
  case (2 p)
  have "c \<notin> set p \<Longrightarrow> Split p c = [p]" by (induction p) auto
  with 2 show ?case by simp
next
  case (3 p q ps)
  then show ?case by (simp add: Split_line)
qed simp

lemma element_slash: "list_all element ps \<Longrightarrow> \<forall>p \<in> set ps. CHR ''/'' \<notin> set p"
  by (auto simp: list_all_iff element_def)

lemma clean_elements: "list_all element ps \<Longrightarrow> clean_from acc ps = rev acc @ ps"
  by (induction ps arbitrary: acc) (auto simp: element_def)

lemma join_path_elements:
  "ps \<noteq> [] \<Longrightarrow> list_all element ps \<Longrightarrow> join_path root (Join ps ''/'') = root @ ps"
  using Split_Join [of ps "CHR ''/''"] element_slash by (simp add: join_path_def clean_elements)

lemma TrimPrefix_element: "element p \<Longrightarrow> TrimPrefix (p @ CHR ''/'' # s) ''./'' = p @ CHR ''/'' # s"
  by (cases p; cases "tl p") (auto simp: TrimPrefix_def HasPrefix_def element_def)

lemma TrimPrefix_one: "element p \<Longrightarrow> TrimPrefix p ''./'' = p"
  by (cases p; cases "tl p") (auto simp: TrimPrefix_def HasPrefix_def element_def)

lemma TrimPrefix_Join: "list_all element ps \<Longrightarrow> TrimPrefix (Join ps ''/'') ''./'' = Join ps ''/''"
  by (cases "(ps, ''/'')" rule: Join.cases)
    (auto simp: TrimPrefix_one TrimPrefix_element TrimPrefix_def [of "''''"] HasPrefix_def)

lemma Join_elements_ne: "ps \<noteq> [] \<Longrightarrow> list_all element ps \<Longrightarrow> Join ps ''/'' \<noteq> '''' \<and> \<not> HasPrefix (Join ps ''/'') ''/''"
  by (cases "(ps, ''/'')" rule: Join.cases; cases "hd ps") (auto simp: element_def HasPrefix_def)

lemma refuse_elements:
  assumes "ps \<noteq> []" "list_all element ps"
  shows "refuseHostilePath (Join ps ''/'') = None"
proof -
  have "''..'' \<notin> set ps" using assms(2) by (auto simp: list_all_iff element_def)
  with assms show ?thesis
    using Split_Join [OF assms(1) element_slash [OF assms(2)]]
    by (simp add: refuseHostilePath_None TrimPrefix_Join Join_elements_ne)
qed

lemma Join_wrapper: "ps \<noteq> [] \<Longrightarrow> w @ CHR ''/'' # Join ps ''/'' = Join (w # ps) ''/''"
  by (cases ps) auto

lemma extract_entry_sound:
  assumes "element w" "sound_entry e" "healthy_fs h dir root"
  shows "extract_entry h root (wrapped w e) x =
    (if te_Type (snd e) = TypeDir then mkdir_all h (root @ fst e) x
     else writeFile h (snd e) (root @ fst e) x)"
proof -
  from assms(2) have s: "fst e \<noteq> []" "list_all element (fst e)" by (auto simp: sound_entry_def)
  have name: "te_Name (wrapped w e) = Join (w # fst e) ''/''"
    using s(1) by (simp add: wrapped_def Join_wrapper)
  have strip: "strip (te_Name (wrapped w e)) = Join (fst e) ''/''"
    using assms(1) Cut_append [of "CHR ''/''" w]
    by (simp add: wrapped_def strip_def TrimPrefix_element) (simp add: element_def)
  have dest: "join_path root (Join (fst e) ''/'') = root @ fst e"
    using s by (simp add: join_path_elements)
  have under: "HasPrefix (path_text (root @ fst e)) (path_text root @ ''/'')"
  proof -
    have "Join (ps @ qs) ''/'' = Join ps ''/'' @ CHR ''/'' # Join qs ''/''" if "ps \<noteq> []" "qs \<noteq> []"
      for ps qs :: "string list"
      using that by (induction ps rule: induct_list012) (auto simp: neq_Nil_conv)
    with s(1) assms(3) show ?thesis by (simp add: path_text_def healthy_fs_def HasPrefix_iff)
  qed
  have "wrapped w e = snd e\<lparr>te_Name := Join (w # fst e) ''/''\<rparr>"
    using s(1) by (simp add: wrapped_def Join_wrapper)
  moreover have "writeFile h (snd e\<lparr>te_Name := n\<rparr>) = writeFile h (snd e)" for n
    by (intro ext) (simp add: writeFile_def cong: option.case_cong)
  moreover have "te_Type (wrapped w e) = te_Type (snd e)" "te_Type (snd e) \<noteq> TypeOther"
    using assms(2) by (auto simp: wrapped_def sound_entry_def)
  moreover have "refuseHostilePath (Join (w # fst e) ''/'') = None"
    by (rule refuse_elements) (use assms(1) s(2) in auto)
  moreover have "refuseHostilePath (Join (fst e) ''/'') = None" by (rule refuse_elements [OF s])
  ultimately show ?thesis
    using name strip dest under Join_elements_ne [OF s] type_flag.exhaust [of "te_Type (snd e)"]
    by (auto simp: extract_entry_def Let_def)
qed

definition put_entry :: "string list \<Rightarrow> (string list \<times> disk_file) list \<Rightarrow> string list \<times> tar_entry
  \<Rightarrow> (string list \<times> disk_file) list" where
  "put_entry root fs e =
     (if te_Type (snd e) = TypeDir then fs
      else AList.update (root @ fst e)
        \<lparr>fl_Bytes = te_Body (snd e),
         fl_Mode = (case map_of fs (root @ fst e) of Some f \<Rightarrow> fl_Mode f | None \<Rightarrow> te_Perm (snd e))\<rparr> fs)"

lemma extract_entry_put:
  assumes "element w" "sound_entry e" "healthy_fs h dir root"
  shows "\<exists>x'. extract_entry h root (wrapped w e) x = (None, x') \<and> ex_files x' = put_entry root (ex_files x) e"
  using assms read_limited_short [of "te_Body (snd e)" maxSourceFile]
  by (simp add: extract_entry_sound [OF assms] mkdir_all_def writeFile_def Let_def put_entry_def
      healthy_fs_def sound_entry_def)

lemma unpack_all_put:
  assumes "element w" "healthy_fs h dir root"
  shows "list_all sound_entry es \<Longrightarrow>
    \<exists>x'. extract_all h root (map (wrapped w) es) None x = (None, x') \<and> ex_files x' = foldl (put_entry root) (ex_files x) es"
proof (induction es arbitrary: x)
  case (Cons e es)
  then obtain x1 where e: "extract_entry h root (wrapped w e) x = (None, x1)" "ex_files x1 = put_entry root (ex_files x) e"
    using extract_entry_put [OF assms(1) _ assms(2)] by fastforce
  with Cons.IH [of x1] Cons.prems show ?case by simp
qed simp

lemma put_entry_other: "root @ fst e \<noteq> p \<Longrightarrow> map_of (put_entry root fs e) p = map_of fs p"
  by (simp add: put_entry_def map_of_update)

lemma put_entries_other: "\<forall>e \<in> set es. root @ fst e \<noteq> p \<Longrightarrow> map_of (foldl (put_entry root) fs es) p = map_of fs p"
  by (induction es arbitrary: fs) (auto simp: put_entry_other)

lemma put_entries:
  assumes "distinct (map fst es)" "e \<in> set es" "te_Type (snd e) \<noteq> TypeDir" "map_of fs (root @ fst e) = None"
  shows "map_of (foldl (put_entry root) fs es) (root @ fst e) =
    Some \<lparr>fl_Bytes = te_Body (snd e), fl_Mode = te_Perm (snd e)\<rparr>"
  using assms
proof (induction es arbitrary: fs)
  case (Cons a es)
  show ?case
  proof (cases "a = e")
    case True
    then have "fst e \<notin> fst ` set es" using Cons.prems(1) by simp
    then have "\<forall>e' \<in> set es. root @ fst e' \<noteq> root @ fst e" by (metis image_eqI same_append_eq)
    note rest = put_entries_other [OF this]
    have "map_of (put_entry root fs e) (root @ fst e) =
        Some \<lparr>fl_Bytes = te_Body (snd e), fl_Mode = te_Perm (snd e)\<rparr>"
      using Cons.prems(3,4) by (simp add: put_entry_def map_of_update)
    with rest True show ?thesis by simp
  next
    case False
    then have "fst a \<noteq> fst e" using Cons.prems(1,2) by force
    with False Cons show ?thesis by (simp add: put_entry_other)
  qed
qed simp

section \<open>Properties\<close>



section \<open>Witnesses\<close>

definition sample_fs :: fs_host where
  "sample_fs = \<lparr>xh_abs = (\<lambda>_. Inr [''srv'', ''src'']), xh_mkdir = (\<lambda>_. None),
     xh_open = (\<lambda>p. if p = [''srv'', ''src''] then Some ''is a directory'' else None), xh_close = (\<lambda>_. None)\<rparr>"

definition sample_archive :: "(string list \<times> tar_entry) list" where
  "sample_archive =
     [([''mother''], \<lparr>te_Name = '''', te_Type = TypeDir, te_Perm = 493, te_Body = '''', te_Broken = None\<rparr>),
      ([''mother'', ''go.mod''], \<lparr>te_Name = '''', te_Type = TypeReg, te_Perm = 420, te_Body = ''module'', te_Broken = None\<rparr>)]"

definition hostile_archive :: "tar_entry list" where
  "hostile_archive = map (wrapped ''w'') sample_archive @
     [\<lparr>te_Name = ''w/../../etc/passwd'', te_Type = TypeReg, te_Perm = 420, te_Body = ''root'', te_Broken = None\<rparr>]"

abbreviation (input) nothing_there :: extraction where
  "nothing_there \<equiv> \<lparr>ex_dirs = [], ex_files = []\<rparr>"

lemma sample_fs_healthy: "healthy_fs sample_fs ''src'' [''srv'', ''src'']"
  by (simp add: healthy_fs_def sample_fs_def)

lemma hostile_run:
  "fst (FetchSource (\<lambda>_. Reply 200 ''gz'' None) (\<lambda>_ _. Some (hostile_archive, None)) sample_fs
     ''https://github.com/o/r'' ''v1'' ''src'' nothing_there) = Some (EscapingName ''w/../../etc/passwd'')"
  by (simp add: FetchSource_def unpack_tree_def mkdir_all_def sample_fs_def Let_def hostile_archive_def
      sample_archive_def wrapped_def extract_entry_def refuseHostilePath_def strip_def TrimPrefix_def HasPrefix_def
      join_path_def path_text_def writeFile_def read_limited_def maxSourceFile_def maxSourceSize_def)



end
