(* ===== verification/Live_Log.thy ===== *)
theory Live_Log
  imports Live
begin

text \<open>
  The live store of \<open>mother/live/live.go\<close> against what it promises: the log of the pushes since the
  server was last forgotten, cut to the window. An operation is a step with the clock reading it takes;
  the log never evicts and knows no cap.
\<close>

section \<open>Runs and their log\<close>

datatype 'v live_op =
  Added int int "(string \<times> 'v) list"
| Looked int string int
| Forgotten int

fun live_step :: "'v live \<Rightarrow> int \<times> 'v live_op \<Rightarrow> 'v live" where
  "live_step s (now, Added serverID ts samples) = live_Add now serverID ts samples s"
| "live_step s (now, Looked serverID metric since) = snd (SeriesSince now serverID metric since s)"
| "live_step s (now, Forgotten serverID) = Forget serverID s"

fun log_step :: "int \<Rightarrow> string \<Rightarrow> 'v point list \<Rightarrow> int \<times> 'v live_op \<Rightarrow> 'v point list" where
  "log_step i m ps (now, Added serverID ts samples) =
     (case (serverID = i, map_of samples m) of
        (True, Some v) \<Rightarrow> ps @ [\<lparr>pt_TS = ts, pt_Value = v\<rparr>]
      | _ \<Rightarrow> ps)"
| "log_step i m ps (now, Looked serverID metric since) = ps"
| "log_step i m ps (now, Forgotten serverID) = (if serverID = i then [] else ps)"

definition live_run :: "int \<Rightarrow> (int \<times> 'v live_op) list \<Rightarrow> 'v live" where
  "live_run window steps = foldl live_step (new_live window) steps"

definition live_log :: "int \<Rightarrow> string \<Rightarrow> (int \<times> 'v live_op) list \<Rightarrow> 'v point list" where
  "live_log i m steps = foldl (log_step i m) [] steps"

text \<open>What the callers keep: clocks and the stamps of a server's pushes do not go back, and the samples
  of a push are a Go map.\<close>

fun push_times :: "int \<Rightarrow> (int \<times> 'v live_op) list \<Rightarrow> int list" where
  "push_times i [] = []"
| "push_times i ((now, Added serverID ts samples) # steps) =
     (if serverID = i then ts # push_times i steps else push_times i steps)"
| "push_times i (_ # steps) = push_times i steps"

fun pushed_names :: "int \<Rightarrow> (int \<times> 'v live_op) list \<Rightarrow> string set" where
  "pushed_names i [] = {}"
| "pushed_names i ((now, Added serverID ts samples) # steps) =
     (if serverID = i then fst ` set samples \<union> pushed_names i steps else pushed_names i steps)"
| "pushed_names i (_ # steps) = pushed_names i steps"

fun op_server :: "int \<times> 'v live_op \<Rightarrow> int" where
  "op_server (now, Added serverID ts samples) = serverID"
| "op_server (now, Looked serverID metric since) = serverID"
| "op_server (now, Forgotten serverID) = serverID"

fun op_map :: "int \<times> 'v live_op \<Rightarrow> bool" where
  "op_map (now, Added serverID ts samples) = distinct (map fst samples)"
| "op_map _ = True"

definition in_time :: "(int \<times> 'v live_op) list \<Rightarrow> bool" where
  "in_time steps \<longleftrightarrow> sorted (map fst steps) \<and> (\<forall>x \<in> set steps. op_map x) \<and>
     (\<forall>j \<in> op_server ` set steps. sorted (push_times j steps))"

lemma live_run_simps [simp]:
  "live_run w [] = new_live w" "live_run w (steps @ [x]) = live_step (live_run w steps) x"
  by (simp_all add: live_run_def)

lemma live_log_simps [simp]:
  "live_log i m [] = []" "live_log i m (steps @ [x]) = log_step i m (live_log i m steps) x"
  by (simp_all add: live_log_def)

lemma push_times_append [simp]: "push_times i (a @ b) = push_times i a @ push_times i b"
  by (induction i a rule: push_times.induct) auto

lemma pushed_names_append [simp]: "pushed_names i (a @ b) = pushed_names i a \<union> pushed_names i b"
  by (induction i a rule: pushed_names.induct) auto

lemma finite_pushed_names [simp]: "finite (pushed_names i steps)"
  by (induction i steps rule: pushed_names.induct) auto

lemma push_times_none: "j \<notin> op_server ` set steps \<Longrightarrow> push_times j steps = []"
  by (induction j steps rule: push_times.induct) auto

lemma in_time_sorted: "in_time steps \<Longrightarrow> sorted (push_times j steps)"
  by (cases "j \<in> op_server ` set steps") (auto simp: in_time_def push_times_none)

lemma in_time_snoc:
  assumes "in_time (steps @ [x])"
  shows "in_time steps" "op_map x" "\<forall>t \<in> set (map fst steps). t \<le> fst x"
  using assms by (auto simp: in_time_def sorted_append)

section \<open>One step\<close>

lemma held_Forget: "held j (Forget i s) = (if j = i then [] else held j s)"
  by (simp add: held_def Forget_def map_of_delete)

lemma evict_metrics_subset:
  assumes "live_ok s" "(m, ps) \<in> set (evict_metrics c (held i s))"
  obtains qs where "(m, qs) \<in> set (held i s)" "set ps \<subseteq> set qs"
  using assms(2) unfolding evict_metrics_conv [OF held_ok(3) [OF assms(1)]] by auto

lemma no_later_evict: "live_ok s \<Longrightarrow> no_later i t s \<Longrightarrow> no_later i t (evictLocked now j s)"
  by (auto simp: no_later_def held_evict elim!: evict_metrics_subset) blast

lemma names_evict: "live_ok s \<Longrightarrow> fst ` set (held i (evictLocked now j s)) \<subseteq> fst ` set (held i s)"
  by (auto simp: held_evict elim!: evict_metrics_subset) force

lemma no_later_Added:
  assumes "live_ok s" "no_later i ts s"
  shows "no_later i ts (s\<lparr>lv_series := AList.update i (foldl (add_point ts) (held i s) samples) (lv_series s)\<rparr>)"
  using foldl_add_point_ok [OF held_ok(1,2) [OF assms(1)], of i ts samples] assms(2) held_ok(3) [OF assms(1), of i]
  by (fastforce simp: no_later_def held_update)

lemma no_later_mono: "no_later i t s \<Longrightarrow> t \<le> u \<Longrightarrow> no_later i u s"
  by (fastforce simp: no_later_def)

lemma add_samples_points:
  assumes "live_ok s" "distinct (map fst samples)" "fst ` set (held i s) \<subseteq> names"
    "fst ` set samples \<subseteq> names" "finite names" "card names \<le> MaxMetricsPerServer"
  shows "points_of i m (add_samples i ts samples s) =
    points_of i m s @ (case map_of samples m of None \<Rightarrow> [] | Some v \<Rightarrow> [\<lparr>pt_TS = ts, pt_Value = v\<rparr>])"
proof -
  have "card (fst ` set (held i s) \<union> fst ` set samples) \<le> MaxMetricsPerServer"
    using assms(3-6) card_mono [of names "fst ` set (held i s) \<union> fst ` set samples"] by simp
  from foldl_add_point_map_of [OF held_ok(1) [OF assms(1)] assms(2) this, of ts m] show ?thesis
    by (simp add: add_samples_def points_of_def held_update split: option.split)
qed

lemma fst_foldl_add_point: "fst ` set (foldl (add_point ts) bm samples) \<subseteq> fst ` set bm \<union> fst ` set samples"
proof (induction samples arbitrary: bm)
  case (Cons x samples)
  have "fst ` set (add_point ts bm x) \<subseteq> insert (fst x) (fst ` set bm)"
    by (cases x) (auto simp: dom_map_of_conv_image_fst [symmetric] map_of_add_point split: if_splits)
  with Cons [of "add_point ts bm x"] show ?case by auto
qed simp

lemma names_Add:
  assumes "live_ok s" "no_later j ts s"
  shows "fst ` set (held i (live_Add now j ts samples s)) \<subseteq>
    fst ` set (held i s) \<union> (if i = j then fst ` set samples else {})"
proof (cases "samples = []")
  case False
  have "fst ` set (held i (add_samples j ts samples s)) \<subseteq>
      fst ` set (held i s) \<union> (if i = j then fst ` set samples else {})"
    using fst_foldl_add_point [of ts "held j s" samples] by (simp add: add_samples_def held_update)
  with names_evict [OF live_ok_add_samples [OF assms False], of i now j] False show ?thesis
    by (simp add: live_Add_split)
qed (simp add: live_Add_split)

lemma no_later_Add:
  assumes "live_ok s" "no_later j ts s" "no_later i t s" "i = j \<longrightarrow> ts \<le> t"
  shows "no_later i t (live_Add now j ts samples s)"
proof (cases "samples = []")
  case False
  have "no_later i t (add_samples j ts samples s)"
  proof (cases "i = j")
    case True
    with no_later_mono [OF no_later_Added [OF assms(1,2), of samples]] assms(4) show ?thesis
      by (simp add: add_samples_def)
  next
    case False
    with assms(3) show ?thesis by (simp add: no_later_def)
  qed
  with no_later_evict [OF live_ok_add_samples [OF assms(1,2) False]] False show ?thesis
    by (simp add: live_Add_split)
qed (simp add: live_Add_split assms(3))

section \<open>The invariant of a run\<close>

definition run_ok :: "(int \<times> 'v live_op) list \<Rightarrow> 'v live \<Rightarrow> bool" where
  "run_ok steps s \<longleftrightarrow> live_ok s \<and>
     (\<forall>i t. (\<forall>u \<in> set (push_times i steps). u \<le> t) \<longrightarrow> no_later i t s) \<and>
     (\<forall>i. fst ` set (held i s) \<subseteq> pushed_names i steps)"

definition cut :: "int \<Rightarrow> 'v point list \<Rightarrow> 'v point list" where
  "cut c ps = filter (\<lambda>p. c \<le> pt_TS p) ps"

lemma cut_append [simp]: "cut c (ps @ qs) = cut c ps @ cut c qs"
  by (simp add: cut_def)

lemma cut_Nil [simp]: "cut c [] = []"
  by (simp add: cut_def)

lemma cut_cut [simp]: "c \<le> d \<Longrightarrow> cut d (cut c ps) = cut d ps"
  by (auto simp: cut_def intro: filter_cong)

lemma points_evict_cut:
  "live_ok s \<Longrightarrow> live_cutoff t s \<le> c \<Longrightarrow> cut c (points_of i m (evictLocked t j s)) = cut c (points_of i m s)"
  by (simp add: points_of_evict flip: cut_def)

lemma live_step_window [simp]: "lv_window (live_step s x) = lv_window s"
  by (cases "(s, x)" rule: live_step.cases) (simp_all add: live_Add_split SeriesSince_def Let_def Forget_def)

lemma live_run_window: "lv_window (live_run w steps) = lv_window (new_live w :: 'v live)"
  for steps :: "(int \<times> 'v live_op) list"
  by (induction steps rule: rev_induct) simp_all

lemma run_ok_last:
  assumes "run_ok steps s" "sorted (push_times i steps @ [ts])"
  shows "no_later i ts s"
  using assms by (auto simp: run_ok_def sorted_append)

lemma run_ok_step:
  assumes run: "run_ok steps s" and time: "in_time (steps @ [x])"
  shows "run_ok (steps @ [x]) (live_step s x)"
proof (cases "(s, x)" rule: live_step.cases)
  case (1 s' now j ts samples)
  then have x: "x = (now, Added j ts samples)" by simp
  have late: "no_later j ts s"
    using run_ok_last [OF run, of j ts] in_time_sorted [OF time, of j] by (simp add: x)
  have ok: "live_ok s" using run by (simp add: run_ok_def)
  have "no_later i t (live_Add now j ts samples s)"
    if "\<forall>u \<in> set (push_times i (steps @ [x])). u \<le> t" for i t
  proof (rule no_later_Add [OF ok late])
    show "no_later i t s" using that run by (simp add: run_ok_def)
    show "i = j \<longrightarrow> ts \<le> t" using that by (simp add: x)
  qed
  moreover have "fst ` set (held i (live_Add now j ts samples s)) \<subseteq> pushed_names i (steps @ [x])" for i
  proof (rule subset_trans [OF names_Add [OF ok late]])
    have "fst ` set (held i s) \<subseteq> pushed_names i steps" using run by (simp add: run_ok_def)
    then show "fst ` set (held i s) \<union> (if i = j then fst ` set samples else {}) \<subseteq> pushed_names i (steps @ [x])"
      by (auto simp: x)
  qed
  ultimately show ?thesis
    using live_ok_Add [OF ok late] by (simp add: run_ok_def x)
next
  case (2 s' now j m since)
  then have x: "x = (now, Looked j m since)" by simp
  from run have ok: "live_ok s" by (simp add: run_ok_def)
  have "live_step s x = evictLocked now j s" by (simp add: x SeriesSince_def Let_def)
  moreover have "fst ` set (held i (evictLocked now j s)) \<subseteq> pushed_names i steps" for i
    using run names_evict [OF ok, of i now j] by (simp add: run_ok_def subset_trans)
  ultimately show ?thesis
    using run no_later_evict [OF ok] live_ok_evict [OF ok] by (simp add: run_ok_def x)
next
  case (3 s' now j)
  then have x: "x = (now, Forgotten j)" by simp
  with run live_ok_Forget [of s j] show ?thesis by (auto simp: run_ok_def no_later_def held_Forget)
qed

lemma run_ok_run: "in_time steps \<Longrightarrow> run_ok steps (live_run w steps)"
  for steps :: "(int \<times> 'v live_op) list"
proof (induction steps rule: rev_induct)
  case Nil
  have "held i (new_live w :: 'v live) = []" for i by (simp add: held_def new_live_def)
  then show ?case by (simp add: run_ok_def live_ok_new no_later_def)
next
  case (snoc x steps)
  with in_time_snoc(1) [OF snoc.prems] show ?case by (simp add: run_ok_step)
qed

section \<open>The live store refines the log\<close>

lemma step_agrees:
  assumes run: "run_ok steps s" and time: "in_time (steps @ [x])"
    and names: "card (pushed_names i (steps @ [x])) \<le> MaxMetricsPerServer"
    and agree: "cut c (points_of i m s) = cut c (live_log i m steps)"
    and now: "live_cutoff (fst x) s \<le> c"
  shows "cut c (points_of i m (live_step s x)) = cut c (live_log i m (steps @ [x]))"
proof (cases "(s, x)" rule: live_step.cases)
  case (1 s' now j ts samples)
  then have x: "x = (now, Added j ts samples)" by simp
  from run have ok: "live_ok s" and held: "fst ` set (held i s) \<subseteq> pushed_names i steps"
    by (simp_all add: run_ok_def)
  have late: "no_later j ts s"
    using run_ok_last [OF run, of j ts] in_time_sorted [OF time, of j] by (simp add: x)
  have "cut c (points_of i m (live_Add now j ts samples s)) = cut c (points_of i m (add_samples j ts samples s))"
    if "samples \<noteq> []"
    using that points_evict_cut [OF live_ok_add_samples [OF ok late that], of now] now
    by (simp add: live_Add_split x)
  moreover have "points_of i m (add_samples i ts samples s) =
      points_of i m s @ (case map_of samples m of None \<Rightarrow> [] | Some v \<Rightarrow> [\<lparr>pt_TS = ts, pt_Value = v\<rparr>])"
    if "i = j"
    using in_time_snoc(2) [OF time] names held that
    by (intro add_samples_points [OF ok, of samples i "pushed_names i (steps @ [x])"]) (auto simp: x)
  ultimately show ?thesis
    using agree by (cases "samples = []"; cases "i = j") (auto simp: x live_Add_split split: option.split)
next
  case (2 s' now j m' since)
  with agree now run points_evict_cut [of s now c i m j] show ?thesis
    by (simp add: SeriesSince_def Let_def run_ok_def)
next
  case (3 s' now j)
  with agree show ?thesis by (simp add: points_of_def held_Forget)
qed

lemma run_agrees:
  assumes "in_time steps" "card (pushed_names i steps) \<le> MaxMetricsPerServer"
    and "\<forall>t \<in> set (map fst steps). live_cutoff t (new_live w :: 'v live) \<le> c"
  shows "cut c (points_of i m (live_run w steps)) = cut c (live_log i m (steps :: (int \<times> 'v live_op) list))"
  using assms
proof (induction steps rule: rev_induct)
  case Nil
  then show ?case by (simp add: points_of_def held_def new_live_def)
next
  case (snoc x steps)
  have "card (pushed_names i steps) \<le> card (pushed_names i (steps @ [x]))"
    by (rule card_mono) (simp_all del: pushed_names.simps)
  with snoc in_time_snoc(1) [OF snoc.prems(1)]
  have "cut c (points_of i m (live_run w steps)) = cut c (live_log i m steps)" by simp
  moreover have "live_cutoff (fst x) (live_run w steps) \<le> c"
    using snoc.prems(3) live_run_window [of w steps] by (simp add: live_cutoff_def)
  ultimately show ?case
    using step_agrees [OF run_ok_run [OF in_time_snoc(1) [OF snoc.prems(1)]] snoc.prems(1,2)] by simp
qed

text \<open>
  C18. The live store refines the log of the pushes. After any run of pushes, reads and deletions in
  which no clock goes back and the server used at most 256 metric names, a read returns exactly the
  points that were pushed since the server was last forgotten, are newer than \<open>since\<close> and are inside
  the window, each once and in the order of the pushes: the evictions on the way, the other servers and
  the binary search lose nothing, keep nothing stale and invent nothing.
\<close>

theorem live_refines_log:
  fixes steps :: "(int \<times> 'v live_op) list"
  assumes "in_time steps" "\<forall>t \<in> set (map fst steps). t \<le> now"
    and "card (pushed_names i steps) \<le> 256"
  shows "fst (SeriesSince now i m since (live_run window steps)) =
    filter (\<lambda>p. since < pt_TS p \<and> unix (now - (if window \<le> 0 then Minute else window)) \<le> pt_TS p)
      (live_log i m steps)"
proof -
  let ?c = "live_cutoff now (new_live window :: 'v live)"
  have c: "?c = unix (now - (if window \<le> 0 then Minute else window))"
    by (simp add: live_cutoff_def new_live_def)
  have "\<forall>t \<in> set (map fst steps). live_cutoff t (new_live window :: 'v live) \<le> ?c"
    using assms(2) by (auto simp: live_cutoff_def intro!: unix_mono)
  with assms(1,3) have agree: "cut ?c (points_of i m (live_run window steps)) = cut ?c (live_log i m steps)"
    by (intro run_agrees) (simp_all add: MaxMetricsPerServer_def)
  have "live_ok (live_run window steps)" using run_ok_run [OF assms(1)] by (simp add: run_ok_def)
  from SeriesSince_points [OF this, of now i m since]
  have "fst (SeriesSince now i m since (live_run window steps)) =
      filter (\<lambda>p. since < pt_TS p) (cut ?c (points_of i m (live_run window steps)))"
    by (simp add: cut_def live_cutoff_def live_run_window conj_commute)
  then show ?thesis unfolding agree by (simp add: cut_def c conj_commute)
qed

theorem live_refines_log_witness:
  "fst (SeriesSince (200 * Second) 1 ''cpu'' 150 (live_run Minute
     [(100 * Second, Added 1 100 [(''cpu'', 1 :: int)]), (120 * Second, Forgotten 1),
      (150 * Second, Added 1 150 [(''mem'', 9), (''cpu'', 2)]), (151 * Second, Added 2 151 [(''cpu'', 8)]),
      (160 * Second, Looked 2 ''cpu'' 0), (160 * Second, Added 1 160 [(''cpu'', 3)])])) =
   [\<lparr>pt_TS = 160, pt_Value = 3\<rparr>]"
  by (subst live_refines_log)
    (simp_all add: in_time_def live_log_def unix_def card_insert_if)

end
