(* ===== verification/Migrations.thy ===== *)
theory Migrations
  imports Go_Strings
begin

text \<open>
  Opening a database file and bringing it up to date: \<open>mother/store/store.go\<close> (\<open>Open\<close>),
  \<open>pragmas.go\<close>, the statements of \<open>schema.go\<close> and \<open>migrate.go\<close>. A file left by an older mother
  does not have the shape of the model's tables yet, so here a table is a list of typed columns
  and of rows that give each column a cell, and the statements are functions on it. The engine
  is again a list of faults, one for each statement, and the errors of a statement on the wrong
  shape (a missing table, a duplicate column, a broken key) carry the engine's wording where the
  code reads it. A \<open>REAL\<close> times an \<open>INTEGER\<close> is the parameter \<open>scale\<close>.
\<close>

section \<open>Files\<close>

datatype col_type = TInt | TText | TReal

datatype 'v cell = VInt int | VText string | VReal 'v

fun cell_type :: "'v cell \<Rightarrow> col_type" where
  "cell_type (VInt n) = TInt"
| "cell_type (VText s) = TText"
| "cell_type (VReal v) = TReal"

type_synonym 'v row = "(string \<times> 'v cell) list"

record 'v table =
  tb_Columns :: "(string \<times> col_type) list"
  tb_Key :: "string list"
  tb_Rows :: "'v row list"

record 'v fdb =
  fd_user_version :: int
  fd_tables :: "(string \<times> 'v table) list"
  fd_indexes :: "string list"
  fd_faults :: "string option list"

datatype open_error =
    Driver string
  | SetJournal string
  | NotWal string
  | SetSynchronous string
  | ReadUserVersion string
  | AddColumn string string string
  | MigrationFailed nat string open_error
  | VacuumFailed string

type_synonym ('v, 'a) action = "'v fdb \<Rightarrow> (open_error + 'a) \<times> 'v fdb"

section \<open>Statements\<close>

definition next_fault :: "'v fdb \<Rightarrow> string option \<times> 'v fdb" where
  "next_fault fd = (case fd_faults fd of [] \<Rightarrow> (None, fd) | f # fs \<Rightarrow> (f, fd\<lparr>fd_faults := fs\<rparr>))"

definition run_stmt :: "('v fdb \<Rightarrow> string + 'a \<times> 'v fdb) \<Rightarrow> 'v fdb \<Rightarrow> (string + 'a) \<times> 'v fdb" where
  "run_stmt s fd = (case next_fault fd of
       (Some e, fd1) \<Rightarrow> (Inl e, fd1)
     | (None, fd1) \<Rightarrow> (case s fd1 of Inl e \<Rightarrow> (Inl e, fd1) | Inr (a, fd2) \<Rightarrow> (Inr a, fd2)))"

definition stmt :: "(string \<Rightarrow> open_error) \<Rightarrow> ('v fdb \<Rightarrow> string + 'a \<times> 'v fdb) \<Rightarrow> ('v, 'a) action" where
  "stmt wrap s fd = (case run_stmt s fd of (Inl e, fd1) \<Rightarrow> (Inl (wrap e), fd1) | (Inr a, fd1) \<Rightarrow> (Inr a, fd1))"

definition ok :: "'a \<Rightarrow> ('v, 'a) action" where
  "ok a fd = (Inr a, fd)"

definition failing :: "open_error \<Rightarrow> ('v, 'a) action" where
  "failing e fd = (Inl e, fd)"

definition and_then :: "('v, 'a) action \<Rightarrow> ('a \<Rightarrow> ('v, 'b) action) \<Rightarrow> ('v, 'b) action" where
  "and_then m k fd = (case m fd of (Inl e, fd1) \<Rightarrow> (Inl e, fd1) | (Inr a, fd1) \<Rightarrow> k a fd1)"

fun each :: "('b \<Rightarrow> ('v, unit) action) \<Rightarrow> 'b list \<Rightarrow> ('v, unit) action" where
  "each f [] = ok ()"
| "each f (b # bs) = and_then (f b) (\<lambda>_. each f bs)"

definition set_table :: "string \<Rightarrow> 'v table \<Rightarrow> 'v fdb \<Rightarrow> 'v fdb" where
  "set_table n tb fd = fd\<lparr>fd_tables := AList.update n tb (fd_tables fd)\<rparr>"

definition on_table ::
  "string \<Rightarrow> ('v table \<Rightarrow> string + 'v table) \<Rightarrow> 'v fdb \<Rightarrow> string + unit \<times> 'v fdb" where
  "on_table n f fd =
     (case map_of (fd_tables fd) n of
        None \<Rightarrow> Inl (''no such table: '' @ n)
      | Some tb \<Rightarrow> (case f tb of Inl e \<Rightarrow> Inl e | Inr tb' \<Rightarrow> Inr ((), set_table n tb' fd)))"

definition has_column :: "'v table \<Rightarrow> string \<Rightarrow> bool" where
  "has_column tb c \<longleftrightarrow> c \<in> fst ` set (tb_Columns tb)"

definition create_table :: "string \<Rightarrow> 'v table \<Rightarrow> 'v fdb \<Rightarrow> string + unit \<times> 'v fdb" where
  "create_table n tb fd =
     (if n \<in> fst ` set (fd_tables fd) then Inl (''table '' @ n @ '' already exists'')
      else Inr ((), set_table n tb fd))"

definition create_table_if_absent :: "string \<Rightarrow> 'v table \<Rightarrow> 'v fdb \<Rightarrow> string + unit \<times> 'v fdb" where
  "create_table_if_absent n tb fd =
     (if n \<in> fst ` set (fd_tables fd) then Inr ((), fd) else Inr ((), set_table n tb fd))"

definition create_index_if_absent ::
  "string \<Rightarrow> string \<Rightarrow> string \<Rightarrow> 'v fdb \<Rightarrow> string + unit \<times> 'v fdb" where
  "create_index_if_absent i n c fd =
     (if i \<in> set (fd_indexes fd) then Inr ((), fd)
      else (case map_of (fd_tables fd) n of
          None \<Rightarrow> Inl (''no such table: '' @ n)
        | Some tb \<Rightarrow> if \<not> has_column tb c then Inl (''no such column: '' @ c)
                     else Inr ((), fd\<lparr>fd_indexes := fd_indexes fd @ [i]\<rparr>)))"

definition drop_index_if_exists :: "string \<Rightarrow> 'v fdb \<Rightarrow> string + unit \<times> 'v fdb" where
  "drop_index_if_exists i fd = Inr ((), fd\<lparr>fd_indexes := filter (\<lambda>j. j \<noteq> i) (fd_indexes fd)\<rparr>)"

definition drop_table :: "string \<Rightarrow> 'v fdb \<Rightarrow> string + unit \<times> 'v fdb" where
  "drop_table n fd =
     (if n \<in> fst ` set (fd_tables fd) then Inr ((), fd\<lparr>fd_tables := AList.delete n (fd_tables fd)\<rparr>)
      else Inl (''no such table: '' @ n))"

definition drop_table_if_exists :: "string \<Rightarrow> 'v fdb \<Rightarrow> string + unit \<times> 'v fdb" where
  "drop_table_if_exists n fd = Inr ((), fd\<lparr>fd_tables := AList.delete n (fd_tables fd)\<rparr>)"

definition rename_table :: "string \<Rightarrow> string \<Rightarrow> 'v fdb \<Rightarrow> string + unit \<times> 'v fdb" where
  "rename_table n n' fd =
     (case map_of (fd_tables fd) n of
        None \<Rightarrow> Inl (''no such table: '' @ n)
      | Some tb \<Rightarrow>
          if n' \<in> fst ` set (fd_tables fd) then Inl (''there is already another table or index with this name: '' @ n')
          else Inr ((), set_table n' tb (fd\<lparr>fd_tables := AList.delete n (fd_tables fd)\<rparr>)))"

definition add_column :: "string \<Rightarrow> 'v cell \<Rightarrow> 'v table \<Rightarrow> string + 'v table" where
  "add_column c dflt tb =
     (if has_column tb c then Inl (''duplicate column name: '' @ c)
      else Inr (tb\<lparr>tb_Columns := tb_Columns tb @ [(c, cell_type dflt)],
                   tb_Rows := map (\<lambda>r. r @ [(c, dflt)]) (tb_Rows tb)\<rparr>))"

text \<open>\<open>DELETE FROM n WHERE key = v\<close>\<close>

definition delete_where :: "string \<Rightarrow> 'v cell \<Rightarrow> 'v table \<Rightarrow> string + 'v table" where
  "delete_where c v tb =
     (if \<not> has_column tb c then Inl (''no such column: '' @ c)
      else Inr (tb\<lparr>tb_Rows := filter (\<lambda>r. map_of r c \<noteq> Some v) (tb_Rows tb)\<rparr>))"

text \<open>\<open>UPDATE n SET c = new WHERE c = old\<close>\<close>

definition update_where :: "string \<Rightarrow> 'v cell \<Rightarrow> 'v cell \<Rightarrow> 'v table \<Rightarrow> string + 'v table" where
  "update_where c new old tb =
     (if \<not> has_column tb c then Inl (''no such column: '' @ c)
      else Inr (tb\<lparr>tb_Rows :=
        map (map (\<lambda>(c', v). (c', if c' = c \<and> v = old then new else v))) (tb_Rows tb)\<rparr>))"

section \<open>The schema\<close>

definition empty_table :: "string list \<Rightarrow> (string \<times> col_type) list \<Rightarrow> 'v table" where
  "empty_table key cols = \<lparr>tb_Columns = cols, tb_Key = key, tb_Rows = []\<rparr>"

definition rollup_columns :: "(string \<times> col_type) list" where
  "rollup_columns = [(''server_id'', TInt), (''metric'', TText), (''window_start'', TInt),
     (''min'', TReal), (''max'', TReal), (''sum'', TReal), (''cnt'', TInt)]"

definition rollup_key :: "string list" where
  "rollup_key = [''server_id'', ''metric'', ''window_start'']"

definition groups_table :: "'v table" where
  "groups_table = empty_table [''id''] [(''id'', TInt), (''name'', TText), (''created_at'', TInt)]"

definition members_table :: "'v table" where
  "members_table = empty_table [''group_id'', ''server_id''] [(''group_id'', TInt), (''server_id'', TInt)]"

definition mother_table :: "'v table" where
  "mother_table = empty_table [''id''] [(''id'', TInt), (''desired_version'', TText), (''staged_version'', TText),
     (''attempts'', TInt), (''error'', TText), (''requested_at'', TInt), (''applied_at'', TInt)]"

definition servers_table :: "'v table" where
  "servers_table = empty_table [''id''] [(''id'', TInt), (''name'', TText), (''token'', TText), (''collectors'', TText),
     (''hostname'', TText), (''ip'', TText), (''os'', TText), (''arch'', TText), (''agent_version'', TText),
     (''last_push'', TInt), (''capabilities'', TText), (''desired_version'', TText), (''update_error'', TText),
     (''uninstall_requested_at'', TInt), (''uninstall_error'', TText), (''created_at'', TInt)]"

definition settings_table :: "'v table" where
  "settings_table = empty_table [''key''] [(''key'', TText), (''value'', TText)]"

definition create_group_tables :: "('v fdb \<Rightarrow> string + unit \<times> 'v fdb) list" where
  "create_group_tables =
     [create_table_if_absent ''server_groups'' groups_table,
      create_table_if_absent ''server_group_members'' members_table,
      create_index_if_absent ''idx_group_members_server'' ''server_group_members'' ''server_id'']"

definition schema_stmts :: "('v fdb \<Rightarrow> string + unit \<times> 'v fdb) list" where
  "schema_stmts =
     [create_table_if_absent ''servers'' servers_table,
      create_table_if_absent ''rollup_1m'' (empty_table rollup_key rollup_columns),
      create_table_if_absent ''rollup_1h'' (empty_table rollup_key rollup_columns)] @
     create_group_tables @
     [create_table_if_absent ''mother_update'' mother_table,
      create_table_if_absent ''settings'' settings_table]"

definition createSchema :: "('v, unit) action" where
  "createSchema = each (stmt Driver) schema_stmts"

section \<open>Migrations\<close>

definition addColumn :: "string \<Rightarrow> string \<Rightarrow> 'v cell \<Rightarrow> ('v, unit) action" where
  "addColumn table c dflt fd =
     (case run_stmt (on_table table (add_column c dflt)) fd of
        (Inr u, fd1) \<Rightarrow> (Inr (), fd1)
      | (Inl e, fd1) \<Rightarrow>
          if Contains e ''duplicate column name'' then (Inr (), fd1) else (Inl (AddColumn table c e), fd1))"

definition addColumns :: "string \<Rightarrow> (string \<times> 'v cell) list \<Rightarrow> ('v, unit) action" where
  "addColumns table = each (\<lambda>(c, dflt). addColumn table c dflt)"

definition migrate_server_columns :: "('v, unit) action" where
  "migrate_server_columns = addColumns ''servers''
     [(''capabilities'', VText ''[]''), (''arch'', VText ''''), (''desired_version'', VText ''''),
      (''update_error'', VText '''')]"

text \<open>
  \<open>SELECT value FROM settings WHERE key = 'desired_version'\<close>: no row, or the first one's value.
  Both columns are declared \<open>TEXT\<close>, so the engine keeps nothing but text in them.
\<close>

definition setting_text :: "string \<Rightarrow> 'v table \<Rightarrow> string option" where
  "setting_text k tb =
     (case filter (\<lambda>r. map_of r ''key'' = Some (VText k)) (tb_Rows tb) of
        [] \<Rightarrow> None
      | r # rs \<Rightarrow> (case map_of r ''value'' of Some (VText s) \<Rightarrow> Some s | _ \<Rightarrow> None))"

definition read_setting :: "string \<Rightarrow> 'v fdb \<Rightarrow> string + string option \<times> 'v fdb" where
  "read_setting k fd =
     (case map_of (fd_tables fd) ''settings'' of
        None \<Rightarrow> Inl ''no such table: settings''
      | Some tb \<Rightarrow>
          if has_column tb ''key'' \<and> has_column tb ''value'' then Inr (setting_text k tb, fd)
          else Inl ''no such column'')"


definition migrateDesiredVersionPerServer :: "('v, unit) action" where
  "migrateDesiredVersionPerServer =
     and_then (stmt Driver (read_setting ''desired_version'')) (\<lambda>found.
       (case found of
          None \<Rightarrow> ok ()
        | Some global \<Rightarrow>
            and_then
              (if global \<noteq> '''' then
                 stmt Driver (on_table ''servers''
                   (update_where ''desired_version'' (VText global) (VText '''')))
               else ok ()) (\<lambda>_.
            stmt Driver (on_table ''settings'' (delete_where ''key'' (VText ''desired_version''))))))"

text \<open>
  \<open>columnExists\<close>: one statement for the query, and one step of the driver for each name read.
  A table that does not exist has no columns.
\<close>

fun scan_names :: "string \<Rightarrow> string list \<Rightarrow> ('v, bool) action" where
  "scan_names column [] = stmt Driver (\<lambda>fd. Inr (False, fd))"
| "scan_names column (n # ns) =
     and_then (stmt Driver (\<lambda>fd. Inr ((), fd))) (\<lambda>_. if n = column then ok True else scan_names column ns)"

definition columns_of :: "string \<Rightarrow> 'v fdb \<Rightarrow> string list" where
  "columns_of table fd =
     (case map_of (fd_tables fd) table of None \<Rightarrow> [] | Some tb \<Rightarrow> map fst (tb_Columns tb))"

definition columnExists :: "string \<Rightarrow> string \<Rightarrow> ('v, bool) action" where
  "columnExists table column =
     and_then (stmt Driver (\<lambda>fd. Inr (columns_of table fd, fd))) (scan_names column)"

text \<open>
  One row on its way across: \<open>SELECT server_id, metric, window_start, min, max, avg*cnt, cnt\<close>.
\<close>

definition rebuilt_row :: "('v \<Rightarrow> int \<Rightarrow> 'v) \<Rightarrow> 'v row \<Rightarrow> 'v row" where
  "rebuilt_row scale r =
     map (\<lambda>(c, t).
       (c, if c = ''sum''
           then (case (map_of r ''avg'', map_of r ''cnt'') of
                   (Some (VReal a), Some (VInt n)) \<Rightarrow> VReal (scale a n)
                 | (a, _) \<Rightarrow> the a)
           else the (map_of r c))) rollup_columns"

definition row_key :: "string list \<Rightarrow> 'v row \<Rightarrow> 'v cell option list" where
  "row_key key r = map (map_of r) key"

definition copy_rebuilt ::
  "('v \<Rightarrow> int \<Rightarrow> 'v) \<Rightarrow> string \<Rightarrow> string \<Rightarrow> 'v fdb \<Rightarrow> string + unit \<times> 'v fdb" where
  "copy_rebuilt scale from_table into fd =
     (case map_of (fd_tables fd) from_table of
        None \<Rightarrow> Inl (''no such table: '' @ from_table)
      | Some old \<Rightarrow>
          if \<not> list_all (has_column old) [''server_id'', ''metric'', ''window_start'', ''min'', ''max'', ''avg'', ''cnt'']
          then Inl ''no such column''
          else on_table into (\<lambda>tb.
            let rows = tb_Rows tb @ map (rebuilt_row scale) (tb_Rows old) in
            if distinct (map (row_key (tb_Key tb)) rows) then Inr (tb\<lparr>tb_Rows := rows\<rparr>)
            else Inl ''UNIQUE constraint failed'') fd)"

definition rebuild_tier :: "('v \<Rightarrow> int \<Rightarrow> 'v) \<Rightarrow> string \<Rightarrow> ('v, unit) action" where
  "rebuild_tier scale table =
     and_then (columnExists table ''avg'') (\<lambda>hasAvg.
       if \<not> hasAvg then ok ()
       else let rebuilt = table @ ''_rebuilt'' in
         each (stmt Driver)
           [create_table rebuilt (empty_table rollup_key rollup_columns),
            copy_rebuilt scale table rebuilt,
            drop_table table,
            rename_table rebuilt table])"

definition migrateRollupsToSum :: "('v \<Rightarrow> int \<Rightarrow> 'v) \<Rightarrow> ('v, unit) action" where
  "migrateRollupsToSum scale =
     and_then (each (rebuild_tier scale) [''rollup_1m'', ''rollup_1h'']) (\<lambda>_.
       each (stmt Driver)
         [drop_index_if_exists ''idx_samples'',
          drop_table_if_exists ''samples'',
          on_table ''settings'' (delete_where ''key'' (VText ''retention_raw_hours''))])"

definition migrate_uninstall_columns :: "('v, unit) action" where
  "migrate_uninstall_columns = addColumns ''servers''
     [(''uninstall_requested_at'', VInt 0), (''uninstall_error'', VText '''')]"

definition migrations :: "('v \<Rightarrow> int \<Rightarrow> 'v) \<Rightarrow> (string \<times> ('v, unit) action) list" where
  "migrations scale =
     [(''servers: columns added after the first release'', migrate_server_columns),
      (''settings: retire the fleet-wide desired_version onto each server'', migrateDesiredVersionPerServer),
      (''rollups: store sum instead of avg, WITHOUT ROWID, and drop the raw tier'', migrateRollupsToSum scale),
      (''server groups'', each (stmt Driver) create_group_tables),
      (''servers: two-phase uninstall'', migrate_uninstall_columns),
      (''mother: its own rollout intent'',
        stmt Driver (create_table_if_absent ''mother_update'' mother_table))]"

text \<open>\<open>db.Begin\<close>, the migration, the version bump and \<open>Commit\<close>, with the deferred rollback.\<close>

definition applyMigration :: "nat \<Rightarrow> ('v, unit) action \<Rightarrow> ('v, unit) action" where
  "applyMigration index run fd =
     (case stmt Driver (\<lambda>fd. Inr ((), fd)) fd of
        (Inl e, fd0) \<Rightarrow> (Inl e, fd0)
      | (Inr u, fd0) \<Rightarrow>
          (case and_then run (\<lambda>_.
                 and_then (stmt Driver (\<lambda>fd. Inr ((), fd\<lparr>fd_user_version := int index + 1\<rparr>))) (\<lambda>_.
                 stmt Driver (\<lambda>fd. Inr ((), fd)))) fd0 of
             (Inl e, fd1) \<Rightarrow> (Inl e, fd0\<lparr>fd_faults := fd_faults fd1\<rparr>)
           | (Inr u, fd1) \<Rightarrow> (Inr (), fd1)))"

text \<open>The loop from a version on, with the number of migrations it has committed.\<close>

fun migrate_from ::
  "nat \<Rightarrow> (string \<times> ('v, unit) action) list \<Rightarrow> nat \<Rightarrow> 'v fdb \<Rightarrow> (nat \<times> open_error option) \<times> 'v fdb" where
  "migrate_from i [] applied fd = ((applied, None), fd)"
| "migrate_from i (m # ms) applied fd =
     (case applyMigration i (snd m) fd of
        (Inl e, fd1) \<Rightarrow> ((applied, Some (MigrationFailed (i + 1) (fst m) e)), fd1)
      | (Inr u, fd1) \<Rightarrow> migrate_from (i + 1) ms (applied + 1) fd1)"

text \<open>
  \<open>migrate\<close>: \<open>None\<close> is the panic of an index below zero, for a file whose \<open>user_version\<close> is negative.
\<close>

definition migrate ::
  "('v \<Rightarrow> int \<Rightarrow> 'v) \<Rightarrow> 'v fdb \<Rightarrow> ((nat \<times> open_error option) \<times> 'v fdb) option" where
  "migrate scale fd =
     (case stmt ReadUserVersion (\<lambda>fd. Inr (fd_user_version fd, fd)) fd of
        (Inl e, fd1) \<Rightarrow> Some ((0, Some e), fd1)
      | (Inr version, fd1) \<Rightarrow>
          if version < 0 then None
          else Some (migrate_from (nat version) (drop (nat version) (migrations scale)) 0 fd1))"

definition applyPragmas :: "string \<Rightarrow> ('v, unit) action" where
  "applyPragmas mode =
     and_then (stmt SetJournal (\<lambda>fd. Inr (mode, fd))) (\<lambda>mode.
       if mode \<noteq> ''wal'' \<and> mode \<noteq> ''memory'' then failing (NotWal mode)
       else stmt SetSynchronous (\<lambda>fd. Inr ((), fd)))"

text \<open>
  \<open>Open\<close> on the file as it is found; \<open>mode\<close> is what the engine answers to the request for
  write-ahead logging. \<open>VACUUM\<close> rewrites the file and changes no table.
\<close>

definition Open ::
  "('v \<Rightarrow> int \<Rightarrow> 'v) \<Rightarrow> string \<Rightarrow> 'v fdb \<Rightarrow> ((open_error + nat) \<times> 'v fdb) option" where
  "Open scale mode fd =
     (case and_then (stmt Driver (\<lambda>fd. Inr ((), fd))) (\<lambda>_.
             and_then (applyPragmas mode) (\<lambda>_. createSchema)) fd of
        (Inl e, fd1) \<Rightarrow> Some (Inl e, fd1)
      | (Inr u, fd1) \<Rightarrow>
          (case migrate scale fd1 of
             None \<Rightarrow> None
           | Some ((applied, Some e), fd2) \<Rightarrow> Some (Inl e, fd2)
           | Some ((applied, None), fd2) \<Rightarrow>
               if applied > 0 then
                 (case stmt VacuumFailed (\<lambda>fd. Inr ((), fd)) fd2 of
                    (Inl e, fd3) \<Rightarrow> Some (Inl e, fd3)
                  | (Inr u, fd3) \<Rightarrow> Some (Inr applied, fd3))
               else Some (Inr applied, fd2)))"

section \<open>Laws of the steps\<close>

definition clean :: "'v fdb \<Rightarrow> 'v fdb" where
  "clean fd = fd\<lparr>fd_faults := []\<rparr>"

text \<open>The one message the code reads must not come from anything but the duplicate it names.\<close>

definition sane :: "'v fdb \<Rightarrow> bool" where
  "sane fd \<longleftrightarrow> (\<forall>e. Some e \<in> set (fd_faults fd) \<longrightarrow> \<not> Contains e ''duplicate column name'')"

lemma clean_simps [simp]:
  "clean (clean fd) = clean fd" "fd_tables (clean fd) = fd_tables fd" "fd_indexes (clean fd) = fd_indexes fd"
  "fd_user_version (clean fd) = fd_user_version fd" "fd_faults (clean fd) = []"
  "clean (fd\<lparr>fd_faults := fs\<rparr>) = clean fd" "clean (set_table n tb fd) = set_table n tb (clean fd)"
  "clean (fd\<lparr>fd_user_version := v\<rparr>) = (clean fd)\<lparr>fd_user_version := v\<rparr>"
  "clean (fd\<lparr>fd_tables := ts\<rparr>) = (clean fd)\<lparr>fd_tables := ts\<rparr>"
  "clean (fd\<lparr>fd_indexes := is\<rparr>) = (clean fd)\<lparr>fd_indexes := is\<rparr>"
  by (simp_all add: clean_def set_table_def)

lemma fd_set_table [simp]:
  "fd_tables (set_table n tb fd) = AList.update n tb (fd_tables fd)"
  "fd_user_version (set_table n tb fd) = fd_user_version fd"
  "fd_indexes (set_table n tb fd) = fd_indexes fd" "fd_faults (set_table n tb fd) = fd_faults fd"
  by (simp_all add: set_table_def)

text \<open>A statement does not depend on the faults to come, and leaves them alone.\<close>

definition on_result :: "('v fdb \<Rightarrow> 'v fdb) \<Rightarrow> string + 'a \<times> 'v fdb \<Rightarrow> string + 'a \<times> 'v fdb" where
  "on_result f r = (case r of Inl e \<Rightarrow> Inl e | Inr (a, fd) \<Rightarrow> Inr (a, f fd))"

definition pure_stmt :: "('v fdb \<Rightarrow> string + 'a \<times> 'v fdb) \<Rightarrow> bool" where
  "pure_stmt s \<longleftrightarrow> (\<forall>fd fs. s (fd\<lparr>fd_faults := fs\<rparr>) = on_result (\<lambda>fd'. fd'\<lparr>fd_faults := fs\<rparr>) (s fd))"

named_theorems pure

lemma pure_stmts [pure]:
  "pure_stmt (\<lambda>fd. Inr (a, fd))"
  "pure_stmt (create_table n tb)" "pure_stmt (create_table_if_absent n tb)"
  "pure_stmt (create_index_if_absent i n c)" "pure_stmt (drop_index_if_exists i)"
  "pure_stmt (drop_table n)" "pure_stmt (drop_table_if_exists n)" "pure_stmt (rename_table n n')"
  "pure_stmt (on_table n f)" "pure_stmt (\<lambda>fd. Inr ((), fd\<lparr>fd_user_version := v\<rparr>))"
  "pure_stmt (read_setting k)" "pure_stmt (\<lambda>fd. Inr (columns_of n fd, fd))" "pure_stmt (copy_rebuilt scale n into)"
  "pure_stmt (\<lambda>fd. Inr (fd_user_version fd, fd))"
  by (auto simp: pure_stmt_def on_result_def create_table_def create_table_if_absent_def create_index_if_absent_def
      drop_index_if_exists_def drop_table_def drop_table_if_exists_def rename_table_def on_table_def set_table_def
      read_setting_def columns_of_def copy_rebuilt_def Let_def split: option.splits sum.splits)

text \<open>
  What a step that succeeds did is what it does when nothing fails; it only consumes faults.
\<close>

definition faithful :: "('v, 'a) action \<Rightarrow> bool" where
  "faithful m \<longleftrightarrow> (\<forall>fd r fd'. sane fd \<longrightarrow> m fd = (r, fd') \<longrightarrow>
     sane fd' \<and> (\<forall>a. r = Inr a \<longrightarrow> m (clean fd) = (Inr a, clean fd')))"

named_theorems faithful_rules

lemma faithfulD: "faithful m \<Longrightarrow> m fd = (Inr a, fd') \<Longrightarrow> sane fd \<Longrightarrow> m (clean fd) = (Inr a, clean fd')"
  by (auto simp: faithful_def)

lemma faithful_sane: "faithful m \<Longrightarrow> m fd = (r, fd') \<Longrightarrow> sane fd \<Longrightarrow> sane fd'"
  by (auto simp: faithful_def)

lemma next_fault_cases:
  obtains (none) fd1 where "next_fault fd = (None, fd1)" "clean fd1 = clean fd" "sane fd \<Longrightarrow> sane fd1"
    "\<exists>fs. fd1 = fd\<lparr>fd_faults := fs\<rparr>"
  | (some) e fd1 where "next_fault fd = (Some e, fd1)" "clean fd1 = clean fd" "sane fd \<Longrightarrow> sane fd1"
    "sane fd \<Longrightarrow> \<not> Contains e ''duplicate column name''"
proof (cases "fd_faults fd")
  case Nil
  show ?thesis by (rule none [of fd]) (auto simp: next_fault_def Nil intro: exI [of _ "[]"])
next
  case (Cons f fs)
  show ?thesis
  proof (cases f)
    case None
    show ?thesis by (rule none [of "fd\<lparr>fd_faults := fs\<rparr>"]) (auto simp: next_fault_def Cons None sane_def)
  next
    case (Some e)
    show ?thesis
      by (rule some [of e "fd\<lparr>fd_faults := fs\<rparr>"]) (auto simp: next_fault_def Cons Some sane_def)
  qed
qed

lemma next_fault_clean [simp]: "next_fault (clean fd) = (None, clean fd)"
  by (simp add: next_fault_def)

lemma run_stmt_clean:
  "run_stmt s (clean fd) = (case s (clean fd) of Inl e \<Rightarrow> (Inl e, clean fd) | Inr (a, fd2) \<Rightarrow> (Inr a, fd2))"
  by (simp add: run_stmt_def)

lemma pure_clean: "pure_stmt s \<Longrightarrow> s (clean fd) = on_result clean (s fd)"
  by (simp add: pure_stmt_def clean_def) (simp add: on_result_def clean_def split: sum.splits)

lemma run_stmt_faithful:
  assumes "pure_stmt s" "sane fd" "run_stmt s fd = (r, fd')"
  shows "sane fd'" and "r = Inr a \<Longrightarrow> run_stmt s (clean fd) = (Inr a, clean fd')"
    and "r = Inl e \<Longrightarrow> Contains e ''duplicate column name'' \<Longrightarrow> run_stmt s (clean fd) = (Inl e, clean fd')"
    and "r = Inl e \<Longrightarrow> clean fd' = clean fd"
proof -
  have "sane fd' \<and> (r = Inr a \<longrightarrow> run_stmt s (clean fd) = (Inr a, clean fd')) \<and>
      (r = Inl e \<longrightarrow> Contains e ''duplicate column name'' \<longrightarrow> run_stmt s (clean fd) = (Inl e, clean fd')) \<and>
      (r = Inl e \<longrightarrow> clean fd' = clean fd)"
  proof (cases rule: next_fault_cases [of fd])
    case (none fd1)
    then obtain fs where fs: "fd1 = fd\<lparr>fd_faults := fs\<rparr>" by blast
    have "s fd1 = on_result (\<lambda>fd'. fd'\<lparr>fd_faults := fs\<rparr>) (s fd1)"
      using assms(1) fs by (simp add: pure_stmt_def) (simp add: on_result_def split: sum.splits)
    then have "s fd1 = Inr (x, fd2) \<Longrightarrow> fd_faults fd2 = fs" for x fd2
      by (auto simp: on_result_def split: sum.splits prod.splits)
        (metis fdb.select_convs(4) fdb.surjective fdb.update_convs(4))
    moreover have "s (clean fd) = on_result clean (s fd1)"
      using pure_clean [OF assms(1), of fd1] none(2) by simp
    ultimately show ?thesis
      using none fs assms(2,3) run_stmt_clean [of s fd]
      by (auto simp: run_stmt_def on_result_def sane_def split: sum.splits prod.splits)
  next
    case (some e fd1)
    with assms(2,3) show ?thesis by (auto simp: run_stmt_def)
  qed
  then show "sane fd'" and "r = Inr a \<Longrightarrow> run_stmt s (clean fd) = (Inr a, clean fd')"
    and "r = Inl e \<Longrightarrow> Contains e ''duplicate column name'' \<Longrightarrow> run_stmt s (clean fd) = (Inl e, clean fd')"
    and "r = Inl e \<Longrightarrow> clean fd' = clean fd" by auto
qed

lemma faithful_stmt [faithful_rules]: "pure_stmt s \<Longrightarrow> faithful (stmt wrap s)"
  unfolding faithful_def
proof (intro allI impI)
  fix fd r fd' assume p: "pure_stmt s" and s: "sane fd" and run: "stmt wrap s fd = (r, fd')"
  obtain r1 fd1 where m: "run_stmt s fd = (r1, fd1)" by fastforce
  show "sane fd' \<and> (\<forall>a. r = Inr a \<longrightarrow> stmt wrap s (clean fd) = (Inr a, clean fd'))"
    using run m run_stmt_faithful(1,2) [OF p s m] by (cases r1) (auto simp: stmt_def)
qed

lemma faithful_ok [faithful_rules]: "faithful (ok a)" and faithful_failing [faithful_rules]: "faithful (failing e)"
  by (simp_all add: faithful_def ok_def failing_def)

lemma faithful_and_then [faithful_rules]:
  assumes "faithful m" "\<And>a. faithful (k a)"
  shows "faithful (and_then m k)"
  unfolding faithful_def
proof (intro allI impI)
  fix fd r fd' assume s: "sane fd" and run: "and_then m k fd = (r, fd')"
  obtain r1 fd1 where m: "m fd = (r1, fd1)" by fastforce
  note s1 = faithful_sane [OF assms(1) m s]
  show "sane fd' \<and> (\<forall>a. r = Inr a \<longrightarrow> and_then m k (clean fd) = (Inr a, clean fd'))"
  proof (cases r1)
    case (Inl e)
    with run m s1 show ?thesis by (auto simp: and_then_def)
  next
    case (Inr a)
    with run m have k: "k a fd1 = (r, fd')" by (simp add: and_then_def)
    have "m (clean fd) = (Inr a, clean fd1)" using faithfulD [OF assms(1) _ s] m Inr by blast
    with faithfulD [OF assms(2) _ s1] faithful_sane [OF assms(2) k s1] k show ?thesis
      by (auto simp: and_then_def)
  qed
qed

lemma faithful_each [faithful_rules]: "(\<And>b. b \<in> set bs \<Longrightarrow> faithful (f b)) \<Longrightarrow> faithful (each f bs)"
  by (induction bs) (auto intro!: faithful_rules)

lemma faithful_addColumn [faithful_rules]: "faithful (addColumn table c dflt)"
  unfolding faithful_def addColumn_def using run_stmt_faithful [OF pure_stmts(9)]
  by (fastforce split: prod.splits sum.splits if_splits)

lemma faithful_scan [faithful_rules]: "faithful (scan_names c ns)"
  by (induction ns) (auto intro!: faithful_rules pure)

lemma faithful_columnExists [faithful_rules]: "faithful (columnExists table c)"
  unfolding columnExists_def by (intro faithful_rules pure)

lemma faithful_rebuild [faithful_rules]: "faithful (rebuild_tier scale table)"
  unfolding rebuild_tier_def Let_def
  by (auto intro!: faithful_rules pure)

lemma faithful_migrations: "m \<in> set (migrations scale) \<Longrightarrow> faithful (snd m)"
  unfolding migrations_def migrate_server_columns_def addColumns_def migrateDesiredVersionPerServer_def
    migrateRollupsToSum_def create_group_tables_def migrate_uninstall_columns_def
  by (auto intro!: faithful_rules pure split: option.splits)

lemma faithful_createSchema: "faithful createSchema"
  unfolding createSchema_def schema_stmts_def create_group_tables_def
  by (auto intro!: faithful_rules pure)

text \<open>A migration is committed whole or not at all.\<close>

lemma applyMigration_cases:
  assumes "faithful run" "sane fd" "applyMigration i run fd = (r, fd')"
  shows "sane fd' \<and> (\<forall>e. r = Inl e \<longrightarrow> clean fd' = clean fd) \<and>
    (\<forall>u. r = Inr u \<longrightarrow> applyMigration i run (clean fd) = (Inr (), clean fd'))"
proof -
  let ?tx = "stmt Driver (\<lambda>fd. Inr ((), fd)) :: ('a, unit) action"
  let ?body = "and_then run (\<lambda>_. and_then (stmt Driver (\<lambda>fd. Inr ((), fd\<lparr>fd_user_version := int i + 1\<rparr>))) (\<lambda>_. ?tx))"
  have opens: "faithful ?tx" and body: "faithful ?body"
    by (auto intro!: faithful_rules pure assms(1))
  obtain r0 fd0 where b: "?tx fd = (r0, fd0)" by fastforce
  have s0: "sane fd0" by (rule faithful_sane [OF opens b assms(2)])
  have c0: "clean fd0 = clean fd"
    by (cases rule: next_fault_cases [of fd]) (use b in \<open>auto simp: stmt_def run_stmt_def\<close>)
  obtain r1 fd1 where m: "?body fd0 = (r1, fd1)" by fastforce
  have s1: "sane fd1" by (rule faithful_sane [OF body m s0])
  have "?tx (clean fd) = (Inr (), clean fd)" by (simp add: stmt_def run_stmt_clean)
  moreover have "?body (clean fd) = (Inr (), clean fd1)" if "r1 = Inr u" for u
    using faithfulD [OF body _ s0] m that c0 by force
  ultimately show ?thesis
    using assms(3) b m s0 s1 c0 by (auto simp: applyMigration_def sane_def split: sum.splits)
qed

text \<open>A run of the loop is a run of a prefix of the migrations, none of them half done.\<close>

lemma migrate_from_prefix:
  "\<forall>m \<in> set ms. faithful (snd m) \<Longrightarrow> sane fd \<Longrightarrow> migrate_from i ms n fd = ((a, err), fd') \<Longrightarrow>
   \<exists>k \<le> length ms. a = n + k \<and> (err = None \<longleftrightarrow> k = length ms) \<and> sane fd' \<and>
     migrate_from i (take k ms) n (clean fd) = ((n + k, None), clean fd')"
proof (induction ms arbitrary: i n fd)
  case (Cons m ms)
  obtain r fd1 where m: "applyMigration i (snd m) fd = (r, fd1)" by fastforce
  note one = applyMigration_cases [OF _ Cons.prems(2) m]
  show ?case
  proof (cases r)
    case (Inl e)
    with m one Cons.prems show ?thesis by (intro exI [of _ 0]) auto
  next
    case (Inr u)
    with m Cons.prems(3) have "migrate_from (i + 1) ms (n + 1) fd1 = ((a, err), fd')" by simp
    with Cons.IH [of fd1 "i + 1" "n + 1"] Cons.prems(1) one obtain k where
      "k \<le> length ms" "a = n + 1 + k" "err = None \<longleftrightarrow> k = length ms" "sane fd'"
      "migrate_from (i + 1) (take k ms) (n + 1) (clean fd1) = ((n + 1 + k, None), clean fd')" by auto
    with one Inr Cons.prems(1) show ?thesis by (intro exI [of _ "Suc k"]) auto
  qed
qed auto

lemma migrate_from_split:
  "migrate_from i (take k ms) n fd = ((n + k, None), fd1) \<Longrightarrow> k \<le> length ms \<Longrightarrow>
   migrate_from i ms n fd = migrate_from (i + k) (drop k ms) (n + k) fd1"
proof (induction ms arbitrary: i k n fd)
  case (Cons m ms)
  then show ?case
    by (cases k) (fastforce split: prod.splits sum.splits)+
qed auto

text \<open>The number of migrations already committed only counts; it does not steer.\<close>

lemma migrate_from_count:
  "migrate_from i ms (n + c) fd =
     ((fst (fst (migrate_from i ms n fd)) + c, snd (fst (migrate_from i ms n fd))), snd (migrate_from i ms n fd))"
proof (induction ms arbitrary: i n fd)
  case (Cons m ms)
  have "migrate_from (i + 1) ms (Suc n + c) fd1 =
     ((fst (fst (migrate_from (i + 1) ms (Suc n) fd1)) + c, snd (fst (migrate_from (i + 1) ms (Suc n) fd1))),
      snd (migrate_from (i + 1) ms (Suc n) fd1))" for fd1
    by (rule Cons.IH)
  then show ?case by (auto split: prod.splits sum.splits)
qed simp

lemma applyMigration_version:
  assumes "applyMigration i run fd = (Inr u, fd')"
  shows "fd_user_version fd' = int i + 1"
proof -
  let ?commit = "stmt Driver (\<lambda>fd. Inr ((), fd)) :: ('a, unit) action"
  have commit: "fd_user_version fd2 = fd_user_version fd1" if "?commit fd1 = (Inr u, fd2)" for fd1 fd2 u
    using that by (cases rule: next_fault_cases [of fd1]) (auto simp: stmt_def run_stmt_def)
  have bump: "fd_user_version fd2 = int i + 1"
    if "stmt Driver (\<lambda>fd. Inr ((), fd\<lparr>fd_user_version := int i + 1\<rparr>)) fd1 = (Inr u, fd2)" for fd1 fd2 :: "'a fdb" and u
    using that by (cases rule: next_fault_cases [of fd1]) (auto simp: stmt_def run_stmt_def)
  show ?thesis
    using assms by (auto simp: applyMigration_def and_then_def split: prod.splits sum.splits dest!: commit bump)
qed

lemma migrate_from_version:
  "migrate_from i ms n fd = ((n + k, None), fd') \<Longrightarrow> length ms = k \<Longrightarrow>
   fd_user_version fd' = (if k = 0 then fd_user_version fd else int (i + k))"
proof (induction ms arbitrary: i k n fd)
  case (Cons m ms)
  obtain r fd1 where m: "applyMigration i (snd m) fd = (r, fd1)" by fastforce
  with Cons.prems obtain u where r: "r = Inr u" by (cases r) auto
  with m Cons.prems have rest: "migrate_from (i + 1) ms (n + 1) fd1 = ((n + 1 + length ms, None), fd')" by auto
  from Cons.IH [OF rest refl] applyMigration_version [of i "snd m" fd u fd1] m r Cons.prems(2)
  show ?case by auto
qed simp

section \<open>The schema is kept\<close>

definition names :: "'v fdb \<Rightarrow> string set" where
  "names fd = fst ` set (fd_tables fd)"

definition schema_names :: "string list" where
  "schema_names = [''servers'', ''rollup_1m'', ''rollup_1h'', ''server_groups'', ''server_group_members'',
     ''mother_update'', ''settings'']"

definition has_schema :: "'v fdb \<Rightarrow> bool" where
  "has_schema fd \<longleftrightarrow> set schema_names \<subseteq> names fd \<and> ''idx_group_members_server'' \<in> set (fd_indexes fd)"

text \<open>What holds after a step that succeeds when nothing fails.\<close>

definition triple :: "('v fdb \<Rightarrow> bool) \<Rightarrow> ('v, 'a) action \<Rightarrow> ('a \<Rightarrow> 'v fdb \<Rightarrow> bool) \<Rightarrow> bool" where
  "triple P m Q \<longleftrightarrow> (\<forall>fd a fd'. fd_faults fd = [] \<longrightarrow> P fd \<longrightarrow> m fd = (Inr a, fd') \<longrightarrow> fd_faults fd' = [] \<and> Q a fd')"

named_theorems triples

lemma tripleD: "triple P m Q \<Longrightarrow> m fd = (Inr a, fd') \<Longrightarrow> fd_faults fd = [] \<Longrightarrow> P fd \<Longrightarrow> fd_faults fd' = [] \<and> Q a fd'"
  unfolding triple_def by blast

lemma triple_and_then:
  "triple P m R \<Longrightarrow> (\<And>a. triple (R a) (k a) Q) \<Longrightarrow> triple P (and_then m k) Q"
  unfolding triple_def
proof (intro allI impI)
  fix fd b fd'
  assume m: "\<forall>fd a fd'. fd_faults fd = [] \<longrightarrow> P fd \<longrightarrow> m fd = (Inr a, fd') \<longrightarrow> fd_faults fd' = [] \<and> R a fd'"
    and k: "\<And>a. \<forall>fd b fd'. fd_faults fd = [] \<longrightarrow> R a fd \<longrightarrow> k a fd = (Inr b, fd') \<longrightarrow> fd_faults fd' = [] \<and> Q b fd'"
    and f: "fd_faults fd = []" "P fd" and run: "and_then m k fd = (Inr b, fd')"
  obtain r fd1 where r: "m fd = (r, fd1)" by fastforce
  with run obtain a where a: "m fd = (Inr a, fd1)" "k a fd1 = (Inr b, fd')"
    by (cases r) (auto simp: and_then_def)
  from m [rule_format, OF f a(1)] k [rule_format, of fd1 a b fd'] a(2)
  show "fd_faults fd' = [] \<and> Q b fd'" by blast
qed

lemma triple_ok [triples]: "triple P (ok a) (\<lambda>_. P)"
  unfolding triple_def ok_def by blast

lemma triple_each [triples]: "(\<And>b. b \<in> set bs \<Longrightarrow> triple P (f b) (\<lambda>_. P)) \<Longrightarrow> triple P (each f bs) (\<lambda>_. P)"
proof (induction bs)
  case (Cons b bs)
  have "triple P (and_then (f b) (\<lambda>_. each f bs)) (\<lambda>_. P)"
    by (rule triple_and_then [of P "f b" "\<lambda>_. P"]) (use Cons in auto)
  then show ?case by simp
qed (simp add: triple_ok)

lemma next_fault_none [simp]: "fd_faults fd = [] \<Longrightarrow> next_fault fd = (None, fd)"
  by (simp add: next_fault_def)

lemma stmt_none:
  "fd_faults fd = [] \<Longrightarrow> stmt wrap s fd = (case s fd of Inl e \<Rightarrow> (Inl (wrap e), fd) | Inr (a, fd') \<Rightarrow> (Inr a, fd'))"
  by (auto simp: stmt_def run_stmt_def split: sum.splits prod.splits)

lemma triple_stmt:
  assumes "pure_stmt s" "\<And>fd a fd'. P fd \<Longrightarrow> s fd = Inr (a, fd') \<Longrightarrow> Q a fd'"
  shows "triple P (stmt wrap s) Q"
  unfolding triple_def
proof (intro allI impI)
  fix fd a fd' assume f: "fd_faults fd = []" and p: "P fd" and run: "stmt wrap s fd = (Inr a, fd')"
  have "s fd = Inr (a, fd')" using run f by (auto simp: stmt_none split: sum.splits prod.splits)
  moreover have "fd = clean fd" using f by (simp add: clean_def)
  ultimately show "fd_faults fd' = [] \<and> Q a fd'"
    using assms(2) [OF p] pure_clean [OF assms(1), of fd]
    by (auto simp: on_result_def) (metis clean_simps(5))
qed

lemma stmt_Inr: "fd_faults fd = [] \<Longrightarrow> s fd = Inr (a, fd') \<Longrightarrow> stmt wrap s fd = (Inr a, fd')"
  by (simp add: stmt_none)

lemma stmt_Inl: "fd_faults fd = [] \<Longrightarrow> s fd = Inl e \<Longrightarrow> stmt wrap s fd = (Inl (wrap e), fd)"
  by (simp add: stmt_none)

subsection \<open>Rebuilding a tier\<close>

definition rebuilt_table :: "('v \<Rightarrow> int \<Rightarrow> 'v) \<Rightarrow> 'v table \<Rightarrow> 'v table" where
  "rebuilt_table scale old =
     \<lparr>tb_Columns = rollup_columns, tb_Key = rollup_key, tb_Rows = map (rebuilt_row scale) (tb_Rows old)\<rparr>"

definition old_columns :: "string list" where
  "old_columns = [''server_id'', ''metric'', ''window_start'', ''min'', ''max'', ''avg'', ''cnt'']"

definition rebuilds :: "'v table \<Rightarrow> bool" where
  "rebuilds old \<longleftrightarrow> list_all (has_column old) old_columns \<and>
     distinct (map (row_key rollup_key) (tb_Rows old))"

definition swap_table :: "string \<Rightarrow> 'v table \<Rightarrow> 'v fdb \<Rightarrow> 'v fdb" where
  "swap_table t new fd =
     (let r = t @ ''_rebuilt'' in
      fd\<lparr>fd_tables := AList.update t new (AList.delete r (AList.delete t (AList.update r new (fd_tables fd))))\<rparr>)"

lemma rebuilt_key: "row_key rollup_key (rebuilt_row scale r) = row_key rollup_key r \<or>
    (\<exists>c \<in> set rollup_key. map_of r c = None)"
  by (auto simp: row_key_def rollup_key_def rebuilt_row_def rollup_columns_def)

lemma scan_names_none: "fd_faults fd = [] \<Longrightarrow> scan_names c ns fd = (Inr (c \<in> set ns), fd)"
  by (induction ns) (auto simp: stmt_none and_then_def ok_def)

lemma columnExists_none: "fd_faults fd = [] \<Longrightarrow> columnExists t c fd = (Inr (c \<in> set (columns_of t fd)), fd)"
  by (simp add: columnExists_def and_then_def stmt_none scan_names_none)

lemma rebuild_none:
  assumes "fd_faults fd = []"
  shows "rebuild_tier scale t fd =
    (case map_of (fd_tables fd) t of
       None \<Rightarrow> (Inr (), fd)
     | Some old \<Rightarrow>
         if \<not> has_column old ''avg'' then (Inr (), fd)
         else if t @ ''_rebuilt'' \<in> names fd then
           (Inl (Driver (''table '' @ (t @ ''_rebuilt'') @ '' already exists'')), fd)
         else if \<not> list_all (has_column old) old_columns then
           (Inl (Driver ''no such column''), set_table (t @ ''_rebuilt'') (empty_table rollup_key rollup_columns) fd)
         else if \<not> distinct (map (row_key rollup_key) (map (rebuilt_row scale) (tb_Rows old))) then
           (Inl (Driver ''UNIQUE constraint failed''), set_table (t @ ''_rebuilt'') (empty_table rollup_key rollup_columns) fd)
         else (Inr (), swap_table t (rebuilt_table scale old) fd))"
proof (cases "map_of (fd_tables fd) t")
  case None
  with assms show ?thesis by (simp add: rebuild_tier_def and_then_def columnExists_none columns_of_def ok_def)
next
  case (Some old)
  let ?r = "t @ ''_rebuilt''"
  have t: "t \<in> names fd" "?r \<noteq> t"
    using map_of_SomeD [OF Some] by (auto simp: names_def intro: rev_image_eqI)
  show ?thesis
  proof (cases "has_column old ''avg'' \<and> ?r \<notin> names fd \<and> list_all (has_column old) old_columns")
    case False
    have col: "columnExists t ''avg'' fd = (Inr (has_column old ''avg''), fd)"
      using Some assms by (simp add: columnExists_none columns_of_def has_column_def)
    have create: "create_table ?r (empty_table rollup_key rollup_columns) fd =
        (if ?r \<in> names fd then Inl (''table '' @ ?r @ '' already exists'')
         else Inr ((), set_table ?r (empty_table rollup_key rollup_columns) fd))"
      by (simp only: create_table_def names_def)
    have copy: "copy_rebuilt scale t ?r (set_table ?r tb fd) = Inl ''no such column''"
      if "\<not> list_all (has_column old) old_columns" for tb
      using Some t that unfolding copy_rebuilt_def old_columns_def [symmetric] by (simp add: map_of_update)
    consider "\<not> has_column old ''avg''" | "has_column old ''avg''" "?r \<in> names fd"
      | "has_column old ''avg''" "?r \<notin> names fd" "\<not> list_all (has_column old) old_columns"
      using False by blast
    then show ?thesis
      using Some assms by cases (simp_all add: rebuild_tier_def and_then_def col create copy stmt_none ok_def Let_def)
  next
    case True
    let ?fd1 = "set_table ?r (empty_table rollup_key rollup_columns) fd"
    let ?new = "rebuilt_table scale old"
    have col: "columnExists t ''avg'' fd = (Inr True, fd)"
      using True Some assms by (simp add: columnExists_none columns_of_def has_column_def)
    have create: "create_table ?r (empty_table rollup_key rollup_columns) fd = Inr ((), ?fd1)"
      using True by (simp add: create_table_def names_def)
    have copy: "copy_rebuilt scale t ?r ?fd1 =
      (if distinct (map (row_key rollup_key) (map (rebuilt_row scale) (tb_Rows old))) then Inr ((), set_table ?r ?new ?fd1)
       else Inl ''UNIQUE constraint failed'')"
      using True Some t
      by (simp add: copy_rebuilt_def old_columns_def on_table_def map_of_update empty_table_def rebuilt_table_def Let_def)
    let ?fd2 = "set_table ?r ?new ?fd1"
    let ?fd3 = "?fd2\<lparr>fd_tables := AList.delete t (fd_tables ?fd2)\<rparr>"
    have drop: "drop_table t ?fd2 = Inr ((), ?fd3)"
      using t by (auto simp: drop_table_def names_def fst_set_update)
    have rename: "rename_table ?r t ?fd3 = Inr ((), swap_table t ?new fd)"
      using t by (simp add: rename_table_def delete_conv' map_of_update fst_set_delete swap_table_def set_table_def Let_def)
    have "rebuild_tier scale t fd = each (stmt Driver)
        [create_table ?r (empty_table rollup_key rollup_columns), copy_rebuilt scale t ?r, drop_table t, rename_table ?r t] fd"
      by (simp add: rebuild_tier_def and_then_def col Let_def)
    moreover have "stmt Driver (create_table ?r (empty_table rollup_key rollup_columns)) fd = (Inr (), ?fd1)"
      by (simp add: stmt_none assms create)
    moreover have "stmt Driver (copy_rebuilt scale t ?r) ?fd1 =
        (if distinct (map (row_key rollup_key) (map (rebuilt_row scale) (tb_Rows old))) then (Inr (), ?fd2)
         else (Inl (Driver ''UNIQUE constraint failed''), ?fd1))"
      unfolding stmt_none [of ?fd1, simplified, OF assms] copy by simp
    moreover have "stmt Driver (drop_table t) ?fd2 = (Inr (), ?fd3)"
      unfolding stmt_none [of ?fd2, simplified, OF assms] drop by simp
    moreover have "stmt Driver (rename_table ?r t) ?fd3 = (Inr (), swap_table t ?new fd)"
      by (rule stmt_Inr [where s = "rename_table ?r t"]) (use assms rename in simp_all)
    ultimately show ?thesis
      using True Some by (simp add: and_then_def ok_def)
  qed
qed

subsection \<open>What every migration keeps\<close>

text \<open>
  The type of a file: every row gives every column of its table a cell of the declared type, and
  the columns the rebuild of a tier reads have the types it expects.
\<close>

definition typed_row :: "(string \<times> col_type) list \<Rightarrow> 'v row \<Rightarrow> bool" where
  "typed_row cols r \<longleftrightarrow> map (\<lambda>(c, v). (c, cell_type v)) r = cols"

definition typed_table :: "'v table \<Rightarrow> bool" where
  "typed_table tb \<longleftrightarrow> distinct (map fst (tb_Columns tb)) \<and> list_all (typed_row (tb_Columns tb)) (tb_Rows tb)"

definition tier_shape :: "'v table \<Rightarrow> bool" where
  "tier_shape tb \<longleftrightarrow> (\<forall>(c, t) \<in> set (tb_Columns tb). \<forall>t'. map_of ((''avg'', TReal) # rollup_columns) c = Some t' \<longrightarrow> t = t')"

definition well_typed :: "'v fdb \<Rightarrow> bool" where
  "well_typed fd \<longleftrightarrow> (\<forall>n tb. map_of (fd_tables fd) n = Some tb \<longrightarrow>
     typed_table tb \<and> (n \<in> {''rollup_1m'', ''rollup_1h''} \<longrightarrow> tier_shape tb))"

lemma typed_row_map_of: "typed_row cols r \<Longrightarrow> map_option cell_type (map_of r c) = map_of cols c"
proof (induction r arbitrary: cols)
  case (Cons p r)
  obtain c' v where p: "p = (c', v)" by fastforce
  with Cons.prems obtain cols' where "cols = (c', cell_type v) # cols'" "typed_row cols' r"
    by (auto simp: typed_row_def)
  with Cons.IH p show ?case by auto
qed (simp add: typed_row_def)

lemma typed_cell:
  assumes "typed_row (tb_Columns tb) r" "tier_shape tb" "has_column tb c"
    "map_of ((''avg'', TReal) # rollup_columns) c = Some t"
  shows "\<exists>v. map_of r c = Some v \<and> cell_type v = t"
proof -
  from assms(3) obtain t' where "map_of (tb_Columns tb) c = Some t'"
    by (metis has_column_def map_of_eq_None_iff not_None_eq)
  moreover from this have "t' = t" using assms(2,4) map_of_SomeD by (fastforce simp: tier_shape_def)
  ultimately show ?thesis using typed_row_map_of [OF assms(1), of c] by auto
qed

lemma cell_types:
  "cell_type v = TInt \<longleftrightarrow> (\<exists>n. v = VInt n)" "cell_type v = TReal \<longleftrightarrow> (\<exists>x. v = VReal x)"
  "cell_type v = TText \<longleftrightarrow> (\<exists>s. v = VText s)"
  by (cases v; simp)+

lemma rebuilt_row_typed:
  assumes "typed_row (tb_Columns tb) r" "tier_shape tb" "list_all (has_column tb) old_columns"
  shows "typed_row rollup_columns (rebuilt_row scale r)"
proof -
  have cell: "\<exists>v. map_of r c = Some v \<and> cell_type v = t"
    if "c \<in> set old_columns" "map_of ((''avg'', TReal) # rollup_columns) c = Some t" for c t
    using typed_cell [OF assms(1,2) _ that(2)] assms(3) that(1) by (auto simp: list_all_iff)
  show ?thesis
    using cell [of "''server_id''"] cell [of "''metric''"] cell [of "''window_start''"] cell [of "''min''"]
      cell [of "''max''"] cell [of "''avg''"] cell [of "''cnt''"]
    by (auto simp: typed_row_def rebuilt_row_def rollup_columns_def old_columns_def cell_types)
qed

lemma rebuilt_table_typed:
  assumes "typed_table old" "tier_shape old" "list_all (has_column old) old_columns"
  shows "typed_table (rebuilt_table scale old)" "tier_shape (rebuilt_table scale old)"
proof -
  show "typed_table (rebuilt_table scale old)"
    using assms rebuilt_row_typed [OF _ assms(2,3)]
    by (auto simp: typed_table_def rebuilt_table_def rollup_columns_def list_all_iff)
  show "tier_shape (rebuilt_table scale old)"
    by (simp add: tier_shape_def rebuilt_table_def rollup_columns_def)
qed

lemma add_column_typed: "typed_table tb \<Longrightarrow> add_column c dflt tb = Inr tb' \<Longrightarrow> typed_table tb'"
  by (auto simp: add_column_def typed_table_def typed_row_def has_column_def list_all_iff split: if_splits)

lemma delete_where_typed: "typed_table tb \<Longrightarrow> delete_where c v tb = Inr tb' \<Longrightarrow> typed_table tb'"
  by (auto simp: delete_where_def typed_table_def list_all_iff split: if_splits)

lemma update_where_typed:
  assumes "typed_table tb" "cell_type new = cell_type old" "update_where c new old tb = Inr tb'"
  shows "typed_table tb'"
proof -
  have "typed_row cols (map (\<lambda>(c', v). (c', if c' = c \<and> v = old then new else v)) r)" if "typed_row cols r" for cols r
    using that assms(2) by (auto simp: typed_row_def)
  with assms show ?thesis by (auto simp: update_where_def typed_table_def list_all_iff split: if_splits)
qed

definition fit :: "'v fdb \<Rightarrow> bool" where
  "fit fd \<longleftrightarrow> has_schema fd \<and> well_typed fd"

lemma names_set_table [simp]: "names (set_table n tb fd) = insert n (names fd)"
  by (simp add: names_def fst_set_update)

lemma well_typed_set_table:
  "well_typed fd \<Longrightarrow> typed_table tb \<Longrightarrow> (n \<in> {''rollup_1m'', ''rollup_1h''} \<Longrightarrow> tier_shape tb) \<Longrightarrow>
   well_typed (set_table n tb fd)"
  by (simp add: well_typed_def map_of_update)

lemma fit_on_table:
  assumes "fit fd" "on_table n f fd = Inr (u, fd')" "\<And>tb tb'. typed_table tb \<Longrightarrow> f tb = Inr tb' \<Longrightarrow> typed_table tb'"
    "n \<notin> {''rollup_1m'', ''rollup_1h''}"
  shows "fit fd'"
proof -
  obtain tb tb' where tb: "map_of (fd_tables fd) n = Some tb" "f tb = Inr tb'" "fd' = set_table n tb' fd"
    using assms(2) by (auto simp: on_table_def split: option.splits sum.splits)
  have "typed_table tb" using assms(1) tb(1) by (auto simp: fit_def well_typed_def)
  from assms(3) [OF this tb(2)] assms(1,4) tb(3) show ?thesis
    by (auto simp: fit_def has_schema_def intro: well_typed_set_table)
qed

lemma triple_on_table:
  "(\<And>tb tb'. typed_table tb \<Longrightarrow> f tb = Inr tb' \<Longrightarrow> typed_table tb') \<Longrightarrow> n \<notin> {''rollup_1m'', ''rollup_1h''} \<Longrightarrow>
   triple fit (stmt Driver (on_table n f)) (\<lambda>_. fit)"
  by (intro triple_stmt pure) (rule fit_on_table)

lemma triple_addColumn: "n \<notin> {''rollup_1m'', ''rollup_1h''} \<Longrightarrow> triple fit (addColumn n c dflt) (\<lambda>_. fit)"
proof -
  assume n: "n \<notin> {''rollup_1m'', ''rollup_1h''}"
  have "fd_faults fd' = [] \<and> fit fd'"
    if "fd_faults fd = []" "fit fd" "addColumn n c dflt fd = (Inr u, fd')" for fd fd' u
  proof (cases "on_table n (add_column c dflt) fd")
    case (Inl e)
    with that show ?thesis by (auto simp: addColumn_def run_stmt_def split: if_splits)
  next
    case (Inr p)
    then obtain v fd1 where fd1: "on_table n (add_column c dflt) fd = Inr (v, fd1)" by (cases p) auto
    then have "fd_faults fd1 = []" using that(1) by (auto simp: on_table_def split: option.splits sum.splits)
    with fd1 that fit_on_table [OF that(2) fd1 add_column_typed n] show ?thesis
      by (auto simp: addColumn_def run_stmt_def)
  qed
  then show ?thesis unfolding triple_def by blast
qed

lemma empty_typed [simp]: "typed_table (empty_table key cols) \<longleftrightarrow> distinct (map fst cols)"
  by (simp add: typed_table_def empty_table_def)

lemma schema_tables_typed:
  "typed_table servers_table" "typed_table groups_table" "typed_table members_table" "typed_table mother_table"
  "typed_table settings_table" "typed_table (empty_table k rollup_columns)" "tier_shape (empty_table k rollup_columns)"
  by (simp_all add: servers_table_def groups_table_def members_table_def mother_table_def settings_table_def
      rollup_columns_def tier_shape_def) (simp add: empty_table_def)

lemma triple_create:
  assumes "typed_table tb" "n \<in> {''rollup_1m'', ''rollup_1h''} \<Longrightarrow> tier_shape tb"
  shows "triple well_typed (stmt Driver (create_table_if_absent n tb)) (\<lambda>_. well_typed)"
    and "triple fit (stmt Driver (create_table_if_absent n tb)) (\<lambda>_. fit)"
  using assms
  by (intro triple_stmt pure;
      auto simp: create_table_if_absent_def fit_def has_schema_def split: if_splits intro: well_typed_set_table)+

lemma triple_create_index:
  "triple well_typed (stmt Driver (create_index_if_absent i n c)) (\<lambda>_. well_typed)"
  "triple fit (stmt Driver (create_index_if_absent i n c)) (\<lambda>_. fit)"
  by (intro triple_stmt pure;
      auto simp: create_index_if_absent_def fit_def has_schema_def names_def well_typed_def
        split: option.splits if_splits)+

lemma triple_group_tables: "triple fit (each (stmt Driver) create_group_tables) (\<lambda>_. fit)"
  by (rule triple_each) (auto simp: create_group_tables_def intro!: triple_create triple_create_index schema_tables_typed)

lemma triple_rebuild:
  assumes "t \<in> {''rollup_1m'', ''rollup_1h''}"
  shows "triple fit (rebuild_tier scale t) (\<lambda>_. fit)"
  unfolding triple_def
proof (intro allI impI)
  fix fd u fd' assume f: "fd_faults fd = []" and fit: "fit fd" and run: "rebuild_tier scale t fd = (Inr u, fd')"
  show "fd_faults fd' = [] \<and> fit fd'"
  proof (cases "fd' = fd")
    case False
    with run obtain old where old: "map_of (fd_tables fd) t = Some old" "list_all (has_column old) old_columns"
      "t @ ''_rebuilt'' \<notin> names fd" and fd': "fd' = swap_table t (rebuilt_table scale old) fd"
      by (auto simp: rebuild_none [OF f] split: option.splits if_splits)
    have typed: "typed_table old" "tier_shape old"
      using fit assms old(1) by (auto simp: fit_def well_typed_def)
    have "well_typed fd'"
      using fit rebuilt_table_typed [OF typed old(2), of scale] unfolding fd' fit_def well_typed_def
      by (auto simp: swap_table_def Let_def map_of_update delete_conv' split: if_splits)
    moreover have "names fd \<subseteq> names fd'"
      using old(3) unfolding fd' swap_table_def Let_def names_def
      by (simp add: fst_set_update fst_set_delete) blast
    ultimately show ?thesis
      using fit f unfolding fd' by (auto simp: fit_def has_schema_def swap_table_def Let_def)
  qed (use f fit in simp)
qed

lemma triple_drop:
  "triple fit (stmt Driver (drop_index_if_exists ''idx_samples'')) (\<lambda>_. fit)"
  "triple fit (stmt Driver (drop_table_if_exists ''samples'')) (\<lambda>_. fit)"
proof -
  show "triple fit (stmt Driver (drop_index_if_exists ''idx_samples'')) (\<lambda>_. fit)"
    by (intro triple_stmt pure) (auto simp: drop_index_if_exists_def fit_def has_schema_def names_def well_typed_def)
  have "''samples'' \<notin> set schema_names" by (simp add: schema_names_def)
  then show "triple fit (stmt Driver (drop_table_if_exists ''samples'')) (\<lambda>_. fit)"
    by (intro triple_stmt pure)
      (auto simp: drop_table_if_exists_def fit_def has_schema_def names_def fst_set_delete well_typed_def
        delete_conv' split: if_splits)
qed

lemma triple_rollups: "triple fit (migrateRollupsToSum scale) (\<lambda>_. fit)"
  unfolding migrateRollupsToSum_def
proof (rule triple_and_then [where R = "\<lambda>_. fit"])
  show "triple fit (each (rebuild_tier scale) [''rollup_1m'', ''rollup_1h'']) (\<lambda>_. fit)"
    by (rule triple_each) (rule triple_rebuild, simp)
  have "triple fit (stmt Driver (on_table ''settings'' (delete_where ''key'' (VText ''retention_raw_hours'')))) (\<lambda>_. fit)"
    by (rule triple_on_table) (rule delete_where_typed, simp_all)
  then have "triple fit (stmt Driver s) (\<lambda>_. fit)"
    if "s \<in> set [drop_index_if_exists ''idx_samples'', drop_table_if_exists ''samples'',
      on_table ''settings'' (delete_where ''key'' (VText ''retention_raw_hours''))]" for s
    using that triple_drop by fastforce
  then show "triple fit (each (stmt Driver) [drop_index_if_exists ''idx_samples'', drop_table_if_exists ''samples'',
      on_table ''settings'' (delete_where ''key'' (VText ''retention_raw_hours''))]) (\<lambda>_. fit)"
    by (rule triple_each)
qed

lemma triple_desired: "triple fit migrateDesiredVersionPerServer (\<lambda>_. fit)"
proof -

  have read: "triple fit (stmt Driver (read_setting ''desired_version'')) (\<lambda>_. fit)"
    by (intro triple_stmt pure) (auto simp: read_setting_def split: option.splits if_splits)
  have delete: "triple fit (stmt Driver (on_table ''settings'' (delete_where ''key'' (VText ''desired_version'')))) (\<lambda>_. fit)"
    by (rule triple_on_table) (rule delete_where_typed, simp_all)
  have update: "triple fit (stmt Driver (on_table ''servers'' (update_where ''desired_version'' (VText g) (VText '''')))) (\<lambda>_. fit)" for g
    by (rule triple_on_table) (erule update_where_typed [rotated 2], simp_all)
  have some: "triple fit
      (and_then (if g \<noteq> '''' then stmt Driver (on_table ''servers'' (update_where ''desired_version'' (VText g) (VText ''''))) else ok ())
         (\<lambda>_. stmt Driver (on_table ''settings'' (delete_where ''key'' (VText ''desired_version''))))) (\<lambda>_. fit)" for g
    by (rule triple_and_then [OF _ delete]) (simp add: update triple_ok)
  show ?thesis
    unfolding migrateDesiredVersionPerServer_def
  proof (rule triple_and_then [OF read])
    fix found :: "string option"
    show "triple fit (case found of None \<Rightarrow> ok ()
        | Some global \<Rightarrow> and_then
            (if global \<noteq> '''' then stmt Driver (on_table ''servers'' (update_where ''desired_version'' (VText global) (VText '''')))
             else ok ())
            (\<lambda>_. stmt Driver (on_table ''settings'' (delete_where ''key'' (VText ''desired_version''))))) (\<lambda>_. fit)"
      by (cases found) (simp_all only: option.case triple_ok some)
  qed
qed

lemma triple_addColumns: "triple fit (addColumns ''servers'' cs) (\<lambda>_. fit)"
  unfolding addColumns_def by (rule triple_each) (simp add: triple_addColumn split: prod.split)

lemma triple_migrations: "m \<in> set (migrations scale) \<Longrightarrow> triple fit (snd m) (\<lambda>_. fit)"
  by (auto simp: migrations_def migrate_server_columns_def migrate_uninstall_columns_def
      intro!: triple_addColumns triple_desired triple_rollups triple_group_tables triple_create schema_tables_typed)

section \<open>Creating the schema\<close>

definition settled :: "('v fdb \<Rightarrow> string + unit \<times> 'v fdb) \<Rightarrow> 'v fdb \<Rightarrow> bool" where
  "settled s fd \<longleftrightarrow> s fd = Inr ((), fd)"

lemma schema_stmt_cases:
  assumes "s \<in> set schema_stmts"
  obtains (table) n tb where "s = create_table_if_absent n tb" "typed_table tb" "n \<in> {''rollup_1m'', ''rollup_1h''} \<Longrightarrow> tier_shape tb"
  | (index) i n c where "s = create_index_if_absent i n c"
proof -
  have "(\<exists>n tb. s = create_table_if_absent n tb \<and> typed_table tb \<and> (n \<in> {''rollup_1m'', ''rollup_1h''} \<longrightarrow> tier_shape tb)) \<or>
      (\<exists>i n c. s = create_index_if_absent i n c)"
    using assms unfolding schema_stmts_def create_group_tables_def append.simps set_simps insert_iff empty_iff
    using schema_tables_typed by blast
  with table index show ?thesis by blast
qed

lemma pure_schema [pure]: "s \<in> set schema_stmts \<Longrightarrow> pure_stmt s"
  by (erule schema_stmt_cases) (auto intro: pure)

lemma settled_table [simp]: "settled (create_table_if_absent n tb) fd \<longleftrightarrow> n \<in> names fd"
proof -
  have "n \<notin> names fd \<Longrightarrow> set_table n tb fd \<noteq> fd" using names_set_table [of n tb fd] by fastforce
  then show ?thesis by (auto simp: settled_def create_table_if_absent_def names_def)
qed

lemma settled_index: "i \<in> set (fd_indexes fd) \<Longrightarrow> settled (create_index_if_absent i n c) fd"
  by (simp add: settled_def create_index_if_absent_def)

lemma settled_index_iff [simp]: "settled (create_index_if_absent i n c) fd \<longleftrightarrow> i \<in> set (fd_indexes fd)"
proof -
  have "fd\<lparr>fd_indexes := fd_indexes fd @ [i]\<rparr> \<noteq> fd" by (cases fd) simp
  then show ?thesis by (auto simp: settled_def create_index_if_absent_def split: option.splits if_splits)
qed

lemma schema_stmt_grows:
  assumes "s \<in> set schema_stmts" "s fd = Inr (u, fd')"
  shows "settled s fd' \<and> names fd \<subseteq> names fd' \<and> set (fd_indexes fd) \<subseteq> set (fd_indexes fd')"
  using assms(1)
proof (cases rule: schema_stmt_cases)
  case (table n tb)
  with assms(2) have "fd' = (if n \<in> names fd then fd else set_table n tb fd)"
    by (auto simp: create_table_if_absent_def names_def split: if_splits)
  with table(1) show ?thesis by auto
next
  case (index i n c)
  with assms(2) show ?thesis
    by (auto simp: create_index_if_absent_def names_def split: if_splits option.splits)
qed

lemma settled_mono:
  "s \<in> set schema_stmts \<Longrightarrow> settled s fd \<Longrightarrow> names fd \<subseteq> names fd' \<Longrightarrow> set (fd_indexes fd) \<subseteq> set (fd_indexes fd') \<Longrightarrow>
   settled s fd'"
  by (erule schema_stmt_cases) auto

lemma stmt_cases:
  assumes "pure_stmt s" "stmt wrap s fd = (r, fd')"
  shows "clean fd' = clean fd \<and> (\<exists>e. r = Inl e) \<or> (\<exists>u. r = Inr u \<and> s (clean fd) = Inr (u, clean fd'))"
proof (cases rule: next_fault_cases [of fd])
  case (none fd1)
  with assms(2) pure_clean [OF assms(1), of fd1] show ?thesis
    by (auto simp: stmt_def run_stmt_def on_result_def split: sum.splits prod.splits)
next
  case (some e fd1)
  with assms(2) show ?thesis by (auto simp: stmt_def run_stmt_def)
qed

lemma each_grows:
  "set ss \<subseteq> set schema_stmts \<Longrightarrow> each (stmt Driver) ss fd = (r, fd') \<Longrightarrow>
   names fd \<subseteq> names fd' \<and> set (fd_indexes fd) \<subseteq> set (fd_indexes fd')"
proof (induction ss arbitrary: fd)
  case (Cons s ss)
  obtain r1 fd1 where s: "stmt Driver s fd = (r1, fd1)" by fastforce
  have "names (clean fd) \<subseteq> names (clean fd1) \<and> set (fd_indexes fd) \<subseteq> set (fd_indexes fd1)"
  proof -
    have sm: "s \<in> set schema_stmts" using Cons.prems(1) by simp
    from stmt_cases [OF pure_schema [OF sm] s] show ?thesis
    proof (elim disjE exE conjE)
      assume "clean fd1 = clean fd"
      then show ?thesis by (metis clean_simps(3) order_refl)
    next
      fix u assume "s (clean fd) = Inr (u, clean fd1)"
      from schema_stmt_grows [OF sm this] show ?thesis by simp
    qed
  qed
  then have "names fd \<subseteq> names fd1 \<and> set (fd_indexes fd) \<subseteq> set (fd_indexes fd1)" by (simp add: names_def)
  then show ?case
  proof (cases r1)
    case (Inl e)
    with Cons.prems(2) s \<open>names fd \<subseteq> names fd1 \<and> _\<close> show ?thesis by (simp add: and_then_def)
  next
    case (Inr u)
    with Cons.prems s have "each (stmt Driver) ss fd1 = (r, fd')" by (simp add: and_then_def)
    from Cons.IH [OF _ this] Cons.prems(1) \<open>names fd \<subseteq> names fd1 \<and> _\<close> show ?thesis by auto
  qed
qed (simp add: ok_def)

text \<open>Interrupted anywhere, the statements can be run again from the start with the same result.\<close>

lemma each_resumes:
  "set ss \<subseteq> set schema_stmts \<Longrightarrow> each (stmt Driver) ss fd = (r, fd') \<Longrightarrow>
   each (stmt Driver) ss (clean fd) = (Inr (), final) \<Longrightarrow> each (stmt Driver) ss (clean fd') = (Inr (), final)"
proof (induction ss arbitrary: fd)
  case (Cons s ss)
  have s: "s \<in> set schema_stmts" "set ss \<subseteq> set schema_stmts" using Cons.prems(1) by auto
  obtain r1 fd1 where m: "stmt Driver s fd = (r1, fd1)" by fastforce
  consider e where "clean fd1 = clean fd" "r1 = Inl e" | "r1 = Inr ()" "s (clean fd) = Inr ((), clean fd1)"
    using stmt_cases [OF pure_schema [OF s(1)] m] by auto
  then show ?case
  proof cases
    case 1
    with m Cons.prems(2,3) show ?thesis by (simp add: and_then_def)
  next
    case 2
    have rest: "each (stmt Driver) ss fd1 = (r, fd')" using Cons.prems(2) m 2 by (simp add: and_then_def)
    have "each (stmt Driver) ss (clean fd1) = (Inr (), final)"
      using Cons.prems(3) 2 by (simp add: and_then_def stmt_none)
    from Cons.IH [OF s(2) rest this] have IH: "each (stmt Driver) ss (clean fd') = (Inr (), final)" .
    have "settled s (clean fd')"
      using schema_stmt_grows [OF s(1) 2(2)] settled_mono [OF s(1), of "clean fd1" "clean fd'"]
        each_grows [OF s(2) rest] by (simp add: names_def)
    with IH show ?thesis by (simp add: and_then_def stmt_none settled_def)
  qed
qed (simp add: ok_def)

lemma schema_stmt_version:
  "s \<in> set schema_stmts \<Longrightarrow> s fd = Inr (u, fd') \<Longrightarrow> fd_user_version fd' = fd_user_version fd"
  by (erule schema_stmt_cases)
    (auto simp: create_table_if_absent_def create_index_if_absent_def split: if_splits option.splits)

lemma createSchema_version: "createSchema fd = (r, fd') \<Longrightarrow> fd_user_version fd' = fd_user_version fd"
proof -
  have "set ss \<subseteq> set schema_stmts \<Longrightarrow> each (stmt Driver) ss fd = (r, fd') \<Longrightarrow> fd_user_version fd' = fd_user_version fd" for ss
  proof (induction ss arbitrary: fd)
    case (Cons s ss)
    then have s: "s \<in> set schema_stmts" by simp
    obtain r1 fd1 where m: "stmt Driver s fd = (r1, fd1)" by fastforce
    from stmt_cases [OF pure_schema [OF s] m] have "fd_user_version fd1 = fd_user_version fd"
    proof (elim disjE exE conjE)
      assume "clean fd1 = clean fd"
      then show ?thesis by (metis clean_simps(4))
    next
      fix u assume "s (clean fd) = Inr (u, clean fd1)"
      from schema_stmt_version [OF s this] show ?thesis by simp
    qed
    with Cons m show ?case by (cases r1) (auto simp: and_then_def)
  qed (simp add: ok_def)
  from this [of schema_stmts] show "createSchema fd = (r, fd') \<Longrightarrow> fd_user_version fd' = fd_user_version fd"
    by (simp add: createSchema_def)
qed

lemma createSchema_settled:
  "set ss \<subseteq> set schema_stmts \<Longrightarrow> fd_faults fd = [] \<Longrightarrow> each (stmt Driver) ss fd = (Inr u, fd') \<Longrightarrow>
   fd_faults fd' = [] \<Longrightarrow> \<forall>s \<in> set ss. settled s fd'"
proof (induction ss arbitrary: fd)
  case (Cons s ss)
  then have s: "s \<in> set schema_stmts" "set ss \<subseteq> set schema_stmts" by auto
  obtain fd1 where m: "stmt Driver s fd = (Inr (), fd1)" and rest: "each (stmt Driver) ss fd1 = (Inr u, fd')"
    using Cons.prems(3) by (auto simp: and_then_def split: prod.splits sum.splits)
  have step: "s fd = Inr ((), fd1)" using m Cons.prems(2) by (auto simp: stmt_none split: sum.splits)
  have "fd_faults fd1 = []"
    using tripleD [OF triple_stmt [OF pure_schema [OF s(1)], of "\<lambda>_. True" "\<lambda>_ _. True"] m] Cons.prems(2) by simp
  from Cons.IH [OF s(2) this rest Cons.prems(4)] show ?case
    using settled_mono [OF s(1), of fd1 fd'] schema_stmt_grows [OF s(1) step] each_grows [OF s(2) rest] by auto
qed simp

lemma createSchema_fit:
  fixes fd :: "'b fdb"
  assumes "well_typed fd" "fd_faults fd = []" "createSchema fd = (Inr u, fd')"
  shows "fit fd'" "fd_faults fd' = []"
proof -
  have "triple well_typed (createSchema :: ('b, unit) action) (\<lambda>_. well_typed)"
    unfolding createSchema_def
  proof (rule triple_each)
    fix s :: "'b fdb \<Rightarrow> string + unit \<times> 'b fdb" assume "s \<in> set schema_stmts"
    then show "triple well_typed (stmt Driver s) (\<lambda>_. well_typed)"
      by (cases rule: schema_stmt_cases) (auto intro: triple_create triple_create_index)
  qed
  from tripleD [OF this assms(3,2,1)] have w: "fd_faults fd' = []" "well_typed fd'" by auto
  have "\<forall>s \<in> set schema_stmts. settled s fd'"
    by (rule createSchema_settled [OF order_refl assms(2) assms(3) [unfolded createSchema_def] w(1)])
  then have "has_schema fd'"
    by (auto simp: schema_stmts_def create_group_tables_def has_schema_def schema_names_def)
  with w show "fit fd'" "fd_faults fd' = []" by (auto simp: fit_def)
qed

lemma schema_noop:
  assumes "has_schema fd" "fd_faults fd = []"
  shows "set ss \<subseteq> set schema_stmts \<Longrightarrow> each (stmt Driver) ss fd = (Inr (), fd)"
proof -
  have "\<forall>s \<in> set schema_stmts. settled s fd"
    using assms(1) by (simp add: schema_stmts_def create_group_tables_def has_schema_def schema_names_def)
  then show "set ss \<subseteq> set schema_stmts \<Longrightarrow> each (stmt Driver) ss fd = (Inr (), fd)"
    by (induction ss) (auto simp: and_then_def ok_def stmt_none settled_def assms(2))
qed

lemma createSchema_noop: "has_schema fd \<Longrightarrow> fd_faults fd = [] \<Longrightarrow> createSchema fd = (Inr (), fd)"
  unfolding createSchema_def by (rule schema_noop) simp_all

section \<open>Opening\<close>

lemma migrate_from_fit:
  "\<forall>m \<in> set ms. triple fit (snd m) (\<lambda>_. fit) \<Longrightarrow> fit fd \<Longrightarrow> fd_faults fd = [] \<Longrightarrow>
   migrate_from i ms n fd = ((a, None), fd') \<Longrightarrow> fit fd' \<and> fd_faults fd' = []"
proof (induction ms arbitrary: i n fd)
  case (Cons m ms)
  obtain fd1 where m: "applyMigration i (snd m) fd = (Inr (), fd1)"
    and rest: "migrate_from (i + 1) ms (n + 1) fd1 = ((a, None), fd')"
    using Cons.prems(4) by (auto split: prod.splits sum.splits)
  then obtain fd2 where run: "snd m fd = (Inr (), fd2)"
    using Cons.prems(3) by (auto simp: applyMigration_def stmt_none and_then_def split: prod.splits sum.splits)
  with Cons.prems(1) have fd2: "fit fd2" "fd_faults fd2 = []"
    using tripleD [where P = fit and Q = "\<lambda>_. fit" and m = "snd m", OF _ run Cons.prems(3,2)] by auto
  with m run Cons.prems(3) have "fd1 = fd2\<lparr>fd_user_version := int i + 1\<rparr>"
    by (simp add: applyMigration_def stmt_none and_then_def)
  with fd2 have "fit fd1" "fd_faults fd1 = []"
    by (auto simp: fit_def has_schema_def names_def well_typed_def)
  with Cons.IH [OF _ _ _ rest] Cons.prems(1) show ?case by auto
qed simp

abbreviation left_over :: "('v \<Rightarrow> int \<Rightarrow> 'v) \<Rightarrow> int \<Rightarrow> (string \<times> ('v, unit) action) list" where
  "left_over scale version \<equiv> drop (nat version) (migrations scale)"

lemma left_over_sound: "m \<in> set (left_over scale v) \<Longrightarrow> faithful (snd m) \<and> triple fit (snd m) (\<lambda>_. fit)"
  using faithful_migrations triple_migrations by (blast dest: in_set_dropD)

definition wal :: "string \<Rightarrow> bool" where
  "wal mode \<longleftrightarrow> mode = ''wal'' \<or> mode = ''memory''"

lemma Open_clean:
  assumes "well_typed fd" "fd_faults fd = []"
  shows "Open scale mode fd = Some (Inr n, final) \<longleftrightarrow>
    wal mode \<and> 0 \<le> fd_user_version fd \<and>
    (\<exists>fd1. createSchema fd = (Inr (), fd1) \<and>
      migrate_from (nat (fd_user_version fd)) (left_over scale (fd_user_version fd)) 0 fd1 = ((n, None), final))"
proof -
  obtain r fd1 where s: "createSchema fd = (r, fd1)" by fastforce
  show ?thesis
  proof (cases "wal mode \<and> r = Inr () \<and> 0 \<le> fd_user_version fd")
    case True
    note fit = createSchema_fit [OF assms] and v = createSchema_version [OF s]
    obtain a err fd2 where m: "migrate_from (nat (fd_user_version fd)) (left_over scale (fd_user_version fd)) 0 fd1 = ((a, err), fd2)"
      by (metis prod.collapse)
    have "fd_faults fd2 = []" if "err = None"
      using migrate_from_fit [OF _ _ _ m [unfolded that]] left_over_sound fit s True by blast
    with True s m v fit [of "()" fd1] assms(2) show ?thesis
      by (auto simp: Open_def and_then_def stmt_none applyPragmas_def wal_def migrate_def split: option.splits)
  next
    case False
    with s assms(2) createSchema_version [OF s] createSchema_fit [OF assms] show ?thesis
      by (auto simp: Open_def and_then_def stmt_none applyPragmas_def wal_def migrate_def failing_def
          split: sum.splits)
  qed
qed

lemma look:
  assumes "pure_stmt (\<lambda>fd. Inr (f fd, fd))" "stmt wrap (\<lambda>fd. Inr (f fd, fd)) fd = (r, fd1)"
  shows "clean fd1 = clean fd" "sane fd \<Longrightarrow> sane fd1" "r = Inr a \<Longrightarrow> a = f (clean fd)"
  using stmt_cases [OF assms] faithful_sane [OF faithful_stmt [OF assms(1)] assms(2)] by auto

lemma applyPragmas_clean:
  assumes "applyPragmas mode fd = (r, fd')"
  shows "clean fd' = clean fd" "sane fd \<Longrightarrow> sane fd'"
proof -
  obtain r1 fd1 where m: "stmt SetJournal (\<lambda>fd. Inr (mode, fd)) fd = (r1, fd1)" by fastforce
  note one = look [OF pure_stmts(1) m]
  have two: "clean fd2 = clean fd1 \<and> (sane fd1 \<longrightarrow> sane fd2)" if "stmt SetSynchronous (\<lambda>fd. Inr ((), fd)) fd1 = (r2, fd2)" for r2 fd2
    using look [OF pure_stmts(1) that] by blast
  have "clean fd' = clean fd \<and> (sane fd \<longrightarrow> sane fd')"
  proof (cases r1)
    case (Inl e)
    with assms m one show ?thesis by (auto simp: applyPragmas_def and_then_def)
  next
    case (Inr md)
    with assms m have "fd' = fd1 \<or> stmt SetSynchronous (\<lambda>fd. Inr ((), fd)) fd1 = (r, fd')"
      by (auto simp: applyPragmas_def and_then_def failing_def split: if_splits)
    with one two show ?thesis by metis
  qed
  then show "clean fd' = clean fd" "sane fd \<Longrightarrow> sane fd'" by blast+
qed

lemma Open_cases:
  assumes "Open scale mode fd = Some (r, fd')" "sane fd"
  obtains (early) "clean fd' = clean fd"
  | (schema) fd0 r0 where "clean fd0 = clean fd" "sane fd0" "createSchema fd0 = (r0, fd')"
  | (version) fd0 fd1 where "clean fd0 = clean fd" "sane fd0" "createSchema fd0 = (Inr (), fd1)" "clean fd' = clean fd1"
  | (migrated) fd0 fd1 k where "clean fd0 = clean fd" "sane fd0" "createSchema fd0 = (Inr (), fd1)"
      "0 \<le> fd_user_version fd" "k \<le> length (left_over scale (fd_user_version fd))"
      "migrate_from (nat (fd_user_version fd)) (take k (left_over scale (fd_user_version fd))) 0 (clean fd1) =
         ((k, None), clean fd')"
proof -
  obtain ra fda where a: "stmt Driver (\<lambda>fd. Inr ((), fd)) fd = (ra, fda)" by fastforce
  note ca = look(1,2) [OF pure_stmts(1) a]
  show thesis
  proof (cases ra)
    case (Inl e)
    with a assms(1) ca(1) early show thesis by (auto simp: Open_def and_then_def)
  next
    case ra: (Inr ua)
    obtain rb fdb where b: "applyPragmas mode fda = (rb, fdb)" by fastforce
    note cb = applyPragmas_clean [OF b]
    have fdb: "clean fdb = clean fd" "sane fdb" using ca cb assms(2) by auto
    show thesis
    proof (cases rb)
      case (Inl e)
      with a ra b assms(1) fdb early show thesis by (auto simp: Open_def and_then_def)
    next
      case rb: (Inr ub)
      obtain rc fdc where c: "createSchema fdb = (rc, fdc)" by fastforce
      show thesis
      proof (cases rc)
        case (Inl e)
        with a ra b rb c assms(1) have "fd' = fdc" by (simp add: Open_def and_then_def)
        with schema [OF fdb] c show thesis by blast
      next
        case rc: (Inr uc)
        with c have c: "createSchema fdb = (Inr (), fdc)" by simp
        have sc: "sane fdc" by (rule faithful_sane [OF faithful_createSchema c fdb(2)])
        have vc: "fd_user_version fdc = fd_user_version fd"
          using createSchema_version [OF c] fdb(1) by (metis clean_simps(4))
        obtain rd fdd where d: "stmt ReadUserVersion (\<lambda>fd. Inr (fd_user_version fd, fd)) fdc = (rd, fdd)" by fastforce
        note cd = look [OF pure_stmts(14) d]
        show thesis
        proof (cases rd)
          case (Inl e)
          with a ra b rb c d assms(1) have "fd' = fdd" by (simp add: Open_def and_then_def migrate_def)
          with version [OF fdb c] cd(1) show thesis by blast
        next
          case rd: (Inr v)
          with cd(3) vc have v: "v = fd_user_version fd" by simp
          have v0: "0 \<le> v" using a ra b rb c d rd assms(1) by (auto simp: Open_def and_then_def migrate_def split: if_splits)
          obtain n err fde where e: "migrate_from (nat v) (left_over scale v) 0 fdd = ((n, err), fde)"
            by (metis prod.collapse)
          obtain k where k: "k \<le> length (left_over scale v)"
            "migrate_from (nat v) (take k (left_over scale v)) 0 (clean fdd) = ((k, None), clean fde)"
            using migrate_from_prefix [OF _ cd(2) [OF sc] e] left_over_sound by fastforce
          have "fd' = fde \<or> (\<exists>rf. stmt VacuumFailed (\<lambda>fd. Inr ((), fd)) fde = (rf, fd'))"
            using a ra b rb c d rd v0 e assms(1)
            by (auto simp: Open_def and_then_def migrate_def split: option.splits if_splits prod.splits sum.splits)
          then have "clean fd' = clean fde" by (auto dest: look(1) [OF pure_stmts(1)])
          with migrated [OF fdb c] v v0 k cd(1) show thesis by simp
        qed
      qed
    qed
  qed
qed

lemma each_typed:
  "set ss \<subseteq> set schema_stmts \<Longrightarrow> each (stmt Driver) ss fd = (r, fd') \<Longrightarrow> well_typed (clean fd) \<Longrightarrow> well_typed (clean fd')"
proof (induction ss arbitrary: fd)
  case (Cons s ss)
  then have s: "s \<in> set schema_stmts" by simp
  obtain r1 fd1 where m: "stmt Driver s fd = (r1, fd1)" by fastforce
  have "triple well_typed (stmt Driver s) (\<lambda>_. well_typed)"
    using s by (cases rule: schema_stmt_cases) (auto intro: triple_create triple_create_index)
  then have "well_typed (clean fd1)" if "s (clean fd) = Inr (u, clean fd1)" for u
    using tripleD [where P = well_typed and m = "stmt Driver s" and Q = "\<lambda>_. well_typed" and fd = "clean fd" and a = u
        and fd' = "clean fd1", OF _ stmt_Inr [of "clean fd" s u "clean fd1" Driver]] that Cons.prems(3)
      \<open>triple well_typed (stmt Driver s) _\<close> by simp
  with stmt_cases [OF pure_schema [OF s] m] Cons.prems(3) have "well_typed (clean fd1)" by auto
  with Cons m show ?case by (cases r1) (auto simp: and_then_def)
qed (simp add: ok_def)

text \<open>
  An attempt to open that may fail anywhere: the next clean one ends where a clean one would have
  ended in the first place, and has that many fewer migrations to run.
\<close>

lemma Open_after_prefix:
  assumes wal: "wal mode" and v: "0 \<le> fd_user_version fd" and fit_s: "fit s" "fd_faults s = []"
    and v_s: "fd_user_version s = fd_user_version fd"
    and loop: "migrate_from (nat (fd_user_version fd)) (left_over scale (fd_user_version fd)) 0 s = ((n, None), final)"
    and k: "k \<le> length (left_over scale (fd_user_version fd))"
    and steps: "migrate_from (nat (fd_user_version fd)) (take k (left_over scale (fd_user_version fd))) 0 s = ((k, None), clean fd')"
  shows "well_typed (clean fd') \<and> (\<exists>n'. Open scale mode (clean fd') = Some (Inr n', final) \<and>
    fd_user_version fd' + int n' = fd_user_version fd + int n)"
proof -
  let ?v = "fd_user_version fd"
  have fit: "fit (clean fd')"
    using migrate_from_fit [OF _ fit_s steps] left_over_sound by (blast dest: in_set_takeD)
  have "fd_user_version (clean fd') = (if k = 0 then ?v else int (nat ?v + k))"
    using migrate_from_version [where i = "nat ?v" and n = 0 and k = k, unfolded add_0, OF steps] k v_s by auto
  then have v': "fd_user_version fd' = ?v + int k" "nat (fd_user_version fd') = nat ?v + k" using v by auto
  have "drop k (left_over scale ?v) = left_over scale (fd_user_version fd')" by (simp add: v'(2) add.commute)
  then have split: "migrate_from (nat ?v + k) (left_over scale (fd_user_version fd')) k (clean fd') = ((n, None), final)"
    using migrate_from_split [of "nat ?v" k "left_over scale ?v" 0 s "clean fd'"] steps k loop by simp
  obtain n' where "n = n' + k" "migrate_from (nat ?v + k) (left_over scale (fd_user_version fd')) 0 (clean fd') = ((n', None), final)"
  proof -
    obtain n' err fd2 where r: "migrate_from (nat ?v + k) (left_over scale (fd_user_version fd')) 0 (clean fd') = ((n', err), fd2)"
      by (metis prod.collapse)
    with split migrate_from_count [of "nat ?v + k" "left_over scale (fd_user_version fd')" 0 k "clean fd'"]
    have "n = n' + k" "err = None" "fd2 = final" by simp_all
    with r that show thesis by simp
  qed
  moreover have "createSchema (clean fd') = (Inr (), clean fd')"
    using fit by (intro createSchema_noop) (auto simp: fit_def)
  moreover have "well_typed (clean fd')" using fit by (simp add: fit_def)
  ultimately show ?thesis
    using v v' wal Open_clean [of "clean fd'" scale mode n' final] by simp
qed

lemma Open_attempt:
  assumes typed: "well_typed fd" and sane: "sane fd"
    and good: "Open scale mode (clean fd) = Some (Inr n, final)"
    and run: "Open scale mode' fd = Some (r, fd')"
  shows "well_typed (clean fd') \<and> (\<exists>n'. Open scale mode (clean fd') = Some (Inr n', final) \<and>
    fd_user_version fd' + int n' = fd_user_version fd + int n)"
proof -
  let ?v = "fd_user_version fd"
  have typed': "well_typed (clean fd)" using typed by (simp add: well_typed_def)
  from good obtain s where wal: "wal mode" and v: "0 \<le> ?v" and schema: "createSchema (clean fd) = (Inr (), s)"
    and loop: "migrate_from (nat ?v) (left_over scale ?v) 0 s = ((n, None), final)"
    unfolding Open_clean [OF typed' clean_simps(5)] by auto
  note fit_s = createSchema_fit [OF typed' clean_simps(5) schema]
  have v_s: "fd_user_version s = ?v" using createSchema_version [OF schema] by simp
  note from_s = Open_after_prefix [OF wal v fit_s v_s loop]
  show ?thesis
    using run sane
  proof (cases rule: Open_cases)
    case early
    then have "fd_user_version fd' = ?v" by (metis clean_simps(4))
    with early good typed' show ?thesis by auto
  next
    case (schema fd0 r0)
    have v': "fd_user_version fd' = ?v" using createSchema_version [OF schema(3)] schema(1) by (metis clean_simps(4))
    have "createSchema (clean fd') = (Inr (), s)"
      using each_resumes [OF order_refl schema(3) [unfolded createSchema_def]] \<open>createSchema (clean fd) = (Inr (), s)\<close> schema(1)
      unfolding createSchema_def by metis
    moreover have typed_fd': "well_typed (clean fd')"
      using each_typed [OF order_refl schema(3) [unfolded createSchema_def]] typed' schema(1) by simp
    ultimately show ?thesis
      using v v' wal loop Open_clean [OF typed_fd', of scale mode n final] by auto
  next
    case (version fd0 fd1)
    have "clean fd1 = s"
      using faithfulD [OF faithful_createSchema version(3,2)] version(1) \<open>createSchema (clean fd) = (Inr (), s)\<close> by simp
    with version(4) show ?thesis by (intro from_s [of 0]) auto
  next
    case (migrated fd0 fd1 k)
    have "clean fd1 = s"
      using faithfulD [OF faithful_createSchema migrated(3,2)] migrated(1) \<open>createSchema (clean fd) = (Inr (), s)\<close> by simp
    with migrated(5,6) show ?thesis by (intro from_s) auto
  qed
qed

section \<open>What the migrations do to a first release's file\<close>

abbreviation lookup :: "'v fdb \<Rightarrow> string \<Rightarrow> 'v table option" where
  "lookup fd \<equiv> map_of (fd_tables fd)"

definition add_missing :: "'v table \<Rightarrow> string \<times> 'v cell \<Rightarrow> 'v table" where
  "add_missing tb cd = (if has_column tb (fst cd) then tb
     else tb\<lparr>tb_Columns := tb_Columns tb @ [(fst cd, cell_type (snd cd))],
             tb_Rows := map (\<lambda>r. r @ [cd]) (tb_Rows tb)\<rparr>)"

lemma addColumn_run:
  assumes "fd_faults fd = []" "lookup fd n = Some tb"
  shows "addColumn n c dflt fd = (Inr (), set_table n (add_missing tb (c, dflt)) fd)"
proof (cases "has_column tb c")
  case True
  have "set_table n tb fd = fd" using assms(2) by (simp add: set_table_def update_triv)
  moreover have "Contains (''duplicate column name: '' @ c) ''duplicate column name''"
    by (simp add: HasPrefix_def)
  ultimately show ?thesis
    using assms True
    by (simp add: addColumn_def run_stmt_def on_table_def add_column_def add_missing_def del: append_Cons Contains.simps)
next
  case False
  with assms show ?thesis
    by (simp add: addColumn_def run_stmt_def on_table_def add_column_def add_missing_def)
qed

lemma addColumns_run:
  "fd_faults fd = [] \<Longrightarrow> lookup fd n = Some tb \<Longrightarrow>
   \<exists>fd'. addColumns n cs fd = (Inr (), fd') \<and> fd_faults fd' = [] \<and> lookup fd' = (lookup fd)(n \<mapsto> foldl add_missing tb cs)"
proof (induction cs arbitrary: fd tb)
  case Nil
  then show ?case by (simp add: addColumns_def ok_def map_upd_triv)
next
  case (Cons cd cs)
  obtain c dflt where cd: "cd = (c, dflt)" by fastforce
  let ?fd1 = "set_table n (add_missing tb cd) fd"
  have "\<exists>fd'. addColumns n cs ?fd1 = (Inr (), fd') \<and> fd_faults fd' = [] \<and>
      lookup fd' = (lookup ?fd1)(n \<mapsto> foldl add_missing (add_missing tb cd) cs)"
    by (rule Cons.IH) (use Cons.prems(1) in \<open>simp_all add: map_of_update\<close>)
  then obtain fd' where
    "addColumns n cs ?fd1 = (Inr (), fd')" "fd_faults fd' = []"
    "lookup fd' = (lookup ?fd1)(n \<mapsto> foldl add_missing (add_missing tb cd) cs)" by blast
  with addColumn_run [OF Cons.prems, of c dflt] cd show ?case
    by (auto simp: addColumns_def and_then_def fun_eq_iff map_of_update)
qed

lemma add_missing_all:
  "distinct (map fst cs) \<Longrightarrow>
   tb_Columns (foldl add_missing tb cs) = tb_Columns tb @ map (\<lambda>(c, d). (c, cell_type d)) (filter (\<lambda>(c, d). \<not> has_column tb c) cs) \<and>
   tb_Rows (foldl add_missing tb cs) = map (\<lambda>r. r @ filter (\<lambda>(c, d). \<not> has_column tb c) cs) (tb_Rows tb)"
proof (induction cs arbitrary: tb)
  case (Cons cd cs)
  obtain c dflt where cd: "cd = (c, dflt)" by fastforce
  show ?case
  proof (cases "has_column tb c")
    case True
    with Cons cd show ?thesis by (simp add: add_missing_def)
  next
    case False
    let ?tb1 = "add_missing tb cd"
    have "filter (\<lambda>(c', d). \<not> has_column ?tb1 c') cs = filter (\<lambda>(c', d). \<not> has_column tb c') cs"
      using Cons.prems cd False by (intro filter_cong refl) (force simp: add_missing_def has_column_def)
    with Cons cd False show ?thesis by (simp add: add_missing_def)
  qed
qed simp

text \<open>The cells of a row after columns were added: its own, and the defaults of the rest.\<close>

lemma add_missing_cell:
  assumes "typed_row (tb_Columns tb) r"
  shows "map_of (r @ filter (\<lambda>(c, d). \<not> has_column tb c) cs) c =
    (case map_of r c of Some v \<Rightarrow> Some v | None \<Rightarrow> map_of cs c)"
proof -
  have "has_column tb c \<longleftrightarrow> map_of r c \<noteq> None"
    using typed_row_map_of [OF assms, of c] map_of_eq_None_iff [of "tb_Columns tb" c]
    by (cases "map_of r c") (simp_all add: has_column_def, metis option.distinct(1))
  then show ?thesis
    by (simp add: map_add_def map_of_filter_key [of "\<lambda>c. \<not> has_column tb c", unfolded case_prod_unfold] case_prod_unfold
        split: option.splits)
qed

subsection \<open>The single migrations\<close>

definition retire_desired :: "string \<Rightarrow> 'v table \<Rightarrow> 'v table" where
  "retire_desired global tb = tb\<lparr>tb_Rows :=
     map (map (\<lambda>(c, v). (c, if c = ''desired_version'' \<and> v = VText '''' then VText global else v))) (tb_Rows tb)\<rparr>"

definition without_key :: "string \<Rightarrow> 'v table \<Rightarrow> 'v table" where
  "without_key k tb = tb\<lparr>tb_Rows := filter (\<lambda>r. map_of r ''key'' \<noteq> Some (VText k)) (tb_Rows tb)\<rparr>"

definition settings_shape :: "'v table \<Rightarrow> bool" where
  "settings_shape tb \<longleftrightarrow> typed_table tb \<and> map_of (tb_Columns tb) ''key'' = Some TText \<and>
     map_of (tb_Columns tb) ''value'' = Some TText"

lemma retire_empty: "retire_desired '''' (tb :: 'v table) = tb"
proof -
  have "map (\<lambda>(c, v). (c, if c = ''desired_version'' \<and> v = VText '''' then VText '''' else v)) r = r"
    for r :: "'v row"
    by (induction r) auto
  then have "map (map (\<lambda>(c, v). (c, if c = ''desired_version'' \<and> v = VText '''' then VText '''' else v))) (tb_Rows tb) = tb_Rows tb"
    by (rule map_idI)
  then show ?thesis by (simp only: retire_desired_def) simp
qed

lemma map_of_has: "map_of (tb_Columns tb) c = Some t \<Longrightarrow> has_column tb c"
  by (force simp: has_column_def dest: map_of_SomeD)

lemma setting_text_None:
  assumes "settings_shape tb" "setting_text k tb = None"
  shows "without_key k tb = tb"
proof -
  have "filter (\<lambda>r. map_of r ''key'' = Some (VText k)) (tb_Rows tb) = []"
  proof (rule ccontr)
    assume "filter (\<lambda>r. map_of r ''key'' = Some (VText k)) (tb_Rows tb) \<noteq> []"
    then obtain r rs where r: "filter (\<lambda>r. map_of r ''key'' = Some (VText k)) (tb_Rows tb) = r # rs"
      by (metis list.exhaust)
    then have "r \<in> set (tb_Rows tb)" by (metis filter_is_subset list.set_intros(1) subsetD)
    with assms(1) have "typed_row (tb_Columns tb) r" by (simp add: settings_shape_def typed_table_def list_all_iff)
    from typed_row_map_of [OF this, of "''value''"] assms(1)
    have "map_option cell_type (map_of r ''value'') = Some TText" by (simp only: settings_shape_def)
    then obtain v where "map_of r ''value'' = Some v" "cell_type v = TText" by blast
    with assms(2) r show False by (auto simp: setting_text_def cell_types)
  qed
  then have "filter (\<lambda>r. map_of r ''key'' \<noteq> Some (VText k)) (tb_Rows tb) = tb_Rows tb"
    by (auto simp: filter_empty_conv filter_id_conv)
  then show ?thesis by (simp add: without_key_def)
qed

lemma on_table_run:
  "fd_faults fd = [] \<Longrightarrow> lookup fd n = Some tb \<Longrightarrow> f tb = Inr tb' \<Longrightarrow>
   stmt Driver (on_table n f) fd = (Inr (), set_table n tb' fd)"
  by (simp add: stmt_none on_table_def)

lemma desired_run:
  assumes "fd_faults fd = []" "lookup fd ''servers'' = Some srv" "has_column srv ''desired_version''"
    "lookup fd ''settings'' = Some conf" "settings_shape conf"
  shows "\<exists>fd'. migrateDesiredVersionPerServer fd = (Inr (), fd') \<and> fd_faults fd' = [] \<and>
    lookup fd' = (lookup fd)(''servers'' \<mapsto> retire_desired (case setting_text ''desired_version'' conf of None \<Rightarrow> '''' | Some g \<Rightarrow> g) srv,
      ''settings'' \<mapsto> without_key ''desired_version'' conf)"
proof -
  have cols: "has_column conf ''key''" "has_column conf ''value''" using assms(5) by (auto simp: settings_shape_def intro: map_of_has)
  have read: "stmt Driver (read_setting ''desired_version'') fd = (Inr (setting_text ''desired_version'' conf), fd)"
    using assms(1,4) cols by (simp add: stmt_none read_setting_def)
  show ?thesis
  proof (cases "setting_text ''desired_version'' conf")
    case None
    then have "migrateDesiredVersionPerServer fd = (Inr (), fd)"
      by (simp add: migrateDesiredVersionPerServer_def and_then_def read ok_def)
    with assms None show ?thesis by (simp add: retire_empty setting_text_None map_upd_triv)
  next
    case (Some g)
    let ?fd1 = "set_table ''servers'' (retire_desired g srv) fd"
    have upd: "(if g \<noteq> '''' then stmt Driver (on_table ''servers'' (update_where ''desired_version'' (VText g) (VText '''')))
        else ok ()) fd = (Inr (), ?fd1)"
    proof (cases "g = ''''")
      case True
      with assms(2) show ?thesis by (simp add: ok_def retire_empty set_table_def update_triv)
    next
      case False
      with on_table_run [OF assms(1,2), of "update_where ''desired_version'' (VText g) (VText '''')"] assms(3)
      show ?thesis by (simp add: update_where_def retire_desired_def)
    qed
    have del: "stmt Driver (on_table ''settings'' (delete_where ''key'' (VText ''desired_version''))) ?fd1 =
        (Inr (), set_table ''settings'' (without_key ''desired_version'' conf) ?fd1)"
      using assms(1,4) cols by (intro on_table_run) (auto simp: map_of_update delete_where_def without_key_def)
    have "migrateDesiredVersionPerServer fd = (Inr (), set_table ''settings'' (without_key ''desired_version'' conf) ?fd1)"
      unfolding migrateDesiredVersionPerServer_def and_then_def read using upd del Some by simp
    with assms(1) Some show ?thesis by (simp add: update_conv')
  qed
qed

definition tier_after :: "('v \<Rightarrow> int \<Rightarrow> 'v) \<Rightarrow> 'v table \<Rightarrow> 'v table" where
  "tier_after scale tb = (if has_column tb ''avg'' then rebuilt_table scale tb else tb)"

lemma rebuilt_keys:
  assumes "typed_table tb" "list_all (has_column tb) old_columns"
  shows "map (row_key rollup_key) (map (rebuilt_row scale) (tb_Rows tb)) = map (row_key rollup_key) (tb_Rows tb)"
proof -
  have "row_key rollup_key (rebuilt_row scale r) = row_key rollup_key r" if r: "r \<in> set (tb_Rows tb)" for r
  proof -
    have "typed_row (tb_Columns tb) r" using assms(1) r by (simp add: typed_table_def list_all_iff)
    then have "map_of r c \<noteq> None" if "c \<in> set rollup_key" for c
      using typed_row_map_of [of "tb_Columns tb" r c] that assms(2) map_of_eq_None_iff [of "tb_Columns tb" c]
      by (auto simp: rollup_key_def old_columns_def has_column_def)
    with rebuilt_key [of scale r] show ?thesis by blast
  qed
  then show ?thesis by simp
qed

lemma rebuild_run:
  assumes "fd_faults fd = []" "lookup fd t = Some old" "lookup fd (t @ ''_rebuilt'') = None"
    "typed_table old" "has_column old ''avg'' \<Longrightarrow> rebuilds old"
  shows "\<exists>fd'. rebuild_tier scale t fd = (Inr (), fd') \<and> fd_faults fd' = [] \<and> lookup fd' = (lookup fd)(t \<mapsto> tier_after scale old)"
proof (cases "has_column old ''avg''")
  case False
  with assms(1,2) show ?thesis by (simp add: rebuild_none tier_after_def map_upd_triv)
next
  case True
  from assms(5) [OF this] have r: "list_all (has_column old) old_columns" "distinct (map (row_key rollup_key) (tb_Rows old))"
    by (simp_all add: rebuilds_def)
  have "t @ ''_rebuilt'' \<notin> names fd" using assms(3) by (simp add: names_def map_of_eq_None_iff)
  then have "rebuild_tier scale t fd = (Inr (), swap_table t (rebuilt_table scale old) fd)"
    unfolding rebuild_none [OF assms(1)] using assms(2) True r rebuilt_keys [OF assms(4) r(1), of scale]
    by (simp del: map_map)
  moreover have "lookup (swap_table t (rebuilt_table scale old) fd) = (lookup fd)(t \<mapsto> tier_after scale old)"
    using assms(3) True by (auto simp: swap_table_def Let_def fun_eq_iff map_of_update delete_conv' tier_after_def)
  moreover have "fd_faults (swap_table t (rebuilt_table scale old) fd) = []"
    using assms(1) by (simp add: swap_table_def Let_def)
  ultimately show ?thesis by blast
qed

definition rebuildable :: "'v fdb \<Rightarrow> string \<Rightarrow> bool" where
  "rebuildable fd t \<longleftrightarrow> lookup fd (t @ ''_rebuilt'') = None \<and>
     (\<forall>old. lookup fd t = Some old \<longrightarrow> typed_table old \<and> (has_column old ''avg'' \<longrightarrow> rebuilds old))"

lemma rollups_run:
  assumes "fd_faults fd = []" "lookup fd ''rollup_1m'' = Some minutes" "lookup fd ''rollup_1h'' = Some hours"
    "lookup fd ''settings'' = Some conf" "settings_shape conf" "rebuildable fd ''rollup_1m''" "rebuildable fd ''rollup_1h''"
  shows "\<exists>fd'. migrateRollupsToSum scale fd = (Inr (), fd') \<and> fd_faults fd' = [] \<and>
    lookup fd' = (lookup fd)(''rollup_1m'' \<mapsto> tier_after scale minutes, ''rollup_1h'' \<mapsto> tier_after scale hours,
      ''samples'' := None, ''settings'' \<mapsto> without_key ''retention_raw_hours'' conf)"
proof -
  obtain fd1 where fd1: "rebuild_tier scale ''rollup_1m'' fd = (Inr (), fd1)" "fd_faults fd1 = []"
    "lookup fd1 = (lookup fd)(''rollup_1m'' \<mapsto> tier_after scale minutes)"
    using rebuild_run [OF assms(1,2)] assms(2,6) by (auto simp: rebuildable_def)
  have h: "lookup fd1 ''rollup_1h'' = Some hours" "lookup fd1 (''rollup_1h'' @ ''_rebuilt'') = None"
    using fd1(3) assms(3,7) by (simp_all add: rebuildable_def)
  obtain fd2 where fd2: "rebuild_tier scale ''rollup_1h'' fd1 = (Inr (), fd2)" "fd_faults fd2 = []"
    "lookup fd2 = (lookup fd1)(''rollup_1h'' \<mapsto> tier_after scale hours)"
    using rebuild_run [OF fd1(2) h] assms(3,7) by (auto simp: rebuildable_def)
  let ?fd3 = "fd2\<lparr>fd_indexes := filter (\<lambda>j. j \<noteq> ''idx_samples'') (fd_indexes fd2)\<rparr>"
  let ?fd4 = "?fd3\<lparr>fd_tables := AList.delete ''samples'' (fd_tables fd2)\<rparr>"
  let ?fd5 = "set_table ''settings'' (without_key ''retention_raw_hours'' conf) ?fd4"
  have s3: "stmt Driver (drop_index_if_exists ''idx_samples'') fd2 = (Inr (), ?fd3)"
    by (rule stmt_Inr [OF fd2(2)]) (simp add: drop_index_if_exists_def)
  have s4: "stmt Driver (drop_table_if_exists ''samples'') ?fd3 = (Inr (), ?fd4)"
    by (rule stmt_Inr) (simp_all add: fd2(2) drop_table_if_exists_def)
  have s5: "stmt Driver (on_table ''settings'' (delete_where ''key'' (VText ''retention_raw_hours''))) ?fd4 = (Inr (), ?fd5)"
    using assms(4,5) fd1(3) fd2(2,3)
    by (intro on_table_run) (auto simp: delete_conv' delete_where_def without_key_def settings_shape_def dest: map_of_has)
  have "migrateRollupsToSum scale fd = (Inr (), ?fd5)"
    by (simp add: migrateRollupsToSum_def and_then_def fd1(1) fd2(1) s3 s4 s5 ok_def)
  moreover have "lookup ?fd5 = (lookup fd)(''rollup_1m'' \<mapsto> tier_after scale minutes,
      ''rollup_1h'' \<mapsto> tier_after scale hours, ''samples'' := None, ''settings'' \<mapsto> without_key ''retention_raw_hours'' conf)"
    using fd1(3) fd2(3) by (auto simp: fun_eq_iff map_of_update delete_conv')
  ultimately show ?thesis using fd2(2) by auto
qed

lemma applyMigration_run:
  "fd_faults fd = [] \<Longrightarrow> run fd = (Inr (), fd') \<Longrightarrow> fd_faults fd' = [] \<Longrightarrow>
   applyMigration i run fd = (Inr (), fd'\<lparr>fd_user_version := int i + 1\<rparr>)"
  by (simp add: applyMigration_def stmt_none and_then_def)

subsection \<open>The schema of a file that lacks parts of it\<close>

definition schema_tables :: "(string \<times> 'v table) list" where
  "schema_tables =
     [(''servers'', servers_table), (''rollup_1m'', empty_table rollup_key rollup_columns),
      (''rollup_1h'', empty_table rollup_key rollup_columns), (''server_groups'', groups_table),
      (''server_group_members'', members_table), (''mother_update'', mother_table), (''settings'', settings_table)]"

definition with_table :: "string \<Rightarrow> 'v table \<Rightarrow> 'v fdb \<Rightarrow> 'v fdb" where
  "with_table n tb fd = (if n \<in> names fd then fd else set_table n tb fd)"

definition or_new :: "('a \<Rightarrow> 'b option) \<Rightarrow> ('a \<Rightarrow> 'b option) \<Rightarrow> 'a \<Rightarrow> 'b option" where
  "or_new f g x = (case f x of Some y \<Rightarrow> Some y | None \<Rightarrow> g x)"

lemma with_table_run:
  "fd_faults fd = [] \<Longrightarrow> stmt Driver (create_table_if_absent n tb) fd = (Inr (), with_table n tb fd)"
  by (simp add: stmt_none create_table_if_absent_def with_table_def names_def)

lemma lookup_with_table: "lookup (with_table n tb fd) = or_new (lookup fd) [n \<mapsto> tb]"
  using map_of_eq_None_iff [of "fd_tables fd" n]
  by (auto simp: with_table_def or_new_def fun_eq_iff map_of_update names_def split: option.splits)

lemma with_table_sel [simp]:
  "fd_faults (with_table n tb fd) = fd_faults fd" "fd_indexes (with_table n tb fd) = fd_indexes fd"
  "fd_user_version (with_table n tb fd) = fd_user_version fd"
  by (simp_all add: with_table_def)

lemma createSchema_run:
  assumes "fd_faults fd = []" "\<And>tb. lookup fd ''server_group_members'' = Some tb \<Longrightarrow> has_column tb ''server_id''"
  shows "\<exists>fd'. createSchema fd = (Inr (), fd') \<and> fd_faults fd' = [] \<and> lookup fd' = or_new (lookup fd) (map_of schema_tables)"
proof -
  let ?tier = "empty_table rollup_key rollup_columns"
  define fd5 where "fd5 = with_table ''server_group_members'' members_table (with_table ''server_groups'' groups_table
    (with_table ''rollup_1h'' ?tier (with_table ''rollup_1m'' ?tier (with_table ''servers'' servers_table fd))))"
  define i where "i = ''idx_group_members_server''"
  define fd6 where "fd6 = (if i \<in> set (fd_indexes fd5) then fd5 else fd5\<lparr>fd_indexes := fd_indexes fd5 @ [i]\<rparr>)"
  define fd8 where "fd8 = with_table ''settings'' settings_table (with_table ''mother_update'' mother_table fd6)"
  have l5: "lookup fd5 = or_new (lookup fd) (map_of (take 5 schema_tables))"
    by (auto simp: fd5_def lookup_with_table or_new_def schema_tables_def fun_eq_iff split: option.splits)
  have f5: "fd_faults fd5 = []" using assms(1) by (simp add: fd5_def)
  have "has_column members_table ''server_id''" by (simp add: members_table_def empty_table_def has_column_def)
  with assms(2) l5 obtain tb where "lookup fd5 ''server_group_members'' = Some tb" "has_column tb ''server_id''"
    by (cases "lookup fd ''server_group_members''") (auto simp: or_new_def schema_tables_def)
  then have "stmt Driver (create_index_if_absent i ''server_group_members'' ''server_id'') fd5 = (Inr (), fd6)"
    using f5 by (simp add: stmt_none create_index_if_absent_def fd6_def)
  then have "createSchema fd = (Inr (), fd8)"
    using assms(1) f5
    by (simp add: createSchema_def schema_stmts_def create_group_tables_def and_then_def with_table_run ok_def
        fd5_def [symmetric] i_def [symmetric] fd8_def) (simp add: fd6_def with_table_run and_then_def ok_def)
  moreover have "lookup fd6 = lookup fd5" "fd_faults fd6 = []" using f5 by (simp_all add: fd6_def)
  moreover from this have "lookup fd8 = or_new (lookup fd) (map_of schema_tables)"
    by (auto simp: fd8_def lookup_with_table l5 or_new_def schema_tables_def fun_eq_iff split: option.splits)
  ultimately show ?thesis by (simp add: fd8_def)
qed

subsection \<open>All six in a row\<close>

lemma step_run:
  assumes "fit fd" "fd_faults fd = []" "m \<in> set (migrations scale)" "snd m fd = (Inr (), fd1)"
  shows "\<exists>fd'. applyMigration i (snd m) fd = (Inr (), fd') \<and> fit fd' \<and> fd_faults fd' = [] \<and> lookup fd' = lookup fd1"
proof -
  have f: "fd_faults fd1 = []" "fit fd1"
    using tripleD [where P = fit and Q = "\<lambda>_. fit" and m = "snd m", OF triple_migrations [OF assms(3)] assms(4,2,1)] by auto
  then have "fit (fd1\<lparr>fd_user_version := v\<rparr>)" for v by (auto simp: fit_def has_schema_def names_def well_typed_def)
  with applyMigration_run [where run = "snd m", OF assms(2,4) f(1), of i] f(1) show ?thesis by auto
qed

definition added_first :: "(string \<times> 'v cell) list" where
  "added_first = [(''capabilities'', VText ''[]''), (''arch'', VText ''''), (''desired_version'', VText ''''),
     (''update_error'', VText '''')]"

definition added_uninstall :: "(string \<times> 'v cell) list" where
  "added_uninstall = [(''uninstall_requested_at'', VInt 0), (''uninstall_error'', VText '''')]"

definition servers_after :: "string \<Rightarrow> 'v table \<Rightarrow> 'v table" where
  "servers_after global srv =
     foldl add_missing (retire_desired global (foldl add_missing srv added_first)) added_uninstall"

text \<open>A file written by a mother that knew neither migrations nor the current schema.\<close>

definition legacy :: "'v fdb \<Rightarrow> bool" where
  "legacy fd \<longleftrightarrow> well_typed fd \<and> fd_user_version fd = 0 \<and>
     rebuildable fd ''rollup_1m'' \<and> rebuildable fd ''rollup_1h'' \<and>
     (\<forall>tb. lookup fd ''server_group_members'' = Some tb \<longrightarrow> has_column tb ''server_id'') \<and>
     (\<exists>srv. lookup fd ''servers'' = Some srv) \<and> (\<exists>conf. lookup fd ''settings'' = Some conf \<and> settings_shape conf)"

definition global_target :: "'v table \<Rightarrow> string" where
  "global_target conf = (case setting_text ''desired_version'' conf of None \<Rightarrow> '''' | Some g \<Rightarrow> g)"

lemma has_column_added: "has_column (foldl add_missing tb cs) c \<longleftrightarrow> has_column tb c \<or> c \<in> fst ` set cs"
  by (induction cs arbitrary: tb) (auto simp: add_missing_def has_column_def)

lemma legacy_tier:
  assumes r: "rebuildable fd t" and t: "t \<in> {''rollup_1m'', ''rollup_1h''}"
    and s: "lookup s = or_new (lookup fd) (map_of schema_tables)"
  shows "\<exists>tb. lookup s t = Some tb \<and> rebuildable s t \<and> (\<forall>old. lookup fd t = Some old \<longrightarrow> tb = old)"
proof -
  have new: "map_of schema_tables t = Some (empty_table rollup_key rollup_columns)" "map_of schema_tables (t @ ''_rebuilt'') = None"
    using t by (auto simp: schema_tables_def)
  have "typed_table (empty_table rollup_key rollup_columns) \<and> \<not> has_column (empty_table rollup_key rollup_columns) ''avg''"
    by (simp add: schema_tables_typed) (simp add: empty_table_def has_column_def rollup_columns_def)
  with r new show ?thesis
    by (cases "lookup fd t") (auto simp: s or_new_def [of "lookup fd"] rebuildable_def)
qed

lemma upgrade_first_half:
  assumes fit: "fit s" and faults: "fd_faults s = []"
    and ls: "lookup s ''servers'' = Some srv" "lookup s ''settings'' = Some conf" and shape: "settings_shape conf"
    and tiers: "lookup s ''rollup_1m'' = Some minutes" "lookup s ''rollup_1h'' = Some hours"
      "rebuildable s ''rollup_1m''" "rebuildable s ''rollup_1h''"
  obtains b1 b2 b3 where "applyMigration 0 migrate_server_columns s = (Inr (), b1)"
    "applyMigration 1 migrateDesiredVersionPerServer b1 = (Inr (), b2)"
    "applyMigration 2 (migrateRollupsToSum scale) b2 = (Inr (), b3)" "fit b3" "fd_faults b3 = []"
    "lookup b3 = (lookup s)(''servers'' \<mapsto> retire_desired (global_target conf) (foldl add_missing srv added_first),
      ''rollup_1m'' \<mapsto> tier_after scale minutes, ''rollup_1h'' \<mapsto> tier_after scale hours,
      ''samples'' := None, ''settings'' \<mapsto> without_key ''retention_raw_hours'' (without_key ''desired_version'' conf))"
proof -
  note mem = migrations_def [of scale]
  obtain a1 where a1: "addColumns ''servers'' added_first s = (Inr (), a1)"
    "lookup a1 = (lookup s)(''servers'' \<mapsto> foldl add_missing srv added_first)"
    using addColumns_run [OF faults ls(1)] by blast
  obtain b1 where b1: "applyMigration 0 migrate_server_columns s = (Inr (), b1)" "fit b1" "fd_faults b1 = []" "lookup b1 = lookup a1"
    using step_run [OF fit faults, of "migrations scale ! 0" scale a1 0] a1(1)
    by (auto simp: mem migrate_server_columns_def added_first_def)
  obtain a2 where a2: "migrateDesiredVersionPerServer b1 = (Inr (), a2)"
    "lookup a2 = (lookup b1)(''servers'' \<mapsto> retire_desired (global_target conf) (foldl add_missing srv added_first),
      ''settings'' \<mapsto> without_key ''desired_version'' conf)"
  proof -
    have "has_column (foldl add_missing srv added_first) ''desired_version''"
      unfolding has_column_added by (simp add: added_first_def)
    with desired_run [OF b1(3), of "foldl add_missing srv added_first" conf] b1(4) a1(2) ls(2) shape that
    show thesis unfolding global_target_def by auto
  qed
  obtain b2 where b2: "applyMigration 1 migrateDesiredVersionPerServer b1 = (Inr (), b2)" "fit b2" "fd_faults b2 = []" "lookup b2 = lookup a2"
    using step_run [OF b1(2,3), of "migrations scale ! 1" scale a2 1] a2(1) by (auto simp: mem)
  have l2: "lookup b2 = (lookup s)(''servers'' \<mapsto> retire_desired (global_target conf) (foldl add_missing srv added_first),
      ''settings'' \<mapsto> without_key ''desired_version'' conf)"
    using b2(4) a2(2) b1(4) a1(2) by auto
  have "settings_shape (without_key k conf)" for k
    using shape by (auto simp: settings_shape_def without_key_def typed_table_def list_all_iff)
  then obtain a3 where a3: "migrateRollupsToSum scale b2 = (Inr (), a3)"
    "lookup a3 = (lookup b2)(''rollup_1m'' \<mapsto> tier_after scale minutes, ''rollup_1h'' \<mapsto> tier_after scale hours,
      ''samples'' := None, ''settings'' \<mapsto> without_key ''retention_raw_hours'' (without_key ''desired_version'' conf))"
    using rollups_run [OF b2(3), of minutes hours "without_key ''desired_version'' conf" scale] l2 tiers(1-4)
    by (auto simp: rebuildable_def)
  obtain b3 where b3: "applyMigration 2 (migrateRollupsToSum scale) b2 = (Inr (), b3)" "fit b3" "fd_faults b3 = []" "lookup b3 = lookup a3"
    using step_run [OF b2(2,3), of "migrations scale ! 2" scale a3 2] a3(1) by (auto simp: mem)
  have "lookup b3 = (lookup s)(''servers'' \<mapsto> retire_desired (global_target conf) (foldl add_missing srv added_first),
      ''rollup_1m'' \<mapsto> tier_after scale minutes, ''rollup_1h'' \<mapsto> tier_after scale hours,
      ''samples'' := None, ''settings'' \<mapsto> without_key ''retention_raw_hours'' (without_key ''desired_version'' conf))"
    using b3(4) a3(2) l2 by auto
  with b1(1) b2(1) b3(1-3) show thesis by (rule that)
qed

lemma upgrade_second_half:
  assumes b3: "fit b3" "fd_faults b3 = []" and srv: "lookup b3 ''servers'' = Some srv"
  obtains b4 b5 b6 where "applyMigration 3 (each (stmt Driver) create_group_tables) b3 = (Inr (), b4)"
    "applyMigration 4 migrate_uninstall_columns b4 = (Inr (), b5)"
    "applyMigration 5 (stmt Driver (create_table_if_absent ''mother_update'' mother_table)) b5 = (Inr (), b6)"
    "fit b6" "fd_faults b6 = []" "lookup b6 = (lookup b3)(''servers'' \<mapsto> foldl add_missing srv added_uninstall)"
proof -
  note mem = migrations_def
  have "each (stmt Driver) create_group_tables b3 = (Inr (), b3)"
    by (rule schema_noop) (use b3 in \<open>auto simp: fit_def schema_stmts_def\<close>)
  then obtain b4 where b4: "applyMigration 3 (each (stmt Driver) create_group_tables) b3 = (Inr (), b4)" "fit b4"
    "fd_faults b4 = []" "lookup b4 = lookup b3"
    using step_run [OF b3, of "migrations scale ! 3" scale b3 3] by (auto simp: mem)
  have l4: "lookup b4 ''servers'' = Some srv" using b4(4) srv by simp
  obtain a5 where a5: "addColumns ''servers'' added_uninstall b4 = (Inr (), a5)"
    "lookup a5 = (lookup b4)(''servers'' \<mapsto> foldl add_missing srv added_uninstall)"
    using addColumns_run [OF b4(3) l4] by blast
  obtain b5 where b5: "applyMigration 4 migrate_uninstall_columns b4 = (Inr (), b5)" "fit b5" "fd_faults b5 = []" "lookup b5 = lookup a5"
    using step_run [OF b4(2,3), of "migrations scale ! 4" scale a5 4] a5(1)
    by (auto simp: mem migrate_uninstall_columns_def added_uninstall_def)
  have "''mother_update'' \<in> names b5" using b5(2) by (simp add: fit_def has_schema_def schema_names_def)
  then have "stmt Driver (create_table_if_absent ''mother_update'' mother_table) b5 = (Inr (), b5)"
    using with_table_run [OF b5(3)] by (simp add: with_table_def)
  then obtain b6 where b6: "applyMigration 5 (stmt Driver (create_table_if_absent ''mother_update'' mother_table)) b5 = (Inr (), b6)"
    "fit b6" "fd_faults b6 = []" "lookup b6 = lookup b5"
    using step_run [OF b5(2,3), of "migrations scale ! 5" scale b5 5] by (auto simp: mem)
  have "lookup b6 = (lookup b3)(''servers'' \<mapsto> foldl add_missing srv added_uninstall)"
    using b6(4) b5(4) a5(2) b4(4) by simp
  with b4(1) b5(1) b6(1-3) show thesis by (rule that)
qed

lemma legacy_upgrade:
  assumes "legacy fd" "fd_faults fd = []" "wal mode" "lookup fd ''servers'' = Some srv" "lookup fd ''settings'' = Some conf"
  shows "\<exists>fd'. Open scale mode fd = Some (Inr 6, fd') \<and> fit fd' \<and> fd_user_version fd' = 6 \<and>
    lookup fd' ''servers'' = Some (servers_after (global_target conf) srv) \<and>
    lookup fd' ''settings'' = Some (without_key ''retention_raw_hours'' (without_key ''desired_version'' conf)) \<and>
    (\<forall>t \<in> {''rollup_1m'', ''rollup_1h''}. \<forall>old. lookup fd t = Some old \<longrightarrow> lookup fd' t = Some (tier_after scale old)) \<and>
    (\<forall>n. n \<notin> {''servers'', ''settings'', ''rollup_1m'', ''rollup_1h'', ''samples''} \<longrightarrow>
       lookup fd' n = or_new (lookup fd) (map_of schema_tables) n) \<and>
    lookup fd' ''samples'' = None \<and> fd_faults fd' = []"
proof -
  have typed: "well_typed fd" and v: "fd_user_version fd = 0"
    and shape: "settings_shape conf" using assms(1,5) by (auto simp: legacy_def)
  obtain s where s: "createSchema fd = (Inr (), s)" "fd_faults s = []" "lookup s = or_new (lookup fd) (map_of schema_tables)"
    using createSchema_run [OF assms(2)] assms(1) by (auto simp: legacy_def)
  have fit: "fit s" by (rule createSchema_fit [OF typed assms(2) s(1)])
  have ls: "lookup s ''servers'' = Some srv" "lookup s ''settings'' = Some conf"
    using assms(4,5) s(3) by (simp_all add: or_new_def)
  have r: "rebuildable fd ''rollup_1m''" "rebuildable fd ''rollup_1h''" using assms(1) by (simp_all add: legacy_def)
  obtain minutes hours where tiers: "lookup s ''rollup_1m'' = Some minutes" "lookup s ''rollup_1h'' = Some hours"
    "rebuildable s ''rollup_1m''" "rebuildable s ''rollup_1h''"
    "\<forall>old. lookup fd ''rollup_1m'' = Some old \<longrightarrow> minutes = old" "\<forall>old. lookup fd ''rollup_1h'' = Some old \<longrightarrow> hours = old"
    using legacy_tier [OF r(1) _ s(3)] legacy_tier [OF r(2) _ s(3)] by auto
  obtain b1 b2 b3 where b123: "applyMigration 0 migrate_server_columns s = (Inr (), b1)"
    "applyMigration 1 migrateDesiredVersionPerServer b1 = (Inr (), b2)"
    "applyMigration 2 (migrateRollupsToSum scale) b2 = (Inr (), b3)" "fit b3" "fd_faults b3 = []"
    "lookup b3 = (lookup s)(''servers'' \<mapsto> retire_desired (global_target conf) (foldl add_missing srv added_first),
      ''rollup_1m'' \<mapsto> tier_after scale minutes, ''rollup_1h'' \<mapsto> tier_after scale hours,
      ''samples'' := None, ''settings'' \<mapsto> without_key ''retention_raw_hours'' (without_key ''desired_version'' conf))"
    by (rule upgrade_first_half [OF fit s(2) ls shape tiers(1-4), of scale])
  have l3: "lookup b3 ''servers'' = Some (retire_desired (global_target conf) (foldl add_missing srv added_first))"
    by (simp add: b123(6))
  obtain b4 b5 b6 where b456: "applyMigration 3 (each (stmt Driver) create_group_tables) b3 = (Inr (), b4)"
    "applyMigration 4 migrate_uninstall_columns b4 = (Inr (), b5)"
    "applyMigration 5 (stmt Driver (create_table_if_absent ''mother_update'' mother_table)) b5 = (Inr (), b6)"
    "fit b6" "fd_faults b6 = []"
    "lookup b6 = (lookup b3)(''servers'' \<mapsto>
      foldl add_missing (retire_desired (global_target conf) (foldl add_missing srv added_first)) added_uninstall)"
    by (rule upgrade_second_half [OF b123(4,5) l3])
  have loop: "migrate_from 0 (migrations scale) 0 s = ((6, None), b6)"
    using b123(1-3) b456(1-3) by (simp add: migrations_def eval_nat_numeral)
  then have "Open scale mode fd = Some (Inr 6, b6)"
    using Open_clean [OF typed assms(2), of scale mode 6 b6] assms(3) v s(1) by (simp add: migrations_def)
  moreover have "fd_user_version b6 = 6"
    using migrate_from_version [where i = 0 and n = 0 and k = 6, unfolded add_0, OF loop] by (simp add: migrations_def)
  moreover have "lookup b6 = (lookup s)(''rollup_1m'' \<mapsto> tier_after scale minutes, ''rollup_1h'' \<mapsto> tier_after scale hours,
      ''samples'' := None, ''settings'' \<mapsto> without_key ''retention_raw_hours'' (without_key ''desired_version'' conf),
      ''servers'' \<mapsto> servers_after (global_target conf) srv)"
    by (auto simp: b456(6) b123(6) servers_after_def fun_eq_iff)
  ultimately show ?thesis using b456(4,5) s(3) tiers(5,6) by (intro exI [of _ b6]) simp
qed

text \<open>What an upgraded row of \<open>servers\<close> holds, cell by cell.\<close>

definition upgraded_cell :: "string \<Rightarrow> 'v row \<Rightarrow> string \<Rightarrow> 'v cell option" where
  "upgraded_cell global r c =
     (let old = (case map_of r c of Some v \<Rightarrow> Some v | None \<Rightarrow> map_of (added_first @ added_uninstall) c) in
      if c = ''desired_version'' \<and> old = Some (VText '''') then Some (VText global) else old)"

definition row_after :: "string \<Rightarrow> 'v table \<Rightarrow> 'v row \<Rightarrow> 'v row" where
  "row_after global srv r =
     map (\<lambda>(c, v). (c, if c = ''desired_version'' \<and> v = VText '''' then VText global else v))
       (r @ filter (\<lambda>(c, d). \<not> has_column srv c) added_first) @ filter (\<lambda>(c, d). \<not> has_column srv c) added_uninstall"

lemma servers_after_rows:
  fixes srv :: "'v table"
  shows "tb_Rows (servers_after global srv) = map (row_after global srv) (tb_Rows srv)"
proof -
  have d: "distinct (map fst (added_first :: (string \<times> 'v cell) list))" "distinct (map fst (added_uninstall :: (string \<times> 'v cell) list))"
    by (simp_all add: added_first_def added_uninstall_def)
  let ?mid = "retire_desired global (foldl add_missing srv added_first)"
  have "has_column ?mid c \<longleftrightarrow> has_column srv c \<or> c \<in> fst ` set (added_first :: (string \<times> 'v cell) list)" for c
    using has_column_added [of srv added_first c] by (simp add: has_column_def retire_desired_def)
  then have "filter (\<lambda>(c, d). \<not> has_column ?mid c) (added_uninstall :: (string \<times> 'v cell) list) =
      filter (\<lambda>(c, d). \<not> has_column srv c) added_uninstall"
    by (intro filter_cong refl) (auto simp: added_first_def added_uninstall_def)
  then have "tb_Rows (servers_after global srv) =
      map (\<lambda>r. r @ filter (\<lambda>(c, d). \<not> has_column srv c) added_uninstall) (tb_Rows ?mid)"
    using add_missing_all [OF d(2), of ?mid] by (simp only: servers_after_def)
  moreover have "tb_Rows ?mid =
      map (\<lambda>r. map (\<lambda>(c, v). (c, if c = ''desired_version'' \<and> v = VText '''' then VText global else v))
        (r @ filter (\<lambda>(c, d). \<not> has_column srv c) added_first)) (tb_Rows srv)"
    using add_missing_all [OF d(1), of srv] by (simp add: retire_desired_def)
  ultimately show ?thesis by (simp add: row_after_def)
qed

lemma map_of_map_cells: "map_of (map (\<lambda>(c, v). (c, f c v)) r) c = map_option (f c) (map_of r c)"
  by (induction r) auto

lemma row_after_cell:
  fixes r :: "'v row"
  assumes "typed_row (tb_Columns srv) r"
  shows "map_of (row_after global srv r) c = upgraded_cell global r c"
proof -
  define A where "A = map_of (r @ filter (\<lambda>(c, d). \<not> has_column srv c) added_first) c"
  define B where "B = map_of (filter (\<lambda>(c, d). \<not> has_column srv c) (added_uninstall :: 'v row)) c"
  have "A = (case map_of r c of Some v \<Rightarrow> Some v | None \<Rightarrow> map_of added_first c)"
    unfolding A_def by (rule add_missing_cell [OF assms])
  moreover have "map_of (r @ filter (\<lambda>(c, d). \<not> has_column srv c) added_uninstall) c =
      (case map_of r c of Some v \<Rightarrow> Some v | None \<Rightarrow> map_of added_uninstall c)"
    by (rule add_missing_cell [OF assms])
  then have "B = map_of added_uninstall c \<or> map_of r c \<noteq> None"
    by (auto simp: B_def map_add_def split: option.splits)
  moreover have "map_of (added_first :: 'v row) c = None \<Longrightarrow> c \<noteq> ''desired_version''" by (auto simp: added_first_def)
  moreover have "map_of (row_after global srv r) c =
      (case A of Some v \<Rightarrow> Some (if c = ''desired_version'' \<and> v = VText '''' then VText global else v) | None \<Rightarrow> B)"
    unfolding row_after_def A_def B_def map_of_append map_add_def map_of_map_cells by (simp split: option.splits)
  ultimately show ?thesis
    by (cases "map_of r c"; cases "map_of (added_first :: 'v row) c") (auto simp: upgraded_cell_def Let_def map_add_def)
qed

section \<open>Properties\<close>

text \<open>
  C35. Opening the file of a mother that predates migrations succeeds when nothing fails, runs all six
  of them once, and loses nothing: every server keeps every cell, gets the defaults of the columns
  it lacked, and has the retired fleet-wide target where it had none of its own; every bucket of
  both tiers keeps its key, extremes and count and has \<open>avg * cnt\<close> for its sum; the raw tier and
  the two retired settings are gone, every other setting stays, and every other table is as it was.
\<close>

theorem Open_upgrades:
  assumes "legacy fd" and "fd_faults fd = []" and "mode = ''wal'' \<or> mode = ''memory''"
    and "lookup fd ''servers'' = Some srv" and "lookup fd ''settings'' = Some conf"
  shows "\<exists>fd'. Open scale mode fd = Some (Inr 6, fd') \<and> fd_user_version fd' = 6 \<and> has_schema fd' \<and>
    (\<exists>srv'. lookup fd' ''servers'' = Some srv' \<and> length (tb_Rows srv') = length (tb_Rows srv) \<and>
       (\<forall>i < length (tb_Rows srv). \<forall>c. map_of (tb_Rows srv' ! i) c = upgraded_cell (global_target conf) (tb_Rows srv ! i) c)) \<and>
    (\<forall>t old. t \<in> {''rollup_1m'', ''rollup_1h''} \<longrightarrow> lookup fd t = Some old \<longrightarrow> has_column old ''avg'' \<longrightarrow>
       (\<exists>new. lookup fd' t = Some new \<and> tb_Columns new = rollup_columns \<and>
          tb_Rows new = map (rebuilt_row scale) (tb_Rows old))) \<and>
    (\<exists>conf'. lookup fd' ''settings'' = Some conf' \<and>
       tb_Rows conf' = filter (\<lambda>r. map_of r ''key'' \<notin> {Some (VText ''desired_version''), Some (VText ''retention_raw_hours'')}) (tb_Rows conf)) \<and>
    lookup fd' ''samples'' = None \<and>
    (\<forall>n tb. n \<notin> {''servers'', ''settings'', ''rollup_1m'', ''rollup_1h'', ''samples''} \<longrightarrow> lookup fd n = Some tb \<longrightarrow>
       lookup fd' n = Some tb)"
proof -
  from assms(3) have "wal mode" by (simp add: wal_def)
  from legacy_upgrade [OF assms(1,2) this assms(4,5), of scale] obtain fd' where fd': "Open scale mode fd = Some (Inr 6, fd')"
    "fit fd'" "fd_user_version fd' = 6" "lookup fd' ''servers'' = Some (servers_after (global_target conf) srv)"
    "lookup fd' ''settings'' = Some (without_key ''retention_raw_hours'' (without_key ''desired_version'' conf))"
    "\<forall>t \<in> {''rollup_1m'', ''rollup_1h''}. \<forall>old. lookup fd t = Some old \<longrightarrow> lookup fd' t = Some (tier_after scale old)"
    "\<forall>n. n \<notin> {''servers'', ''settings'', ''rollup_1m'', ''rollup_1h'', ''samples''} \<longrightarrow>
       lookup fd' n = or_new (lookup fd) (map_of schema_tables) n" "lookup fd' ''samples'' = None" by (elim exE conjE) (rule that)
  have "typed_row (tb_Columns srv) r" if "r \<in> set (tb_Rows srv)" for r
    using assms(1,4) that by (auto simp: legacy_def well_typed_def typed_table_def list_all_iff)
  then have "\<forall>i < length (tb_Rows srv). \<forall>c.
      map_of (tb_Rows (servers_after (global_target conf) srv) ! i) c = upgraded_cell (global_target conf) (tb_Rows srv ! i) c"
    by (simp add: servers_after_rows row_after_cell)
  moreover have "tb_Rows (without_key ''retention_raw_hours'' (without_key ''desired_version'' conf)) =
      filter (\<lambda>r. map_of r ''key'' \<notin> {Some (VText ''desired_version''), Some (VText ''retention_raw_hours'')}) (tb_Rows conf)"
    by (simp add: without_key_def conj_commute)
  moreover have "has_schema fd'" using fd'(2) by (simp add: fit_def)
  moreover have "lookup fd' t = Some (rebuilt_table scale old)"
    if "t \<in> {''rollup_1m'', ''rollup_1h''}" "lookup fd t = Some old" "has_column old ''avg''" for t old
    using fd'(6) that by (auto simp: tier_after_def)
  ultimately show ?thesis using fd'(1,3-5,7,8)
    by (intro exI [of _ fd']) (simp add: servers_after_rows rebuilt_table_def or_new_def)
qed

lemma Open_None:
  assumes "Open scale mode fd = None"
  shows "fd_user_version fd < 0"
proof -
  have pre: "and_then (stmt Driver (\<lambda>fd. Inr ((), fd))) (\<lambda>_. and_then (applyPragmas mode) (\<lambda>_. createSchema)) fd \<noteq> (Inl e, x)" for e x
    using assms by (auto simp: Open_def)
  obtain fda u where a: "stmt Driver (\<lambda>fd. Inr ((), fd)) fd = (Inr u, fda)"
    using pre by (cases "stmt Driver (\<lambda>fd. Inr ((), fd)) fd"; cases "fst (stmt Driver (\<lambda>fd. Inr ((), fd)) fd)")
      (auto simp: and_then_def)
  have rest: "and_then (applyPragmas mode) (\<lambda>_. createSchema) fda \<noteq> (Inl e, x)" for e x
    using pre a by (simp add: and_then_def)
  obtain fdb v where b: "applyPragmas mode fda = (Inr v, fdb)"
    using rest by (cases "applyPragmas mode fda"; cases "fst (applyPragmas mode fda)") (auto simp: and_then_def)
  obtain fdc w where c: "createSchema fdb = (Inr w, fdc)"
    using rest b by (cases "createSchema fdb"; cases "fst (createSchema fdb)") (auto simp: and_then_def)
  obtain r fdd where d: "stmt ReadUserVersion (\<lambda>fd. Inr (fd_user_version fd, fd)) fdc = (r, fdd)" by fastforce
  have "r = Inr n \<Longrightarrow> n = fd_user_version fd" for n
    using look [OF pure_stmts(14) d] look(1) [OF pure_stmts(1) a] applyPragmas_clean(1) [OF b] createSchema_version [OF c]
    by (metis clean_simps(4))
  with assms a b c d show ?thesis
    by (auto simp: Open_def and_then_def migrate_def split: sum.splits prod.splits option.splits if_splits)
qed

text \<open>An attempt to open the file, with the outcome of every statement it runs.\<close>

definition attempt :: "('v \<Rightarrow> int \<Rightarrow> 'v) \<Rightarrow> string \<Rightarrow> 'v fdb \<Rightarrow> string option list \<Rightarrow> 'v fdb" where
  "attempt scale mode fd fs =
     (case Open scale mode (fd\<lparr>fd_faults := fs\<rparr>) of None \<Rightarrow> fd | Some (r, fd') \<Rightarrow> clean fd')"

text \<open>
  C36. Starting always comes to an end: however many starts are interrupted, each at any statement,
  the next one that is not ends with the very file one undisturbed start would have produced, and
  it runs exactly the migrations that are left, each of the six having been committed once. No
  attempt leaves a migration half done. The messages of the faults are not the one message the
  code takes for a success.
\<close>

theorem Open_resumes:
  assumes "well_typed fd" and "fd_faults fd = []" and "Open scale mode fd = Some (Inr n, final)"
    and "\<forall>fs \<in> set attempts. \<forall>e. Some e \<in> set fs \<longrightarrow> \<not> Contains e ''duplicate column name''"
  shows "\<exists>left. Open scale mode (foldl (attempt scale mode) fd attempts) = Some (Inr left, final) \<and>
    fd_user_version (foldl (attempt scale mode) fd attempts) + int left = fd_user_version fd + int n"
  using assms
proof (induction attempts arbitrary: fd n)
  case (Cons fs attempts)
  let ?fd = "fd\<lparr>fd_faults := fs\<rparr>"
  have pre: "well_typed ?fd" "sane ?fd" "clean ?fd = fd" "fd_user_version ?fd = fd_user_version fd"
    using Cons.prems by (auto simp: well_typed_def sane_def clean_def)
  have "0 \<le> fd_user_version fd" using Cons.prems(3) Open_clean [OF Cons.prems(1,2)] by blast
  then have "Open scale mode ?fd \<noteq> None"
    using Open_None [of scale mode ?fd] pre(4) by fastforce
  then obtain r fd' where run: "Open scale mode ?fd = Some (r, fd')" by fastforce
  have good: "Open scale mode (clean ?fd) = Some (Inr n, final)" unfolding pre(3) by (rule Cons.prems(3))
  from Open_attempt [OF pre(1,2) good run] pre(4)
  obtain n' where "well_typed (clean fd')" "Open scale mode (clean fd') = Some (Inr n', final)"
    "fd_user_version (clean fd') + int n' = fd_user_version fd + int n" by auto
  with Cons.IH [of "clean fd'" n'] Cons.prems(4) run show ?case by (auto simp: attempt_def)
qed auto

text \<open>
  C37. Every cell has the type its column declares: whatever fails on the way, opening a well typed
  file leaves a well typed file.
\<close>

theorem Open_well_typed:
  assumes "well_typed fd" and "Open scale mode fd = Some (r, fd')"
    and "\<forall>e. Some e \<in> set (fd_faults fd) \<longrightarrow> \<not> Contains e ''duplicate column name''"
  shows "well_typed fd'"
proof -
  have sane: "sane fd" using assms(3) by (simp add: sane_def)
  have swap: "well_typed (clean g) = well_typed g" for g :: "'a fdb" by (simp add: well_typed_def)
  show ?thesis
    using assms(2) sane
  proof (cases rule: Open_cases)
    case early
    then have "well_typed (clean fd')" by (simp only: swap assms(1))
    then show ?thesis by (simp only: swap)
  next
    case (schema fd0 r0)
    have "well_typed (clean fd0)" by (simp only: schema(1) swap assms(1))
    from each_typed [OF order_refl schema(3) [unfolded createSchema_def] this] show ?thesis by (simp only: swap)
  next
    case (version fd0 fd1)
    have "well_typed (clean fd0)" by (simp only: version(1) swap assms(1))
    from each_typed [OF order_refl version(3) [unfolded createSchema_def] this] have "well_typed (clean fd')"
      by (simp only: version(4))
    then show ?thesis by (simp only: swap)
  next
    case (migrated fd0 fd1 k)
    have "well_typed (clean fd0)" by (simp only: migrated(1) swap assms(1))
    moreover have "createSchema (clean fd0) = (Inr (), clean fd1)"
      using faithfulD [OF faithful_createSchema migrated(3,2)] .
    ultimately have "fit (clean fd1)" by (rule createSchema_fit(1) [OF _ clean_simps(5)])
    from migrate_from_fit [OF _ this clean_simps(5) migrated(6)] have "fit (clean fd')"
      using left_over_sound by (blast dest: in_set_takeD)
    then show ?thesis by (simp only: fit_def swap)
  qed
qed

section \<open>Witnesses\<close>

text \<open>A file of the first release: one server, one bucket of the old shape, a fleet-wide target.\<close>

definition first_release :: "int fdb" where
  "first_release = \<lparr>fd_user_version = 0,
     fd_tables =
       [(''servers'', \<lparr>tb_Columns = [(''id'', TInt), (''name'', TText)], tb_Key = [''id''],
           tb_Rows = [[(''id'', VInt 1), (''name'', VText ''db-1'')]]\<rparr>),
        (''rollup_1m'', \<lparr>tb_Columns = [(''server_id'', TInt), (''metric'', TText), (''window_start'', TInt),
             (''min'', TReal), (''max'', TReal), (''avg'', TReal), (''cnt'', TInt)], tb_Key = rollup_key,
           tb_Rows = [[(''server_id'', VInt 1), (''metric'', VText ''cpu''), (''window_start'', VInt 60),
             (''min'', VReal 1), (''max'', VReal 5), (''avg'', VReal 3), (''cnt'', VInt 2)]]\<rparr>),
        (''settings'', \<lparr>tb_Columns = [(''key'', TText), (''value'', TText)], tb_Key = [''key''],
           tb_Rows = [[(''key'', VText ''desired_version''), (''value'', VText ''v2'')],
             [(''key'', VText ''interval''), (''value'', VText ''10'')]]\<rparr>)],
     fd_indexes = [], fd_faults = []\<rparr>"

lemma first_release_legacy: "legacy first_release" "fd_faults first_release = []"
  by (auto simp: legacy_def first_release_def well_typed_def typed_table_def typed_row_def tier_shape_def
      rollup_columns_def rebuildable_def rebuilds_def has_column_def old_columns_def rollup_key_def row_key_def
      settings_shape_def split: if_splits)

lemma Open_upgrades_witness:
  "\<exists>fd' new. Open (\<lambda>x n. x * n) ''wal'' first_release = Some (Inr 6, fd') \<and> fd_user_version fd' = 6 \<and>
     lookup fd' ''rollup_1m'' = Some new \<and>
     tb_Rows new = [[(''server_id'', VInt 1), (''metric'', VText ''cpu''), (''window_start'', VInt 60),
       (''min'', VReal 1), (''max'', VReal 5), (''sum'', VReal 6), (''cnt'', VInt 2)]]"
proof -
  define old where "old = snd (fd_tables first_release ! 1)"
  have l: "lookup first_release ''servers'' = Some (snd (fd_tables first_release ! 0))"
    "lookup first_release ''settings'' = Some (snd (fd_tables first_release ! 2))"
    "lookup first_release ''rollup_1m'' = Some old" "has_column old ''avg''"
    by (simp_all add: first_release_def old_def has_column_def)
  have "map (rebuilt_row (\<lambda>x n. x * n)) (tb_Rows old) =
      [[(''server_id'', VInt 1), (''metric'', VText ''cpu''), (''window_start'', VInt 60),
       (''min'', VReal 1), (''max'', VReal 5), (''sum'', VReal 6), (''cnt'', VInt 2)]]"
    by (simp add: old_def first_release_def rebuilt_row_def rollup_columns_def)
  with Open_upgrades [OF first_release_legacy _ l(1,2), of "''wal''" "\<lambda>x n. x * n"] l(3,4) show ?thesis
    by (metis insertI1)
qed

text \<open>Two starts of that file fail, one in the schema and one inside a migration; the third ends well.\<close>

definition failed_starts :: "string option list list" where
  "failed_starts = [[None, None, None, None, Some ''disk I/O error''],
     replicate 14 None @ [Some ''disk I/O error'']]"

lemma Open_resumes_witness:
  "\<exists>left final. Open (\<lambda>x n. x * n) ''wal'' first_release = Some (Inr 6, final) \<and>
     Open (\<lambda>x n. x * n) ''wal'' (foldl (attempt (\<lambda>x n. x * n) ''wal'') first_release failed_starts) = Some (Inr left, final)"
proof -
  have "well_typed first_release" using first_release_legacy(1) by (simp add: legacy_def)
  moreover obtain final where f: "Open (\<lambda>x n. x * n) ''wal'' first_release = Some (Inr 6, final)"
  proof -
    have "lookup first_release ''servers'' = Some (snd (fd_tables first_release ! 0))"
      "lookup first_release ''settings'' = Some (snd (fd_tables first_release ! 2))"
      by (simp_all add: first_release_def)
    from legacy_upgrade [OF first_release_legacy _ this, of "''wal''" "\<lambda>x n. x * n"] that show thesis
      by (auto simp: wal_def)
  qed
  moreover have "\<forall>fs \<in> set failed_starts. \<forall>e. Some e \<in> set fs \<longrightarrow> \<not> Contains e ''duplicate column name''"
    by (auto simp: failed_starts_def HasPrefix_def)
  ultimately show ?thesis using Open_resumes [OF _ first_release_legacy(2), of "\<lambda>x n. x * n" "''wal''" 6 final failed_starts]
    by blast
qed

lemma Open_well_typed_witness:
  "\<exists>r fd'. Open (\<lambda>x n. x * n) ''delete'' first_release = Some (r, fd') \<and> well_typed fd'"
proof -
  have "well_typed first_release" using first_release_legacy(1) by (simp add: legacy_def)
  moreover obtain r fd' where "Open (\<lambda>x n. x * n) ''delete'' first_release = Some (r, fd')"
    using Open_None [of "\<lambda>x n. x * n" "''delete''" first_release] by (fastforce simp: first_release_def)
  ultimately show ?thesis using Open_well_typed [of first_release] first_release_legacy(2) by fastforce
qed

end
