(* ===== verification/Mother_Config.thy ===== *)
theory Mother_Config
  imports Agent_Config API_Servers
begin

text \<open>
  What the mother reads before it serves: its environment file (\<open>mother/envfile.go\<close>), the URL it
  hands out (\<open>mother/publicurl.go\<close>) and the command \<open>feast-watch generate\<close> (\<open>mother/generate.go\<close>).
  The process environment is an association list. \<open>net/url\<close> is the parameter \<open>parse_url\<close>, as for the
  agent, here with the text \<open>String\<close> gives back.
\<close>

section \<open>The environment\<close>

type_synonym environment = "(string \<times> string) list"

definition Getenv :: "environment \<Rightarrow> string \<Rightarrow> string" where
  "Getenv env k = (case map_of env k of None \<Rightarrow> '''' | Some v \<Rightarrow> v)"

text \<open>\<open>os.Setenv\<close> refuses an empty key, a key with \<open>=\<close> or a zero byte, and a value with a zero byte.\<close>

definition NUL :: char where "NUL = char_of (0 :: nat)"

definition Setenv :: "string \<Rightarrow> string \<Rightarrow> environment \<Rightarrow> string + environment" where
  "Setenv k v env =
     (if k = '''' \<or> CHR ''='' \<in> set k \<or> NUL \<in> set k \<or> NUL \<in> set v then Inl ''setenv: invalid argument''
      else Inr (AList.update k v env))"

datatype env_file = NoFile | CannotOpen string | Contents string "string option"

datatype env_error =
    EnvOpen string
  | NotKeyValue string nat string
  | NoKey string nat
  | SetFailed string
  | EnvScan string

definition DefaultEnvFile :: string where "DefaultEnvFile = ''/etc/feast-watch/mother.env''"

definition double_quote :: char where "double_quote = char_of (34 :: nat)"
definition single_quote :: char where "single_quote = char_of (39 :: nat)"

definition unquote :: "string \<Rightarrow> string" where
  "unquote v =
     (if length v \<ge> 2 \<and> (v ! 0 = double_quote \<or> v ! 0 = single_quote) \<and> v ! (length v - 1) = v ! 0
      then take (length v - 2) (drop 1 v) else v)"

fun load_lines :: "string \<Rightarrow> nat \<Rightarrow> string list \<Rightarrow> environment \<Rightarrow> env_error option \<times> environment" where
  "load_lines path n [] env = (None, env)"
| "load_lines path n (raw # ls) env =
     (let line = TrimSpace raw in
      if line = '''' \<or> HasPrefix line ''#'' then load_lines path (n + 1) ls env
      else (case Cut line CHR ''='' of
          None \<Rightarrow> (Some (NotKeyValue path n line), env)
        | Some (k, value) \<Rightarrow>
            let key = TrimSpace k in
            if key = '''' then (Some (NoKey path n), env)
            else if Getenv env key \<noteq> '''' then load_lines path (n + 1) ls env
            else (case Setenv key (unquote (TrimSpace value)) env of
                Inl e \<Rightarrow> (Some (SetFailed e), env)
              | Inr env' \<Rightarrow> load_lines path (n + 1) ls env')))"

definition LoadEnvFile :: "string \<Rightarrow> env_file \<Rightarrow> environment \<Rightarrow> env_error option \<times> environment" where
  "LoadEnvFile path f env =
     (case f of
        NoFile \<Rightarrow> (None, env)
      | CannotOpen e \<Rightarrow> (Some (EnvOpen e), env)
      | Contents bytes broken \<Rightarrow>
          (case ScanLines bytes broken of (ls, err) \<Rightarrow>
             (case load_lines path 1 ls env of
                (Some e, env') \<Rightarrow> (Some e, env')
              | (None, env') \<Rightarrow> (map_option EnvScan err, env'))))"

section \<open>The public URL\<close>

definition DefaultPublicURL :: string where "DefaultPublicURL = ''http://127.0.0.1:8443''"

datatype public_error = PublicNotURL string string | PublicScheme string | PublicNoHost string

definition PublicURL ::
  "(string \<Rightarrow> string + url \<times> string) \<Rightarrow> string \<Rightarrow> string \<Rightarrow> public_error + string" where
  "PublicURL parse_url given given_legacy =
     (let raw = TrimSpace given; legacyAddr = TrimSpace given_legacy in
      if raw = '''' \<and> legacyAddr = '''' then Inr DefaultPublicURL
      else let raw = (if raw = '''' then ''http://'' @ legacyAddr else raw) in
        (case parse_url raw of
           Inl e \<Rightarrow> Inl (PublicNotURL raw e)
         | Inr (parsed, shown) \<Rightarrow>
             if Scheme parsed \<noteq> ''http'' \<and> Scheme parsed \<noteq> ''https'' then Inl (PublicScheme raw)
             else if Host parsed = '''' then Inl (PublicNoHost raw)
             else Inr (TrimSuffix shown ''/'')))"

section \<open>\<open>feast-watch generate\<close>\<close>

text \<open>\<open>flag.FlagSet.Parse\<close> with the one string flag \<open>name\<close>.\<close>

datatype flag_error = BadSyntax string | NotDefined string | Help | NeedsArgument string

definition split_flag :: "string \<Rightarrow> string \<times> string option" where
  "split_flag name =
     (case Cut (tl name) CHR ''='' of
        None \<Rightarrow> (name, None) | Some (before, after) \<Rightarrow> (hd name # before, Some after))"

fun parse_flags :: "string list \<Rightarrow> string \<Rightarrow> flag_error + string" where
  "parse_flags [] name = Inr name"
| "parse_flags (s # args) name =
     (if length s < 2 \<or> s ! 0 \<noteq> CHR ''-'' then Inr name
      else if s = ''--'' then Inr name
      else let flag = (if s ! 1 = CHR ''-'' then drop 2 s else drop 1 s) in
        if flag ! 0 = CHR ''-'' \<or> flag ! 0 = CHR ''='' then Inl (BadSyntax s)
        else (case split_flag flag of (f, value) \<Rightarrow>
          if f \<noteq> ''name'' then (if f = ''help'' \<or> f = ''h'' then Inl Help else Inl (NotDefined f))
          else (case value of
              Some v \<Rightarrow> parse_flags args v
            | None \<Rightarrow> (case args of [] \<Rightarrow> Inl (NeedsArgument f) | v # rest \<Rightarrow> parse_flags rest v))))"

datatype generate_error = Flags flag_error | NameRequired | Storage store_error

definition RunGenerate ::
  "(int list \<Rightarrow> int) \<Rightarrow> nat list \<Rightarrow> int \<Rightarrow> string \<Rightarrow> string list \<Rightarrow> 'v db \<Rightarrow> (generate_error + string) \<times> 'v db" where
  "RunGenerate alloc rnd now publicURL args st =
     (case parse_flags args '''' of
        Inl e \<Rightarrow> (Inl (Flags e), st)
      | Inr name \<Rightarrow>
          if TrimSpace name = '''' then (Inl NameRequired, st)
          else (case (case ServerByName name st of
                        (Inl e, st1) \<Rightarrow> if e = ErrNotFound then AddServer alloc rnd now name st1 else (Inl e, st1)
                      | (Inr srv, st1) \<Rightarrow> (Inr srv, st1)) of
                 (Inl e, st2) \<Rightarrow> (Inl (Storage e), st2)
               | (Inr srv, st2) \<Rightarrow> (Inr (InstallCommand publicURL (srv_Token srv)), st2)))"

section \<open>Lemmas\<close>

text \<open>The assignments of a file's lines, in order, and the first value that counts.\<close>

definition assignment :: "string \<Rightarrow> (string \<times> string) option" where
  "assignment raw =
     (let line = TrimSpace raw in
      if line = '''' \<or> HasPrefix line ''#'' then None
      else map_option (\<lambda>(k, v). (TrimSpace k, unquote (TrimSpace v))) (Cut line CHR ''=''))"

fun first_set :: "string list \<Rightarrow> string" where
  "first_set [] = ''''"
| "first_set (v # vs) = (if v \<noteq> '''' then v else first_set vs)"

definition values_for :: "string \<Rightarrow> string list \<Rightarrow> string list" where
  "values_for k ls = map snd (filter (\<lambda>p. fst p = k) (List.map_filter assignment ls))"

lemma Getenv_update: "Getenv (AList.update k v env) k' = (if k' = k then v else Getenv env k')"
  by (simp add: Getenv_def map_of_update)

lemma values_for_Cons:
  "values_for k (raw # ls) =
     (case assignment raw of Some (k', v) \<Rightarrow> if k' = k then v # values_for k ls else values_for k ls
      | None \<Rightarrow> values_for k ls)"
  by (simp add: values_for_def map_filter_simps split: option.split)

lemma load_lines_values:
  "load_lines path n ls env = (None, env') \<Longrightarrow> Getenv env' k = first_set (Getenv env k # values_for k ls)"
proof (induction ls arbitrary: n env)
  case (Cons raw ls)
  show ?case
  proof (cases "assignment raw")
    case None
    with Cons.prems have "load_lines path (n + 1) ls env = (None, env')"
      by (auto simp: assignment_def Let_def split: if_splits option.splits)
    from Cons.IH [OF this] None show ?thesis by (simp add: values_for_Cons)
  next
    case (Some p)
    then obtain key v where p: "assignment raw = Some (key, v)" by (cases p) auto
    with Cons.prems obtain env1 where rest: "load_lines path (n + 1) ls env1 = (None, env')"
      and env1: "env1 = (if Getenv env key \<noteq> '''' then env else AList.update key v env)"
      by (auto simp: assignment_def Let_def Setenv_def split: if_splits option.splits)
    from Cons.IH [OF rest] p env1 show ?thesis by (auto simp: values_for_Cons Getenv_update)
  qed
qed (simp add: values_for_def)

lemma load_lines_keeps:
  "load_lines path n ls env = (r, env') \<Longrightarrow> Getenv env k \<noteq> '''' \<Longrightarrow> Getenv env' k = Getenv env k"
proof (induction ls arbitrary: n env)
  case (Cons raw ls)
  show ?case
  proof (cases "env' = env")
    case False
    with Cons.prems obtain n1 env1 where "load_lines path n1 ls env1 = (r, env')"
      "env1 = env \<or> (\<exists>key v. Getenv env key = '''' \<and> env1 = AList.update key v env)"
      by (auto simp: Let_def Setenv_def split: if_splits option.splits sum.splits prod.splits)
    with Cons.IH [of n1 env1] Cons.prems(2) show ?thesis by (cases "env1 = env") (auto simp: Getenv_update, metis)
  qed simp
qed simp

lemma ServerByName_found:
  "healthy d \<Longrightarrow> find (\<lambda>s. srv_Name s = name) (servers d) = Some srv \<Longrightarrow> ServerByName name d = (Inr srv, d)"
  by (simp add: ServerByName_def select_server_def bnd_def ret_def)

section \<open>Properties\<close>

text \<open>
  The environment file only fills gaps: a variable the process already has keeps its value,
  whatever the file says and even if reading it fails; after a load that succeeds every other
  variable has the first value the file gives it that is not empty.
\<close>

theorem LoadEnvFile_fills_gaps:
  assumes "LoadEnvFile path f env = (r, env')"
  shows "(\<forall>k. Getenv env k \<noteq> '''' \<longrightarrow> Getenv env' k = Getenv env k) \<and>
    (\<forall>bytes broken k. f = Contents bytes broken \<longrightarrow> r = None \<longrightarrow>
       Getenv env' k = first_set (Getenv env k # values_for k (fst (ScanLines bytes broken))))"
proof (cases f)
  case (Contents bytes broken)
  obtain ls err where ls: "ScanLines bytes broken = (ls, err)" by fastforce
  obtain r1 env1 where l: "load_lines path 1 ls env = (r1, env1)" by fastforce
  have "env1 = env'" using assms Contents ls l by (auto simp: LoadEnvFile_def split: option.splits)
  moreover have "r = None \<Longrightarrow> r1 = None" using assms Contents ls l by (auto simp: LoadEnvFile_def split: option.splits)
  ultimately show ?thesis
    using load_lines_keeps [OF l] load_lines_values [of path 1 ls env env1] l ls Contents by auto
qed (use assms in \<open>auto simp: LoadEnvFile_def\<close>)

text \<open>
  An agent accepts every address the mother hands out. The URL library is assumed to read the
  text it printed, less one trailing slash, as the same scheme and host, and to read the default.
\<close>

theorem PublicURL_reaches_agent:
  assumes "PublicURL parse_url raw legacyAddr = Inr u"
    and "\<And>t p shown. parse_url t = Inr (p, shown) \<Longrightarrow> Host p \<noteq> '''' \<Longrightarrow> \<exists>shown'. parse_url (TrimSuffix shown ''/'') = Inr (p, shown')"
    and "\<exists>shown. parse_url DefaultPublicURL = Inr (\<lparr>Scheme = ''http'', Host = ''127.0.0.1:8443''\<rparr>, shown)"
  shows "validateMotherURL (\<lambda>t. map_sum id fst (parse_url t)) u = None"
proof -
  have "\<exists>p shown. parse_url u = Inr (p, shown) \<and> (Scheme p = ''http'' \<or> Scheme p = ''https'') \<and> Host p \<noteq> ''''"
    using assms by (fastforce simp: PublicURL_def Let_def split: if_splits sum.splits prod.splits)
  then show ?thesis by (auto simp: validateMotherURL_None reachable_url_def)
qed

text \<open>
  \<open>feast-watch generate\<close> creates a server at most once: a command it prints carries the token of
  the one row with the name asked for, the store gained that row or nothing, and asking again on a
  working store prints the same command and changes nothing.
\<close>

theorem RunGenerate_once:
  assumes "RunGenerate alloc rnd now u args d = (Inr cmd, d')"
  shows "\<exists>name srv. parse_flags args '''' = Inr name \<and> srv_Name srv = name \<and> srv \<in> set (servers d') \<and>
    cmd = InstallCommand u (srv_Token srv) \<and>
    (tables d' = tables d \<or> tables d' = tables (d\<lparr>servers := servers d @ [srv]\<rparr>) \<and> validName name) \<and>
    (\<forall>alloc' rnd' now' d''. healthy d'' \<longrightarrow> tables d'' = tables d' \<longrightarrow>
       RunGenerate alloc' rnd' now' u args d'' = (Inr cmd, d''))"
proof -
  from assms obtain name where name: "parse_flags args '''' = Inr name" "TrimSpace name \<noteq> ''''"
    by (auto simp: RunGenerate_def split: sum.splits if_splits)
  obtain r1 d1 where s: "ServerByName name d = (r1, d1)" by fastforce
  obtain srv where srv: "find (\<lambda>s. srv_Name s = name) (servers d') = Some srv" "cmd = InstallCommand u (srv_Token srv)"
    "tables d' = tables d \<or> tables d' = tables (d\<lparr>servers := servers d @ [srv]\<rparr>) \<and> validName name"
  proof (cases r1)
    case (Inr srv)
    with s name assms have "d' = d1" "cmd = InstallCommand u (srv_Token srv)"
      by (auto simp: RunGenerate_def)
    moreover have "find (\<lambda>s. srv_Name s = name) (servers d) = Some srv" "tables d1 = tables d"
      using select_server_Inr [OF s [unfolded ServerByName_def Inr]] by auto
    ultimately show thesis using that tables_eqD(1) by metis
  next
    case (Inl e)
    with s name assms obtain srv where a: "AddServer alloc rnd now name d1 = (Inr srv, d')"
      and c: "cmd = InstallCommand u (srv_Token srv)"
      by (auto simp: RunGenerate_def split: sum.splits if_splits prod.splits)
    have t1: "tables d1 = tables d"
      using s Inl by (auto simp: ServerByName_def dest: select_server_Inl)
    note add = AddServer_Inr [OF a]
    have "tables d' = tables (d\<lparr>servers := servers d @ [srv]\<rparr>)"
      using add(4) t1 by (auto simp: tables_eq_iff)
    moreover from this have "servers d' = servers d @ [srv]" by (metis tables_sel(1) db.select_convs(1) db.surjective db.update_convs(1))
    moreover have "srv_Name srv = name" using add(2) by (simp add: new_server_def)
    moreover have "\<forall>s \<in> set (servers d). srv_Name s \<noteq> name" using add(3) tables_eqD(1) [OF t1] by auto
    moreover have "find (\<lambda>s. srv_Name s = name) (ss @ [srv]) = Some srv"
      if "\<forall>s \<in> set ss. srv_Name s \<noteq> name" "srv_Name srv = name" for ss
      using that by (induction ss) auto
    ultimately show thesis using that c add(1) by metis
  qed
  moreover have "RunGenerate alloc' rnd' now' u args d'' = (Inr cmd, d'')" if "healthy d''" "tables d'' = tables d'" for alloc' rnd' now' d''
    using ServerByName_found [OF that(1)] srv(1,2) tables_eqD(1) [OF that(2)] name by (simp add: RunGenerate_def)
  ultimately show ?thesis using name(1) by (auto simp: find_Some_iff)
qed

section \<open>Witnesses\<close>

definition sample_env_file :: string where
  "sample_env_file = ''FW_DB_PATH=/srv/m.db'' @ [LF] @ ''FW_LISTEN=:9000'' @ [LF] @ ''FW_LISTEN=:9001'' @ [LF]"

lemma LoadEnvFile_fills_gaps_witness:
  "Getenv (snd (LoadEnvFile ''e'' (Contents sample_env_file None) [(''FW_DB_PATH'', ''/tmp/x.db'')])) ''FW_DB_PATH'' = ''/tmp/x.db''"
proof -
  let ?env = "[(''FW_DB_PATH'', ''/tmp/x.db'')]"
  obtain r env' where run: "LoadEnvFile ''e'' (Contents sample_env_file None) ?env = (r, env')" by fastforce
  have "Getenv ?env ''FW_DB_PATH'' = ''/tmp/x.db''" by (simp add: Getenv_def)
  with LoadEnvFile_fills_gaps [OF run] have "Getenv env' ''FW_DB_PATH'' = ''/tmp/x.db''" by simp
  with run show ?thesis by simp
qed

definition sample_parse :: "string \<Rightarrow> string + url \<times> string" where
  "sample_parse t = (if t \<in> {''https://m.example/fw/'', ''https://m.example/fw''}
     then Inr (\<lparr>Scheme = ''https'', Host = ''m.example''\<rparr>, t)
     else if t = DefaultPublicURL then Inr (\<lparr>Scheme = ''http'', Host = ''127.0.0.1:8443''\<rparr>, t) else Inl ''not a URL'')"

lemma PublicURL_reaches_agent_witness:
  "PublicURL sample_parse ''https://m.example/fw/'' '''' = Inr ''https://m.example/fw'' \<and>
   validateMotherURL (\<lambda>t. map_sum id fst (sample_parse t)) ''https://m.example/fw'' = None"
proof -
  have plain: "TrimSpace ''https://m.example/fw/'' = ''https://m.example/fw/''" by (rule TrimSpace_plain) (simp add: byte_def)
  have "TrimSpace '''' = ''''" by (rule TrimSpace_plain) simp
  with plain have u: "PublicURL sample_parse ''https://m.example/fw/'' '''' = Inr ''https://m.example/fw''"
    by (simp add: PublicURL_def sample_parse_def TrimSuffix_append [of "''https://m.example/fw''" "''/''", simplified])
  moreover have "\<exists>shown'. sample_parse (TrimSuffix shown ''/'') = Inr (p, shown')"
    if "sample_parse t = Inr (p, shown)" for t p shown
  proof -
    have "TrimSuffix ''https://m.example/fw/'' ''/'' = ''https://m.example/fw''"
      "TrimSuffix ''https://m.example/fw'' ''/'' = ''https://m.example/fw''" "TrimSuffix DefaultPublicURL ''/'' = DefaultPublicURL"
      by code_simp+
    with that show ?thesis by (auto simp: sample_parse_def split: if_splits)
  qed
  moreover have "\<exists>shown. sample_parse DefaultPublicURL = Inr (\<lparr>Scheme = ''http'', Host = ''127.0.0.1:8443''\<rparr>, shown)"
    by (simp add: sample_parse_def DefaultPublicURL_def)
  ultimately show ?thesis using PublicURL_reaches_agent [OF u] by blast
qed

lemma RunGenerate_once_witness:
  "\<exists>cmd d'. RunGenerate (\<lambda>_. 7) [171] 0 ''http://m'' [''--name=db-1''] (empty_db :: int db) = (Inr cmd, d') \<and>
     RunGenerate (\<lambda>_. 8) [205] 9 ''http://m'' [''--name=db-1''] d' = (Inr cmd, d')"
proof -
  have "TrimSpace ''db-1'' = ''db-1''" by (rule TrimSpace_plain) (simp add: byte_def)
  moreover have "validName ''db-1''" by code_simp
  moreover have "parse_flags [''--name=db-1''] '''' = Inr ''db-1''" by code_simp
  ultimately obtain cmd d' where run: "RunGenerate (\<lambda>_. 7) [171] 0 ''http://m'' [''--name=db-1''] (empty_db :: int db) = (Inr cmd, d')"
    and "healthy d'"
    by (simp add: RunGenerate_def ServerByName_def select_server_def bnd_def fail_def ret_def AddServer_def Let_def
        healthy_def empty_db_def query_def exec_def take_fault_def insert_server_def)
  with RunGenerate_once [OF run] show ?thesis by blast
qed

end
