(* ===== verification/API_Routes.thy ===== *)
theory API_Routes
  imports API_Ingest API_Servers API_Versions API_Chart API_Reads API_Settings
begin

text \<open>
  The mother's surface: the routes each file of \<open>mother/api\<close> registers and \<open>Handler\<close>, which puts
  them behind one \<open>http.ServeMux\<close>. A request is its method, its escaped path, the two headers and
  the query values the handlers read, and what decoding its body as each handler's type gives. The
  host record holds the clocks, the random bytes and the other parameters of the handlers.
\<close>

section \<open>Paths\<close>

fun clean_elements_of :: "bool \<Rightarrow> string list \<Rightarrow> string list \<Rightarrow> string list" where
  "clean_elements_of isRooted acc [] = rev acc"
| "clean_elements_of isRooted acc (p # ps) =
     (if p = '''' \<or> p = ''.'' then clean_elements_of isRooted acc ps
      else if p = ''..'' then
        (if acc \<noteq> [] \<and> hd acc \<noteq> ''..'' then clean_elements_of isRooted (tl acc) ps
         else if isRooted then clean_elements_of isRooted acc ps
         else clean_elements_of isRooted (''..'' # acc) ps)
      else clean_elements_of isRooted (p # acc) ps)"

definition Clean :: "string \<Rightarrow> string" where
  "Clean path =
     (let isRooted = HasPrefix path ''/'';
          body = Join (clean_elements_of isRooted [] (Split path CHR ''/'')) ''/''
      in if isRooted then ''/'' @ body else if body = '''' then ''.'' else body)"

section \<open>Requests and replies\<close>

record 'v body =
  bo_push :: "'v ingest_request option"
  bo_name :: "string option"
  bo_collectors :: "string list option"
  bo_settings :: "settings_payload option"
  bo_server_ids :: "int list option"
  bo_version :: "string option"

record 'v request =
  rq_method :: string
  rq_path :: string
  rq_apiKey :: string
  rq_authorization :: string
  rq_query :: "string \<Rightarrow> string"
  rq_body :: "'v body"

record 'v mother_host =
  ho_push :: "'v push_env"
  ho_alloc :: "int list \<Rightarrow> int"
  ho_random :: "nat list"
  ho_now :: int
  ho_clock :: "int \<Rightarrow> int"
  ho_reads :: "nat \<Rightarrow> int"
  ho_order :: "(string \<times> string) list \<Rightarrow> (string \<times> string) list"
  ho_avg :: "'v \<Rightarrow> int \<Rightarrow> 'v"
  ho_motherUpdate :: mother_target
  ho_running :: string
  ho_binaries :: binary_resolver
  ho_render :: "script_fields \<Rightarrow> string option"
  ho_uninstallScript :: string

datatype 'v reply =
    Fleet "'v server_view list response"
  | Created "created response"
  | Worded "string response"
  | Plain "unit response"
  | Pushed "ingest_response response"
  | Tail "'v live_response response"
  | Configured "settings response"
  | Groups "group list response"
  | Grouped "group response"
  | RolledOut "rollout response"
  | Charted "'v chart_point list response"
  | Versions "version_view response"
  | Moved string

fun reply_status :: "'v reply \<Rightarrow> nat" where
  "reply_status (Fleet r) = rs_status r"
| "reply_status (Created r) = rs_status r"
| "reply_status (Worded r) = rs_status r"
| "reply_status (Plain r) = rs_status r"
| "reply_status (Pushed r) = rs_status r"
| "reply_status (Tail r) = rs_status r"
| "reply_status (Configured r) = rs_status r"
| "reply_status (Groups r) = rs_status r"
| "reply_status (Grouped r) = rs_status r"
| "reply_status (RolledOut r) = rs_status r"
| "reply_status (Charted r) = rs_status r"
| "reply_status (Versions r) = rs_status r"
| "reply_status (Moved path) = 307"

section \<open>The routes\<close>

datatype segment = Lit string | Wild

type_synonym 'v handler = "string list \<Rightarrow> 'v api \<Rightarrow> 'v reply \<times> 'v api"
type_synonym 'v route = "string \<times> segment list \<times> 'v handler"

definition open_to ::
  "('d response \<Rightarrow> 'v reply) \<Rightarrow> ('v api \<Rightarrow> 'd response \<times> 'v api) \<Rightarrow> 'v api \<Rightarrow> 'v reply \<times> 'v api" where
  "open_to f h a = map_prod f id (h a)"

definition keyed ::
  "'v request \<Rightarrow> ('d response \<Rightarrow> 'v reply) \<Rightarrow> ('v api \<Rightarrow> 'd response \<times> 'v api) \<Rightarrow> 'v api \<Rightarrow> 'v reply \<times> 'v api" where
  "keyed rq f h = open_to f (requireAPIKey (rq_apiKey rq) h)"

definition stateless :: "'d response \<Rightarrow> 'v api \<Rightarrow> 'd response \<times> 'v api" where
  "stateless r a = (r, a)"

definition registerUninstall :: "'v::{linorder,plus} mother_host \<Rightarrow> 'v request \<Rightarrow> 'v route list" where
  "registerUninstall ho rq =
     [(''POST'', [Lit ''v1'', Lit ''uninstalled''], \<lambda>ps. open_to Worded (handleUninstalled (rq_authorization rq)))]"

definition registerAdmin :: "'v::{linorder,plus} mother_host \<Rightarrow> 'v request \<Rightarrow> 'v route list" where
  "registerAdmin ho rq =
     [(''GET'', [Lit ''api'', Lit ''servers''],
         \<lambda>ps. keyed rq Fleet (handleListServers (ho_now ho) (ho_clock ho) (rq_query rq ''group_id''))),
      (''POST'', [Lit ''api'', Lit ''servers''],
         \<lambda>ps. keyed rq Created (handleAddServer (ho_alloc ho) (ho_random ho) (ho_now ho) (bo_name (rq_body rq)))),
      (''DELETE'', [Lit ''api'', Lit ''servers'', Wild],
         \<lambda>ps. keyed rq Worded (handleDeleteServer (ho_now ho) (ps ! 0) (rq_query rq ''force''))),
      (''PUT'', [Lit ''api'', Lit ''servers'', Wild, Lit ''collectors''],
         \<lambda>ps. keyed rq Plain (handleSetCollectors (ps ! 0) (bo_collectors (rq_body rq)))),
      (''DELETE'', [Lit ''api'', Lit ''history''],
         \<lambda>ps. keyed rq Plain (handleDeleteHistory (rq_query rq ''server_id'') (rq_query rq ''from'') (rq_query rq ''to'')))]"

definition registerLive :: "'v::{linorder,plus} mother_host \<Rightarrow> 'v request \<Rightarrow> 'v route list" where
  "registerLive ho rq =
     [(''GET'', [Lit ''api'', Lit ''live''],
         \<lambda>ps. keyed rq Tail (handleLive (ho_now ho) (ho_reads ho) (rq_query rq ''server_id'') (rq_query rq ''metric'') (rq_query rq ''since'')))]"

definition registerSettings :: "'v::{linorder,plus} mother_host \<Rightarrow> 'v request \<Rightarrow> 'v route list" where
  "registerSettings ho rq =
     [(''GET'', [Lit ''api'', Lit ''settings''], \<lambda>ps. keyed rq Configured handleGetSettings),
      (''PUT'', [Lit ''api'', Lit ''settings''],
         \<lambda>ps. keyed rq Configured (handlePutSettings (ho_order ho) (ho_clock ho) (bo_settings (rq_body rq))))]"

definition registerGroups :: "'v::{linorder,plus} mother_host \<Rightarrow> 'v request \<Rightarrow> 'v route list" where
  "registerGroups ho rq =
     [(''GET'', [Lit ''api'', Lit ''groups''], \<lambda>ps. keyed rq Groups handleListGroups),
      (''POST'', [Lit ''api'', Lit ''groups''],
         \<lambda>ps. keyed rq Grouped (handleCreateGroup (ho_alloc ho) (ho_now ho) (bo_name (rq_body rq)))),
      (''PATCH'', [Lit ''api'', Lit ''groups'', Wild],
         \<lambda>ps. keyed rq Plain (handleRenameGroup (ps ! 0) (bo_name (rq_body rq)))),
      (''DELETE'', [Lit ''api'', Lit ''groups'', Wild], \<lambda>ps. keyed rq Plain (handleDeleteGroup (ps ! 0))),
      (''PUT'', [Lit ''api'', Lit ''groups'', Wild, Lit ''servers''],
         \<lambda>ps. keyed rq Plain (handleSetGroupServers (ps ! 0) (bo_server_ids (rq_body rq)))),
      (''PUT'', [Lit ''api'', Lit ''groups'', Wild, Lit ''version''],
         \<lambda>ps. keyed rq RolledOut (handleSetGroupVersion (ps ! 0) (bo_version (rq_body rq))))]"

definition registerChart :: "'v::{linorder,plus} mother_host \<Rightarrow> 'v request \<Rightarrow> 'v route list" where
  "registerChart ho rq =
     [(''GET'', [Lit ''api'', Lit ''chart''],
         \<lambda>ps. keyed rq Charted (handleChart (ho_avg ho) (rq_query rq ''server_id'') (rq_query rq ''from'')
           (rq_query rq ''to'') (rq_query rq ''interval'') (rq_query rq ''metric'')))]"

definition registerInstall :: "'v::{linorder,plus} mother_host \<Rightarrow> 'v request \<Rightarrow> 'v route list" where
  "registerInstall ho rq =
     [(''GET'', [Lit ''install'', Wild], \<lambda>ps. open_to Worded (handleInstallScript (ho_render ho) (ps ! 0))),
      (''GET'', [Lit ''uninstall.sh''], \<lambda>ps. open_to Worded (stateless (answer 200 (ho_uninstallScript ho))))]"

definition registerVersions :: "'v::{linorder,plus} mother_host \<Rightarrow> 'v request \<Rightarrow> 'v route list" where
  "registerVersions ho rq =
     [(''GET'', [Lit ''api'', Lit ''version''], \<lambda>ps. keyed rq Versions (handleGetVersion (ho_motherUpdate ho) (ho_running ho))),
      (''PUT'', [Lit ''api'', Lit ''servers'', Wild, Lit ''version''],
         \<lambda>ps. keyed rq Worded (handleSetServerVersion (ps ! 0) (bo_version (rq_body rq))))]"

definition registerMother :: "'v::{linorder,plus} mother_host \<Rightarrow> 'v request \<Rightarrow> 'v route list" where
  "registerMother ho rq =
     [(''PUT'', [Lit ''api'', Lit ''mother'', Lit ''version''],
         \<lambda>ps. keyed rq Worded (handleSetMotherVersion (ho_motherUpdate ho) (ho_now ho) (bo_version (rq_body rq))))]"

definition registerBinaries :: "'v::{linorder,plus} mother_host \<Rightarrow> 'v request \<Rightarrow> 'v route list" where
  "registerBinaries ho rq =
     [(''GET'', [Lit ''releases'', Lit ''download'', Wild, Wild],
         \<lambda>ps. open_to Worded (\<lambda>a. stateless (handleDownload (ho_binaries ho) (ps ! 0) (ps ! 1) a) a)),
      (''GET'', [Lit ''releases'', Lit ''latest'', Lit ''download'', Wild],
         \<lambda>ps. open_to Worded (\<lambda>a. stateless (handleDownloadLatest (ho_binaries ho) (ps ! 0) a) a))]"

definition Handler :: "'v::{linorder,plus} mother_host \<Rightarrow> 'v request \<Rightarrow> 'v route list" where
  "Handler ho rq =
     (''POST'', [Lit ''v1'', Lit ''ingest''],
        \<lambda>ps. open_to Pushed (handleIngest (ho_push ho) (rq_authorization rq) (bo_push (rq_body rq)))) #
     registerUninstall ho rq @ registerAdmin ho rq @ registerLive ho rq @ registerSettings ho rq @
     registerGroups ho rq @ registerChart ho rq @ registerInstall ho rq @ registerVersions ho rq @
     registerMother ho rq @ registerBinaries ho rq"

section \<open>\<open>http.ServeMux\<close>\<close>

definition unhex :: "char \<Rightarrow> nat option" where
  "unhex c =
     (if is_digit c then Some (byte c - 48) else if between c 97 102 then Some (byte c - 87)
      else if between c 65 70 then Some (byte c - 55) else None)"

text \<open>\<open>url.PathUnescape\<close> of one segment; the multiplexer takes a malformed one as it is.\<close>

fun path_unescape :: "string \<Rightarrow> string option" where
  "path_unescape [] = Some []"
| "path_unescape (c # cs) =
     (if c = CHR ''%'' then
        (case cs of
           h # l # rest \<Rightarrow>
             (case (unhex h, unhex l) of
                (Some x, Some y) \<Rightarrow> map_option (\<lambda>r. char_of (16 * x + y) # r) (path_unescape rest)
              | _ \<Rightarrow> None)
         | _ \<Rightarrow> None)
      else map_option (\<lambda>r. c # r) (path_unescape cs))"

definition unescaped :: "string \<Rightarrow> string" where
  "unescaped seg = (case path_unescape seg of None \<Rightarrow> seg | Some s \<Rightarrow> s)"

definition cleanPath :: "string \<Rightarrow> string" where
  "cleanPath p =
     (if p = '''' then ''/''
      else let q = (if hd p \<noteq> CHR ''/'' then ''/'' @ p else p); np = Clean q in
        if List.last q = CHR ''/'' \<and> np \<noteq> ''/'' then np @ ''/'' else np)"

text \<open>The values of a pattern's wildcards on a path's segments, or no match.\<close>

fun path_values :: "segment list \<Rightarrow> string list \<Rightarrow> string list option" where
  "path_values [] [] = Some []"
| "path_values (Lit l # pat) (s # ss) = (if unescaped s = l then path_values pat ss else None)"
| "path_values (Wild # pat) (s # ss) =
     (if s = '''' \<or> unescaped s = ''/'' then None else map_option (\<lambda>vs. unescaped s # vs) (path_values pat ss))"
| "path_values pat ss = None"

definition segments_of :: "string \<Rightarrow> string list" where
  "segments_of path = Split (tl path) CHR ''/''"

definition for_method :: "string \<Rightarrow> string \<Rightarrow> bool" where
  "for_method m given \<longleftrightarrow> given = m \<or> m = ''GET'' \<and> given = ''HEAD''"

definition serve :: "'v::{linorder,plus} mother_host \<Rightarrow> 'v request \<Rightarrow> 'v api \<Rightarrow> 'v reply \<times> 'v api" where
  "serve ho rq a =
     (let path = cleanPath (rq_path rq); ss = segments_of path in
      if path \<noteq> rq_path rq then (Moved path, a)
      else (case find (\<lambda>(m, pat, h). for_method m (rq_method rq) \<and> path_values pat ss \<noteq> None) (Handler ho rq) of
          Some (m, pat, h) \<Rightarrow> h (the (path_values pat ss)) a
        | None \<Rightarrow>
            if list_ex (\<lambda>(m, pat, h). path_values pat ss \<noteq> None) (Handler ho rq)
            then (Worded (refuse 405 ''Method Not Allowed''), a)
            else (Worded (refuse 404 ''404 page not found''), a)))"

end
