(* ===== verification/Mother_Main.thy ===== *)
theory Mother_Main
  imports Mother_Config Migrations Source_Archive Build_Publish API_Routes Updater
begin

text \<open>
  The mother's process: \<open>mother/cmd/feast-watch/main.go\<close>. What \<open>main\<close> finds on its host is the
  record \<open>site\<close>; what it comes to is an \<open>outcome\<close>: an exit with its code, or a server with the state
  it starts from. The goroutines it starts are the operations of their own theories (the index
  poll, the updater, the handlers) and the hourly retention here. \<open>time.ParseDuration\<close> is a
  parameter, as are the URL library, the JSON decoder of the store's columns and the hosts of the
  build.
\<close>

section \<open>Paths\<close>

definition Dir :: "string \<Rightarrow> string" where
  "Dir path = Clean (rev (dropWhile (\<lambda>c. c \<noteq> CHR ''/'') (rev path)))"

definition JoinPath :: "string \<Rightarrow> string \<Rightarrow> string" where
  "JoinPath dir name =
     (if dir = '''' then (if name = '''' then '''' else Clean name) else Clean (dir @ ''/'' @ name))"

section \<open>The tables of an opened file\<close>

text \<open>
  The rows of the file as the rows the store works on; \<open>decode\<close> reads the JSON lists kept in two
  columns of \<open>servers\<close>. A cell of another type than its column's does not occur in a well typed file.
\<close>

definition int_at :: "'v row \<Rightarrow> string \<Rightarrow> int" where
  "int_at r c = (case map_of r c of Some (VInt n) \<Rightarrow> n | _ \<Rightarrow> 0)"

definition text_at :: "'v row \<Rightarrow> string \<Rightarrow> string" where
  "text_at r c = (case map_of r c of Some (VText s) \<Rightarrow> s | _ \<Rightarrow> '''')"

definition real_at :: "'v row \<Rightarrow> string \<Rightarrow> 'v" where
  "real_at r c = (case map_of r c of Some (VReal x) \<Rightarrow> x | _ \<Rightarrow> undefined)"

definition rows_of :: "'v fdb \<Rightarrow> string \<Rightarrow> 'v row list" where
  "rows_of fd n = (case lookup fd n of None \<Rightarrow> [] | Some tb \<Rightarrow> tb_Rows tb)"

definition server_of_row :: "(string \<Rightarrow> string list) \<Rightarrow> 'v row \<Rightarrow> server" where
  "server_of_row decode r =
     \<lparr>srv_ID = int_at r ''id'', srv_Name = text_at r ''name'', srv_Token = text_at r ''token'',
      srv_Collectors = decode (text_at r ''collectors''), srv_Hostname = text_at r ''hostname'',
      srv_IP = text_at r ''ip'', srv_OS = text_at r ''os'', srv_Arch = text_at r ''arch'',
      srv_AgentVersion = text_at r ''agent_version'', srv_LastPush = int_at r ''last_push'',
      srv_Capabilities = decode (text_at r ''capabilities''), srv_DesiredVersion = text_at r ''desired_version'',
      srv_UpdateError = text_at r ''update_error'', srv_UninstallRequestedAt = int_at r ''uninstall_requested_at'',
      srv_UninstallError = text_at r ''uninstall_error'', srv_CreatedAt = int_at r ''created_at''\<rparr>"

definition bucket_of_row :: "'v row \<Rightarrow> (int \<times> string \<times> int) \<times> 'v bucket" where
  "bucket_of_row r =
     ((int_at r ''server_id'', text_at r ''metric'', int_at r ''window_start''),
      \<lparr>bk_min = real_at r ''min'', bk_max = real_at r ''max'', bk_sum = real_at r ''sum'', bk_cnt = int_at r ''cnt''\<rparr>)"

definition mother_of_row :: "'v row \<Rightarrow> mother_update" where
  "mother_of_row r =
     \<lparr>mu_DesiredVersion = text_at r ''desired_version'', mu_StagedVersion = text_at r ''staged_version'',
      mu_Attempts = int_at r ''attempts'', mu_Error = text_at r ''error'',
      mu_RequestedAt = int_at r ''requested_at'', mu_AppliedAt = int_at r ''applied_at''\<rparr>"

definition store_of :: "(string \<Rightarrow> string list) \<Rightarrow> 'v fdb \<Rightarrow> 'v db" where
  "store_of decode fd =
     \<lparr>servers = map (server_of_row decode) (rows_of fd ''servers''),
      rollup_1m = map bucket_of_row (rows_of fd ''rollup_1m''),
      rollup_1h = map bucket_of_row (rows_of fd ''rollup_1h''),
      server_groups = map (\<lambda>r. \<lparr>gr_id = int_at r ''id'', gr_name = text_at r ''name'', gr_created_at = int_at r ''created_at''\<rparr>)
        (rows_of fd ''server_groups''),
      group_members = map (\<lambda>r. (int_at r ''group_id'', int_at r ''server_id'')) (rows_of fd ''server_group_members''),
      mother_row = (case rows_of fd ''mother_update'' of [] \<Rightarrow> None | r # rs \<Rightarrow> Some (mother_of_row r)),
      settings_tab = map (\<lambda>r. (text_at r ''key'', text_at r ''value'')) (rows_of fd ''settings''),
      faults = fd_faults fd\<rparr>"

section \<open>Configuration from the environment\<close>

definition defaultReleasePoll :: int where "defaultReleasePoll = 5 * Minute"
definition defaultMotherUpdateInterval :: int where "defaultMotherUpdateInterval = 30 * Second"
definition motherUpdateMaxAttempts :: int where "motherUpdateMaxAttempts = 3"

definition env :: "environment \<Rightarrow> string \<Rightarrow> string \<Rightarrow> string" where
  "env e k fallback = (if Getenv e k \<noteq> '''' then Getenv e k else fallback)"

definition duration_or :: "(string \<Rightarrow> int option) \<Rightarrow> int \<Rightarrow> string \<Rightarrow> int" where
  "duration_or parse_duration dflt raw =
     (if raw = '''' then dflt
      else (case parse_duration raw of None \<Rightarrow> dflt | Some d \<Rightarrow> if d \<le> 0 then dflt else d))"

definition motherUpdateInterval :: "(string \<Rightarrow> int option) \<Rightarrow> environment \<Rightarrow> int" where
  "motherUpdateInterval parse_duration e =
     duration_or parse_duration defaultMotherUpdateInterval (Getenv e ''FW_MOTHER_UPDATE_INTERVAL'')"

definition releasePollInterval :: "(string \<Rightarrow> int option) \<Rightarrow> environment \<Rightarrow> int" where
  "releasePollInterval parse_duration e =
     duration_or parse_duration defaultReleasePoll (Getenv e ''FW_RELEASE_POLL_INTERVAL'')"

section \<open>\<open>main\<close>\<close>

record 'v site =
  st_env :: environment
  st_args :: "string list"
  st_envFile :: "string \<Rightarrow> env_file"
  st_file :: "string \<Rightarrow> 'v fdb"
  st_journal :: string
  st_tempDir :: "string + string"
  st_get :: "string \<Rightarrow> http_reply"
  st_unpack :: "string \<Rightarrow> string option \<Rightarrow> (tar_entry list \<times> string option) option"
  st_fs :: fs_host
  st_extracted :: extraction
  st_build :: build_host
  st_builds :: "string \<Rightarrow> tree"
  st_now :: int
  st_random :: "nat list"
  st_clock :: "int \<Rightarrow> int"
  st_platform :: string

record 'v library =
  lb_scale :: "'v \<Rightarrow> int \<Rightarrow> 'v"
  lb_decode :: "string \<Rightarrow> string list"
  lb_parse_url :: "string \<Rightarrow> string + url \<times> string"
  lb_parse_duration :: "string \<Rightarrow> int option"
  lb_sha256 :: "string \<Rightarrow> nat list"
  lb_alloc :: "int list \<Rightarrow> int"

record 'v server_process =
  sp_api :: "'v api"
  sp_updater :: updater_config
  sp_updateEvery :: int
  sp_pollEvery :: int
  sp_buildDir :: string
  sp_listen :: string

datatype 'v outcome =
    Panics
  | Exits nat string
  | Builds nat "build_error option" "tree list"
  | Generates "generate_error + string" "'v db"
  | Serves "'v server_process"

definition site_paths :: "environment \<Rightarrow> string \<times> string \<times> string" where
  "site_paths e =
     (let dbPath = env e ''FW_DB_PATH'' ''/var/lib/feast-watch/mother.db'' in
      (dbPath, env e ''FW_BUILD_DIR'' (JoinPath (Dir dbPath) ''builds''),
       env e ''FW_MOTHER_STAGE_DIR'' (JoinPath (Dir dbPath) ''update'')))"

text \<open>\<open>feast-watch build\<close>: from the named directory, or from the source fetched for the version.\<close>

definition run_build :: "'v library \<Rightarrow> 'v site \<Rightarrow> environment \<Rightarrow> 'v outcome" where
  "run_build lb s e =
     (if length (st_args s) < 3 then Exits 2 ''usage: feast-watch build <version>   (source from FW_SOURCE_DIR)''
      else
        let version = st_args s ! 2; sourceDir = Getenv e ''FW_SOURCE_DIR'';
            buildDir = fst (snd (site_paths e));
            built = (\<lambda>src.
              (case Build (st_build s) (lb_sha256 lb) src buildDir version (st_builds s buildDir) of
                 (None, trees) \<Rightarrow> Builds 0 None trees
               | (Some err, trees) \<Rightarrow> Builds 1 (Some err) trees))
        in if sourceDir \<noteq> '''' then built sourceDir
           else (case st_tempDir s of
               Inl msg \<Rightarrow> Exits 1 msg
             | Inr tmp \<Rightarrow>
                 (case FetchSource (st_get s) (st_unpack s) (st_fs s)
                     (env e ''FW_SOURCE_URL'' DefaultSourceRepoURL) version tmp (st_extracted s) of
                    (Some err, x) \<Rightarrow> Exits 1 ''source''
                  | (None, x) \<Rightarrow> built tmp)))"

text \<open>The settings in force at boot, if they can be read.\<close>

definition boot_settings :: "(int \<Rightarrow> int) \<Rightarrow> 'v api \<Rightarrow> 'v api" where
  "boot_settings clock a =
     (case call GetSettings a of
        (Inl err, a1) \<Rightarrow> a1
      | (Inr settings, a1) \<Rightarrow> ApplySettings clock settings a1)"

definition run_server :: "'v library \<Rightarrow> 'v site \<Rightarrow> environment \<Rightarrow> string \<Rightarrow> 'v db \<Rightarrow> 'v outcome" where
  "run_server lb s e publicURL st =
     (let apiKey = Getenv e ''FW_API_KEY'' in
      if apiKey = '''' then Exits 1 ''FW_API_KEY is required''
      else
        let (dbPath, buildDir, stageDir) = site_paths e;
            updater = \<lparr>uc_DownloadBaseURL = publicURL,
              uc_PromotePath = env e ''FW_MOTHER_PROMOTE_PATH'' ''/usr/local/sbin/feast-watch-mother-promote'',
              uc_StageDir = stageDir, uc_Platform = st_platform s, uc_MaxAttempts = motherUpdateMaxAttempts\<rparr>;
            a = SetPublicURL publicURL (New st apiKey NewCache)
        in Serves \<lparr>sp_api = boot_settings (st_clock s) a, sp_updater = updater,
             sp_updateEvery = motherUpdateInterval (lb_parse_duration lb) e,
             sp_pollEvery = releasePollInterval (lb_parse_duration lb) e,
             sp_buildDir = buildDir, sp_listen = env e ''FW_LISTEN'' '':8443''\<rparr>)"

definition main :: "'v library \<Rightarrow> 'v site \<Rightarrow> 'v outcome" where
  "main lb s =
     (let envPath = env (st_env s) ''FW_ENV_FILE'' DefaultEnvFile in
      case LoadEnvFile envPath (st_envFile s envPath) (st_env s) of
        (Some err, e) \<Rightarrow> Exits 1 ''read env file''
      | (None, e) \<Rightarrow>
          (case Open (lb_scale lb) (st_journal s) (st_file s (fst (site_paths e))) of
             None \<Rightarrow> Panics
           | Some (Inl err, fd) \<Rightarrow> Exits 1 ''open store''
           | Some (Inr applied, fd) \<Rightarrow>
               (case PublicURL (lb_parse_url lb) (Getenv e ''FW_PUBLIC_URL'') (Getenv e ''FW_PUBLIC_ADDR'') of
                  Inl err \<Rightarrow> Exits 1 ''public url''
                | Inr publicURL \<Rightarrow>
                    if length (st_args s) > 1 \<and> st_args s ! 1 = ''build'' then run_build lb s e
                    else if length (st_args s) > 1 \<and> st_args s ! 1 = ''generate'' then
                      (case RunGenerate (lb_alloc lb) (st_random s) (st_now s) publicURL (drop 2 (st_args s))
                          (store_of (lb_decode lb) fd) of
                         (r, st) \<Rightarrow> Generates r st)
                    else run_server lb s e publicURL (store_of (lb_decode lb) fd))))"

text \<open>The hourly retention job.\<close>

definition retention_tick :: "int \<Rightarrow> ('v, unit) op" where
  "retention_tick now = bnd GetSettings (\<lambda>cfg. EnforceRetention (unix now) cfg)"

section \<open>Lemmas\<close>

lemma duration_or_positive: "0 < dflt \<Longrightarrow> 0 < duration_or parse_duration dflt raw"
  by (auto simp: duration_or_def split: option.split)

lemma intervals_positive:
  "0 < motherUpdateInterval parse_duration e" "0 < releasePollInterval parse_duration e"
  by (simp_all add: motherUpdateInterval_def releasePollInterval_def duration_or_positive
      defaultMotherUpdateInterval_def defaultReleasePoll_def)

text \<open>The live window a restart comes up with: what is stored, where that can be read and counts.\<close>

definition boot_window :: "store_error + settings \<Rightarrow> int" where
  "boot_window r =
     (case r of
        Inl err \<Rightarrow> DefaultLiveWindowMinutes * Minute
      | Inr cfg \<Rightarrow> let w = wrap64 (LiveWindowMinutes cfg * Minute) in if w \<le> 0 then DefaultLiveWindowMinutes * Minute else w)"

lemma boot_settings_fields:
  fixes st :: "'v db"
  assumes "boot_settings clock (SetPublicURL u (New st key releases)) = a"
  shows "ap_key a = key" "ap_publicURL a = u" "tables (ap_db a) = tables st" "lv_series (ap_live a) = []"
    "lv_window (ap_live a) = boot_window (fst (GetSettings st))"
proof -
  obtain r a1 where c: "call GetSettings (SetPublicURL u (New st key releases)) = (r, a1)" by fastforce
  note f = call_fields [OF c]
  have g: "GetSettings st = (r, ap_db a1)" using f(1) by (simp add: SetPublicURL_def New_def)
  have t: "tables (ap_db a1) = tables st" by (rule read_onlyD [OF read_only_GetSettings g])
  have a1: "ap_key a1 = key" "ap_publicURL a1 = u" "ap_live a1 = new_live (DefaultLiveWindowMinutes * Minute)"
    by (subst f(2), simp add: SetPublicURL_def New_def)+
  show "ap_key a = key" "ap_publicURL a = u" "tables (ap_db a) = tables st" "lv_series (ap_live a) = []"
    "lv_window (ap_live a) = boot_window (fst (GetSettings st))"
    using assms c t a1 g
    by (cases r; force simp: boot_settings_def ApplySettings_def SetWindow_def new_live_def boot_window_def Let_def
        DefaultLiveWindowMinutes_def)+
qed

lemma boot_settings_db: "healthy st \<Longrightarrow> ap_db (boot_settings clock (SetPublicURL u (New st key releases))) = st"
  by (simp add: boot_settings_def call_def SetPublicURL_def New_def GetSettings_healthy ApplySettings_def split: sum.split)

lemma run_server_Serves:
  assumes "run_server lb s e u st = Serves p"
  shows "Getenv e ''FW_API_KEY'' \<noteq> ''''" "sp_pollEvery p = releasePollInterval (lb_parse_duration lb) e"
    "sp_updateEvery p = motherUpdateInterval (lb_parse_duration lb) e"
    "sp_api p = boot_settings (st_clock s) (SetPublicURL u (New st (Getenv e ''FW_API_KEY'') NewCache))"
    "uc_DownloadBaseURL (sp_updater p) = u" "uc_MaxAttempts (sp_updater p) = 3"
  using assms by (auto simp: run_server_def Let_def motherUpdateMaxAttempts_def split: if_splits prod.splits)


text \<open>The pairs of a \<open>settings\<close> table, without the two keys the migrations retire.\<close>

definition kept_settings :: "'v table \<Rightarrow> (string \<times> string) list" where
  "kept_settings conf = map (\<lambda>r. (text_at r ''key'', text_at r ''value''))
     (filter (\<lambda>r. map_of r ''key'' \<notin> {Some (VText ''desired_version''), Some (VText ''retention_raw_hours'')}) (tb_Rows conf))"

lemma store_of_settings:
  "lookup fd ''settings'' = Some (without_key ''retention_raw_hours'' (without_key ''desired_version'' conf)) \<Longrightarrow>
   settings_tab (store_of decode fd) = kept_settings conf"
  by (simp add: store_of_def rows_of_def without_key_def kept_settings_def conj_commute)

lemma upgraded_text:
  assumes "typed_row cols r" "map_of cols ''desired_version'' \<in> {None, Some TText}"
  shows "(case upgraded_cell g r ''desired_version'' of Some (VText t) \<Rightarrow> t | _ \<Rightarrow> '''') =
    (if text_at r ''desired_version'' = '''' then g else text_at r ''desired_version'')"
  using typed_row_map_of [OF assms(1), of "''desired_version''"] assms(2)
  by (auto simp: upgraded_cell_def text_at_def added_first_def added_uninstall_def cell_types split: option.splits)

lemma store_of_servers:
  assumes "lookup fd ''servers'' = Some (servers_after g srv)" "typed_table srv"
    and "map_of (tb_Columns srv) ''desired_version'' \<in> {None, Some TText}"
  shows "length (servers (store_of decode fd)) = length (tb_Rows srv) \<and>
    (\<forall>i < length (tb_Rows srv). let r = tb_Rows srv ! i; sv = servers (store_of decode fd) ! i in
       srv_ID sv = int_at r ''id'' \<and> srv_Name sv = text_at r ''name'' \<and> srv_Token sv = text_at r ''token'' \<and>
       srv_Collectors sv = decode (text_at r ''collectors'') \<and>
       srv_DesiredVersion sv = (if text_at r ''desired_version'' = '''' then g else text_at r ''desired_version''))"
proof (intro conjI allI impI)
  show "length (servers (store_of decode fd)) = length (tb_Rows srv)"
    using assms(1) by (simp add: store_of_def rows_of_def servers_after_rows)
next
  fix i assume i: "i < length (tb_Rows srv)"
  then have typed: "typed_row (tb_Columns srv) (tb_Rows srv ! i)"
    using assms(2) by (auto simp: typed_table_def list_all_iff)
  have "servers (store_of decode fd) ! i = server_of_row decode (row_after g srv (tb_Rows srv ! i))"
    using assms(1) i by (simp add: store_of_def rows_of_def servers_after_rows)
  then show "let r = tb_Rows srv ! i; sv = servers (store_of decode fd) ! i in
       srv_ID sv = int_at r ''id'' \<and> srv_Name sv = text_at r ''name'' \<and> srv_Token sv = text_at r ''token'' \<and>
       srv_Collectors sv = decode (text_at r ''collectors'') \<and>
       srv_DesiredVersion sv = (if text_at r ''desired_version'' = '''' then g else text_at r ''desired_version'')"
    using upgraded_text [OF typed assms(3), of g]
    by (simp add: Let_def server_of_row_def int_at_def text_at_def row_after_cell [OF typed])
      (simp add: upgraded_cell_def added_first_def added_uninstall_def split: option.split)
qed

section \<open>Properties\<close>


text \<open>
  C39. Replacing a mother of the first releases loses nobody: started on the file it left, with an API
  key and a usable address, the new mother serves; it knows every server by the same id, name and
  token, so every agent still authenticates, with the fleet's target where the server had none of
  its own; and every numeric setting the operator had stored is the one in force, the retired keys
  notwithstanding.
\<close>

theorem main_keeps_fleet:
  assumes "LoadEnvFile path (st_envFile s path) (st_env s) = (None, e)" and "path = env (st_env s) ''FW_ENV_FILE'' DefaultEnvFile"
    and "st_file s (fst (site_paths e)) = old" and "legacy old" and "fd_faults old = []" and "wal (st_journal s)"
    and "PublicURL (lb_parse_url lb) (Getenv e ''FW_PUBLIC_URL'') (Getenv e ''FW_PUBLIC_ADDR'') = Inr u"
    and "Getenv e ''FW_API_KEY'' \<noteq> ''''" and "length (st_args s) = 1"
    and "lookup old ''servers'' = Some srv" and "map_of (tb_Columns srv) ''desired_version'' \<in> {None, Some TText}"
    and "lookup old ''settings'' = Some conf" and "settings_tab_ok (kept_settings conf)"
  shows "\<exists>p settings. main lb s = Serves p \<and>
    length (servers (ap_db (sp_api p))) = length (tb_Rows srv) \<and>
    (\<forall>i < length (tb_Rows srv). let r = tb_Rows srv ! i; sv = servers (ap_db (sp_api p)) ! i in
       srv_ID sv = int_at r ''id'' \<and> srv_Name sv = text_at r ''name'' \<and> srv_Token sv = text_at r ''token'' \<and>
       srv_Collectors sv = lb_decode lb (text_at r ''collectors'') \<and>
       srv_DesiredVersion sv = (if text_at r ''desired_version'' = '''' then global_target conf else text_at r ''desired_version'')) \<and>
    fst (GetSettings (ap_db (sp_api p))) = Inr settings \<and>
    (\<forall>k \<in> setting_keys. setting_of settings k =
       (case map_of (kept_settings conf) k of None \<Rightarrow> setting_of defaultSettings k | Some v \<Rightarrow> the (ParseInt v))) \<and>
    lv_window (ap_live (sp_api p)) = boot_window (Inr settings)"
proof -
  obtain fd where fd: "Open (lb_scale lb) (st_journal s) old = Some (Inr 6, fd)" "fd_faults fd = []"
    "lookup fd ''servers'' = Some (servers_after (global_target conf) srv)"
    "lookup fd ''settings'' = Some (without_key ''retention_raw_hours'' (without_key ''desired_version'' conf))"
    using legacy_upgrade [OF assms(4-6,10,12), of "lb_scale lb"] by (elim exE conjE) (rule that)
  define st where "st = store_of (lb_decode lb) fd"
  have "main lb s = run_server lb s e u st"
    using assms(1-3,7,9) fd(1) by (simp add: main_def st_def)
  moreover obtain p where p: "run_server lb s e u st = Serves p"
    using assms(8) by (cases "site_paths e") (simp add: run_server_def Let_def)
  note srv = run_server_Serves [OF p] and api = boot_settings_fields [OF srv(4) [symmetric]]
  obtain settings where settings: "scan_settings defaultSettings (kept_settings conf) = Inr settings"
    using scan_settings_Inr [of "kept_settings conf"] assms(13) unfolding settings_tab_ok_def by blast
  have h: "healthy st" using fd(2) by (simp add: healthy_def st_def store_of_def)
  then have db: "ap_db (sp_api p) = st" using srv(4) boot_settings_db by simp
  have g: "fst (GetSettings st) = Inr settings"
    using GetSettings_healthy [OF h] settings store_of_settings [OF fd(4)] by (simp add: st_def)
  moreover have "setting_of settings k = (case map_of (kept_settings conf) k of None \<Rightarrow> setting_of defaultSettings k | Some v \<Rightarrow> the (ParseInt v))"
    if "k \<in> setting_keys" for k
    using scan_settings_field [OF settings _ that] assms(13) by (simp add: settings_tab_ok_def)
  moreover have "typed_table srv" using assms(4,10) by (simp add: legacy_def well_typed_def)
  note store_of_servers [OF fd(3) this assms(11), of "lb_decode lb", folded st_def]
  ultimately show ?thesis using p api(5) by (intro exI [of _ p] exI [of _ settings]) (simp add: db)
qed

section \<open>Witnesses\<close>

definition sample_library :: "int library" where
  "sample_library = \<lparr>lb_scale = (\<lambda>x n. x * n), lb_decode = (\<lambda>_. []), lb_parse_url = sample_parse,
     lb_parse_duration = (\<lambda>_. None), lb_sha256 = (\<lambda>_. []), lb_alloc = (\<lambda>_. 1)\<rparr>"

definition sample_site :: "int site" where
  "sample_site = \<lparr>st_env = [(''FW_API_KEY'', ''k'')], st_args = [''feast-watch''], st_envFile = (\<lambda>_. NoFile),
     st_file = (\<lambda>_. first_release), st_journal = ''wal'', st_tempDir = Inl ''no space left on device'',
     st_get = (\<lambda>_. NoReply ''no route to host''), st_unpack = (\<lambda>_ _. None), st_fs = sample_fs, st_extracted = nothing_there,
     st_build = sample_host, st_builds = (\<lambda>_. []), st_now = 0, st_random = [], st_clock = (\<lambda>_. 0),
     st_platform = ''linux-amd64''\<rparr>"

lemma sample_url: "PublicURL sample_parse '''' '''' = Inr DefaultPublicURL"
proof -
  have "TrimSpace '''' = ''''" by (rule TrimSpace_plain) simp
  then show ?thesis by (simp add: PublicURL_def)
qed

lemma sample_tables:
  "lookup first_release ''servers'' = Some (snd (fd_tables first_release ! 0))"
  "lookup first_release ''settings'' = Some (snd (fd_tables first_release ! 2))"
  by (simp_all add: first_release_def)

lemma sample_settings: "kept_settings (snd (fd_tables first_release ! 2)) = [(''interval'', ''10'')]"
  by (simp add: kept_settings_def first_release_def text_at_def)

lemma ten: "ParseInt ''10'' = Some 10" by code_simp

lemma main_keeps_fleet_witness:
  "\<exists>p sv. main sample_library sample_site = Serves p \<and> servers (ap_db (sp_api p)) = [sv] \<and>
     srv_ID sv = 1 \<and> srv_Name sv = ''db-1'' \<and> srv_DesiredVersion sv = ''v2''"
proof -
  let ?srv = "snd (fd_tables first_release ! 0)"
  let ?conf = "snd (fd_tables first_release ! 2)"
  have e: "LoadEnvFile (env (st_env sample_site) ''FW_ENV_FILE'' DefaultEnvFile)
      (st_envFile sample_site (env (st_env sample_site) ''FW_ENV_FILE'' DefaultEnvFile)) (st_env sample_site) =
      (None, [(''FW_API_KEY'', ''k'')])"
    by (simp add: sample_site_def LoadEnvFile_def)
  have "\<exists>p settings. main sample_library sample_site = Serves p \<and>
    length (servers (ap_db (sp_api p))) = length (tb_Rows ?srv) \<and>
    (\<forall>i < length (tb_Rows ?srv). let r = tb_Rows ?srv ! i; sv = servers (ap_db (sp_api p)) ! i in
       srv_ID sv = int_at r ''id'' \<and> srv_Name sv = text_at r ''name'' \<and> srv_Token sv = text_at r ''token'' \<and>
       srv_Collectors sv = lb_decode sample_library (text_at r ''collectors'') \<and>
       srv_DesiredVersion sv = (if text_at r ''desired_version'' = '''' then global_target ?conf else text_at r ''desired_version'')) \<and>
    fst (GetSettings (ap_db (sp_api p))) = Inr settings \<and>
    (\<forall>k \<in> setting_keys. setting_of settings k =
       (case map_of (kept_settings ?conf) k of None \<Rightarrow> setting_of defaultSettings k | Some v \<Rightarrow> the (ParseInt v))) \<and>
    lv_window (ap_live (sp_api p)) = boot_window (Inr settings)"
    by (rule main_keeps_fleet [OF e refl _ first_release_legacy _ _ _ _ sample_tables(1) _ sample_tables(2)])
      (simp_all add: sample_site_def sample_library_def wal_def Getenv_def sample_url sample_settings settings_tab_ok_def ten,
       simp add: first_release_def)
  moreover have "tb_Rows ?srv = [[(''id'', VInt 1), (''name'', VText ''db-1'')]]" "global_target ?conf = ''v2''"
    by (simp_all add: first_release_def global_target_def setting_text_def)
  ultimately show ?thesis by (force simp: int_at_def text_at_def length_Suc_conv)
qed


end
