(* ===== verification/Mother_System.thy ===== *)
theory Mother_System
  imports Mother_Main
begin

text \<open>
  The mother as a whole: what a request may do, whichever route it takes; the states the process
  reaches by requests, rollout ticks, retention, index refreshes and restarts, and what holds in
  all of them as long as handlers run one after the other; and what two handlers that run at the
  same time can do.
\<close>

section \<open>Everything but one server\<close>

definition same_outside :: "int \<Rightarrow> 'v db \<Rightarrow> 'v db \<Rightarrow> bool" where
  "same_outside i d d' \<longleftrightarrow>
     filter (\<lambda>s. srv_ID s \<noteq> i) (servers d') = filter (\<lambda>s. srv_ID s \<noteq> i) (servers d) \<and>
     filter (\<lambda>(k, b). fst k \<noteq> i) (rollup_1m d') = filter (\<lambda>(k, b). fst k \<noteq> i) (rollup_1m d) \<and>
     filter (\<lambda>(k, b). fst k \<noteq> i) (rollup_1h d') = filter (\<lambda>(k, b). fst k \<noteq> i) (rollup_1h d) \<and>
     filter (\<lambda>(g, sid). sid \<noteq> i) (group_members d') = filter (\<lambda>(g, sid). sid \<noteq> i) (group_members d) \<and>
     server_groups d' = server_groups d \<and> mother_row d' = mother_row d \<and> settings_tab d' = settings_tab d"

definition live_same_outside :: "int \<Rightarrow> 'v live \<Rightarrow> 'v live \<Rightarrow> bool" where
  "live_same_outside i s s' \<longleftrightarrow> lv_window s' = lv_window s \<and> (\<forall>j. j \<noteq> i \<longrightarrow> held j s' = held j s)"

definition touches_only :: "int \<Rightarrow> 'v api \<Rightarrow> 'v api \<Rightarrow> bool" where
  "touches_only i a a' \<longleftrightarrow> same_outside i (ap_db a) (ap_db a') \<and> live_same_outside i (ap_live a) (ap_live a')"

lemma same_outside_refl [simp]: "same_outside i d d" and live_same_outside_refl [simp]: "live_same_outside i s s"
  by (simp_all add: same_outside_def live_same_outside_def)

lemma same_outside_tables [simp]: "same_outside i (tables d) d' = same_outside i d d'" "same_outside i d (tables d') = same_outside i d d'"
  by (simp_all add: same_outside_def)

lemma same_outside_eq: "tables d' = tables d \<Longrightarrow> same_outside i d d'"
  by (metis same_outside_refl same_outside_tables)

lemma same_outside_trans: "same_outside i d d' \<Longrightarrow> same_outside i d' d'' \<Longrightarrow> same_outside i d d''"
  by (simp add: same_outside_def)

lemma live_same_outside_trans: "live_same_outside i s s' \<Longrightarrow> live_same_outside i s' s'' \<Longrightarrow> live_same_outside i s s''"
  by (simp add: live_same_outside_def)

lemma touches_only_trans: "touches_only i a a' \<Longrightarrow> touches_only i a' a'' \<Longrightarrow> touches_only i a a''"
  unfolding touches_only_def by (blast intro: same_outside_trans live_same_outside_trans)

lemma same_outside_upd_server: "(\<And>s. srv_ID (f s) = srv_ID s) \<Longrightarrow> same_outside i d (upd_server i f d)"
proof -
  assume f: "\<And>s. srv_ID (f s) = srv_ID s"
  have "filter (\<lambda>s. srv_ID s \<noteq> i) (map (\<lambda>s. if srv_ID s = i then f s else s) ss) = filter (\<lambda>s. srv_ID s \<noteq> i) ss" for ss
    by (induction ss) (auto simp: f)
  then show ?thesis by (simp add: same_outside_def upd_server_def)
qed

lemma filter_update_out: "\<not> P k \<Longrightarrow> filter (\<lambda>(k, b). P k) (AList.update k v t) = filter (\<lambda>(k, b). P k) t"
  by (induction t) auto

lemma filter_upsert_samples:
  "filter (\<lambda>(k, b). fst k \<noteq> i) (upsert_samples w i ts samples t) = filter (\<lambda>(k, b). fst k \<noteq> i) t"
proof -
  have "filter (\<lambda>(k, b). fst k \<noteq> i) (upsert_bucket (i, m, x) v t) = filter (\<lambda>(k, b). fst k \<noteq> i) t" for m x v t
    unfolding upsert_bucket_def by (rule filter_update_out) simp
  note out = this
  show ?thesis
    by (induction samples arbitrary: t) (auto simp: upsert_samples_def out)
qed

lemma same_outside_fold_push: "same_outside i d (fold_push i ts samples d)"
  by (simp add: same_outside_def fold_push_def filter_upsert_samples)

lemma same_outside_purge: "same_outside i d (purge_server i d)"
  by (auto simp: same_outside_def purge_server_def intro!: filter_cong)

lemma committed_same_outside:
  assumes "committed run effect" "\<And>d. same_outside i d (effect d)"
  shows "same_outside i d (snd (run d))"
proof -
  consider "tables (snd (run d)) = tables d" | "tables (snd (run d)) = effect (tables d)"
    using committed.outcome [OF assms(1), of d] by blast
  then show ?thesis
  proof cases
    case 2
    have "same_outside i (tables d) (tables (snd (run d)))" unfolding 2 by (rule assms(2))
    then show ?thesis by simp
  qed (rule same_outside_eq)
qed

lemma outside_ApplySamples: "same_outside i d (snd (ApplySamples i ts samples d))"
  by (rule committed_same_outside [OF apply_samples.committed_axioms same_outside_fold_push])

lemma outside_TouchServer: "same_outside i d (snd (TouchServer i hb t d))"
  by (rule committed_same_outside [OF touch_server.committed_axioms]) (simp add: same_outside_upd_server touch_def)

lemma outside_SetCapabilities: "same_outside i d (snd (SetCapabilities i cs d))"
  by (rule committed_same_outside [OF set_capabilities.committed_axioms]) (simp add: same_outside_upd_server)

lemma outside_DeleteServer: "same_outside i d (snd (DeleteServer i d))"
  by (rule committed_same_outside [OF delete_server.committed_axioms same_outside_purge])

lemma touches_call: "(\<And>d. same_outside i d (snd (m d))) \<Longrightarrow> call m a = (r, a') \<Longrightarrow> touches_only i a a'"
  unfolding touches_only_def
  by (metis call_fields(1) call_live live_same_outside_refl snd_conv)

lemma live_same_outside_Add: "live_same_outside i s (live_Add now i ts samples s)"
  by (auto simp: live_same_outside_def live_Add_def held_evict) (simp add: held_def map_of_update)

lemma live_same_outside_Forget: "live_same_outside i s (Forget i s)"
  by (simp add: live_same_outside_def Forget_def held_def map_of_delete)

lemma same_outside_settings: "same_outside i d (snd (GetSettings d))"
  using read_only_GetSettings by (metis prod.collapse read_onlyD same_outside_eq)

lemma finish_push_touches: "touches_only (srv_ID srv) a (snd (finish_push pe srv req a))"
proof -
  obtain r4 a4 where c4: "call (TouchServer (srv_ID srv) (heartbeat_of req) (unix (pe_now pe))) a = (r4, a4)" by fastforce
  obtain r5 a5 where c5: "call (SetCapabilities (srv_ID srv) (iq_Capabilities req)) a4 = (r5, a5)" by fastforce
  obtain r6 a6 where c6: "call GetSettings a5 = (r6, a6)" by fastforce
  have "snd (finish_push pe srv req a) = a6"
    using c4 c5 c6 by (simp add: finish_push_def split: sum.split)
  moreover have "touches_only (srv_ID srv) a a6"
    using touches_call [OF outside_TouchServer c4] touches_call [OF outside_SetCapabilities c5] touches_call [OF same_outside_settings c6]
    by (blast intro: touches_only_trans)
  ultimately show ?thesis by simp
qed

lemma fold_in_touches: "touches_only (srv_ID srv) a (snd (fold_in pe srv samples a))"
proof -
  obtain r a1 where c: "call (ApplySamples (srv_ID srv) (unix (pe_now pe)) (pe_rollup pe samples)) a = (r, a1)" by fastforce
  from touches_call [OF outside_ApplySamples c] have "touches_only (srv_ID srv) a a1" .
  moreover from this have "touches_only (srv_ID srv) a
      (a1\<lparr>ap_live := live_Add (pe_live_at pe) (srv_ID srv) (unix (pe_now pe)) (pe_live pe samples) (ap_live a1)\<rparr>)"
    by (rule touches_only_trans) (simp add: touches_only_def live_same_outside_Add)
  moreover have "touches_only (srv_ID srv) a a" by (simp add: touches_only_def)
  ultimately show ?thesis using c by (simp add: fold_in_def Let_def split: sum.split)
qed

lemma deleteServer_touches: "touches_only i a (snd (deleteServer i a))"
proof -
  obtain r a1 where c: "call (DeleteServer i) a = (r, a1)" by fastforce
  from touches_call [OF outside_DeleteServer c] have "touches_only i a a1" .
  moreover from this have "touches_only i a (a1\<lparr>ap_live := Forget i (ap_live a1)\<rparr>)"
    by (rule touches_only_trans) (simp add: touches_only_def live_same_outside_Forget)
  ultimately show ?thesis using c by (simp add: deleteServer_def split: sum.split)
qed

text \<open>What an agent's two requests may change: something of the server whose token they carry.\<close>

definition nothing_changed :: "'v api \<Rightarrow> 'v api \<Rightarrow> bool" where
  "nothing_changed a a' \<longleftrightarrow> tables (ap_db a') = tables (ap_db a) \<and> ap_live a' = ap_live a"

definition its_own :: "string \<Rightarrow> 'v api \<Rightarrow> 'v api \<Rightarrow> bool" where
  "its_own authorization a a' \<longleftrightarrow> nothing_changed a a' \<or>
     (\<exists>srv \<in> set (servers (ap_db a)). authorization = ''Bearer '' @ srv_Token srv \<and> touches_only (srv_ID srv) a a')"

lemma bearer_allow_same:
  assumes "bearerServer auth a = (Inr srv, a1)" "allowPush (srv_ID srv) now a1 = (b, a2)"
  shows "touches_only i a a2" "nothing_changed a a2"
proof -
  note b = bearerServer_Inr(2,3) [OF assms(1)]
  have "ap_db a2 = ap_db a1" "ap_live a2 = ap_live a1" using allowPush_fields(1,2) [of "srv_ID srv" now a1] assms(2) by simp_all
  moreover have "ap_live a1 = ap_live a" by (subst b(2)) simp
  ultimately show "touches_only i a a2" "nothing_changed a a2"
    using b(1) by (simp_all add: touches_only_def nothing_changed_def same_outside_eq)
qed

lemma handleIngest_its_own: "its_own auth a (snd (handleIngest pe auth body a))"
proof (cases rule: handleIngest_cases [of pe auth body a])
  case (refused st msg a1)
  then show ?thesis by (simp add: its_own_def nothing_changed_def)
next
  case (failed srv req a1 a2 a3)
  have "touches_only (srv_ID srv) a a3"
    using touches_only_trans [OF bearer_allow_same(1) [OF failed(1,4)] fold_in_touches] failed(6) by (metis snd_conv)
  then show ?thesis using bearerServer_Inr(1) [OF failed(1)] failed(7) by (auto simp: its_own_def)
next
  case (finished srv req a1 a2 a3)
  have "touches_only (srv_ID srv) a a3"
    using touches_only_trans [OF bearer_allow_same(1) [OF finished(1,4)] fold_in_touches] finished(6) by (metis snd_conv)
  from touches_only_trans [OF this finish_push_touches] show ?thesis
    using bearerServer_Inr(1) [OF finished(1)] finished(7) by (auto simp: its_own_def)
qed

lemma handleUninstalled_its_own: "its_own auth a (snd (handleUninstalled auth a))"
proof -
  obtain r a1 where b: "bearerServer auth a = (r, a1)" by fastforce
  show ?thesis
  proof (cases r)
    case (Inl st)
    with bearerServer_Inl [OF b [unfolded Inl]] b show ?thesis
      by (auto simp: handleUninstalled_def its_own_def nothing_changed_def dest: arg_cong [where f = ap_live])
  next
    case (Inr srv)
    note auth = bearerServer_Inr [OF b [unfolded Inr]]
    have live: "ap_live a1 = ap_live a" by (subst auth(3)) simp
    then have n: "nothing_changed a a1" and t: "touches_only (srv_ID srv) a a1"
      using auth(2) by (simp_all add: nothing_changed_def touches_only_def same_outside_eq)
    have "touches_only (srv_ID srv) a (snd (deleteServer (srv_ID srv) a1))"
      using touches_only_trans [OF t deleteServer_touches] .
    then show ?thesis using n auth(1) b Inr
      by (auto simp: handleUninstalled_def its_own_def split: prod.splits sum.splits)
  qed
qed

section \<open>Requests\<close>

lemma serve_cases:
  assumes "serve ho rq a = (reply, a')"
  obtains (unrouted) "a' = a" "reply_status reply \<in> {404, 405} \<or> (\<exists>p. reply = Moved p)"
  | (routed) m pat h vs where "(m, pat, h) \<in> set (Handler ho rq)" "for_method m (rq_method rq)"
      "path_values pat (segments_of (rq_path rq)) = Some vs" "h vs a = (reply, a')"
proof -
  let ?ss = "segments_of (rq_path rq)"
  define r where "r = find (\<lambda>(m, pat, h). for_method m (rq_method rq) \<and> path_values pat ?ss \<noteq> None) (Handler ho rq)"
  have run: "(if cleanPath (rq_path rq) \<noteq> rq_path rq then (Moved (cleanPath (rq_path rq)), a)
      else (case r of Some (m, pat, h) \<Rightarrow> h (the (path_values pat ?ss)) a
        | None \<Rightarrow> if list_ex (\<lambda>(m, pat, h). path_values pat ?ss \<noteq> None) (Handler ho rq)
            then (Worded (refuse 405 ''Method Not Allowed''), a)
            else (Worded (refuse 404 ''404 page not found''), a))) = (reply, a')"
  proof (cases "cleanPath (rq_path rq) = rq_path rq")
    case True
    show ?thesis using assms unfolding serve_def Let_def r_def True .
  qed (use assms in \<open>simp add: serve_def Let_def\<close>)
  show ?thesis
  proof (cases "cleanPath (rq_path rq) = rq_path rq \<and> r \<noteq> None")
    case True
    then obtain m pat h where f: "r = Some (m, pat, h)" by auto
    from find_Some_mem [OF f [unfolded r_def]] run f True show ?thesis by (intro routed [of m pat h]) auto
  next
    case False
    with run have "a' = a" "reply_status reply \<in> {404, 405} \<or> (\<exists>p. reply = Moved p)"
      by (cases r; auto simp: refuse_def split: if_splits)+
    then show ?thesis by (rule unrouted)
  qed
qed

lemma keyed_wrong:
  "rq_apiKey rq \<noteq> ap_key a \<Longrightarrow> keyed rq f h a = (f (refuse 401 ''invalid api key''), a)"
  "ap_key a = [] \<Longrightarrow> keyed rq f h a = (f (refuse 401 ''invalid api key''), a)"
  by (simp_all add: keyed_def open_to_def requireAPIKey_def)

lemma refuse_status [simp]: "rs_status (refuse st msg) = st"
  by (simp add: refuse_def)

lemmas register_defs = registerUninstall_def registerAdmin_def registerLive_def registerSettings_def
  registerGroups_def registerChart_def registerInstall_def registerVersions_def registerMother_def registerBinaries_def

lemma nothing_changed_install: "nothing_changed a (snd (handleInstallScript render tok a))"
proof -
  obtain r a1 where c: "call (ServerByToken (TrimSuffix tok ''.sh'')) a = (r, a1)" by fastforce
  have "nothing_changed a a1"
    using call_tables(1,2) [OF c [unfolded ServerByToken_def] read_only_select] by (simp add: nothing_changed_def)
  with c show ?thesis by (simp add: handleInstallScript_def split: sum.split option.split)
qed

lemma route_kinds:
  assumes "(m, pat, h) \<in> set (Handler ho rq)"
  shows "(\<exists>pat'. pat = Lit ''api'' # pat') \<and>
      (\<forall>vs a. rq_apiKey rq \<noteq> ap_key a \<or> ap_key a = '''' \<longrightarrow> reply_status (fst (h vs a)) = 401 \<and> snd (h vs a) = a) \<or>
    (\<exists>l pat'. pat = Lit l # pat' \<and> l \<noteq> ''api'') \<and> (\<forall>vs a. its_own (rq_authorization rq) a (snd (h vs a)) \<and>
      (nothing_changed a (snd (h vs a)) \<or> m = ''POST'' \<and> pat \<in> {[Lit ''v1'', Lit ''ingest''], [Lit ''v1'', Lit ''uninstalled'']}))"
proof -
  consider (guarded) "(m, pat, h) \<in> set (registerAdmin ho rq @ registerLive ho rq @ registerSettings ho rq @
      registerGroups ho rq @ registerChart ho rq @ registerVersions ho rq @ registerMother ho rq)"
    | (agent) "(m, pat, h) \<in> {(''POST'', [Lit ''v1'', Lit ''ingest''],
        \<lambda>ps. open_to Pushed (handleIngest (ho_push ho) (rq_authorization rq) (bo_push (rq_body rq))))} \<union> set (registerUninstall ho rq)"
    | (anyone) "(m, pat, h) \<in> set (registerInstall ho rq @ registerBinaries ho rq)"
    using assms unfolding Handler_def by auto
  then show ?thesis
  proof cases
    case guarded
    then have "(\<exists>pat'. pat = Lit ''api'' # pat') \<and>
      (\<forall>vs a. rq_apiKey rq \<noteq> ap_key a \<or> ap_key a = '''' \<longrightarrow> reply_status (fst (h vs a)) = 401 \<and> snd (h vs a) = a)"
      unfolding register_defs set_append Un_iff by (auto simp: keyed_wrong)
    then show ?thesis by (rule disjI1)
  next
    case agent
    then have "pat \<in> {[Lit ''v1'', Lit ''ingest''], [Lit ''v1'', Lit ''uninstalled'']} \<and> m = ''POST'' \<and>
      (\<forall>vs a. its_own (rq_authorization rq) a (snd (h vs a)))"
      unfolding register_defs by (auto simp: open_to_def handleIngest_its_own handleUninstalled_its_own)
    then show ?thesis by auto
  next
    case anyone
    then have "(\<exists>l pat'. pat = Lit l # pat' \<and> l \<noteq> ''api'') \<and> (\<forall>vs a. nothing_changed a (snd (h vs a)))"
      unfolding register_defs by (auto simp: open_to_def stateless_def nothing_changed_install) (simp_all add: nothing_changed_def)
    then show ?thesis by (auto simp: its_own_def)
  qed
qed

lemma api_segment:
  assumes "HasPrefix path ''/api/''" "path_values (Lit l # pat) (segments_of path) = Some vs"
  shows "l = ''api''"
proof -
  from assms(1) obtain rest where "path = ''/api/'' @ rest" by (auto simp: HasPrefix_iff)
  then obtain s ss where "segments_of path = ''api'' # s # ss"
    by (cases "Split rest CHR ''/''") (simp_all add: segments_of_def)
  moreover have "unescaped ''api'' = ''api''" by code_simp
  ultimately show ?thesis using assms(2) by (simp split: if_splits)
qed

section \<open>Properties of requests\<close>

text \<open>
  C5. The API key guards the fleet. Whatever request arrives without it, or while the mother has
  none: under \<open>/api/\<close> it changes nothing at all and is answered 401, or 404, 405 or a redirect where
  no handler takes it; anywhere else it changes tables and live tail only as an agent's own POST to
  one of the agents' two routes, with the token of a known server, and then nothing that belongs to
  any other server, no group, no setting and no target of the mother.
\<close>

theorem serve_authorised:
  assumes "serve ho rq a = (reply, a')" and "rq_apiKey rq \<noteq> ap_key a \<or> ap_key a = ''''"
  shows "(HasPrefix (rq_path rq) ''/api/'' \<longrightarrow> a' = a \<and> (reply_status reply \<in> {401, 404, 405} \<or> (\<exists>p. reply = Moved p))) \<and>
    (nothing_changed a a' \<or>
     rq_method rq = ''POST'' \<and>
     (\<exists>pat \<in> {[Lit ''v1'', Lit ''ingest''], [Lit ''v1'', Lit ''uninstalled'']}. path_values pat (segments_of (rq_path rq)) \<noteq> None) \<and>
     (\<exists>srv \<in> set (servers (ap_db a)). rq_authorization rq = ''Bearer '' @ srv_Token srv \<and> touches_only (srv_ID srv) a a'))"
  using assms(1)
proof (cases rule: serve_cases)
  case unrouted
  then show ?thesis by (auto simp: nothing_changed_def)
next
  case (routed m pat h vs)
  have end_at: "snd (h vs a) = a'" "fst (h vs a) = reply" using routed(4) by simp_all
  from route_kinds [OF routed(1)] show ?thesis
  proof (elim disjE conjE exE)
    fix pat' assume "pat = Lit ''api'' # pat'"
      and *: "\<forall>vs a. rq_apiKey rq \<noteq> ap_key a \<or> ap_key a = '''' \<longrightarrow> reply_status (fst (h vs a)) = 401 \<and> snd (h vs a) = a"
    from * assms(2) have "reply_status reply = 401" "a' = a" using end_at by blast+
    then show ?thesis by (simp add: nothing_changed_def)
  next
    fix l pat' assume p: "pat = Lit l # pat'" "l \<noteq> ''api''"
      and *: "\<forall>vs a. its_own (rq_authorization rq) a (snd (h vs a)) \<and>
        (nothing_changed a (snd (h vs a)) \<or> m = ''POST'' \<and> pat \<in> {[Lit ''v1'', Lit ''ingest''], [Lit ''v1'', Lit ''uninstalled'']})"
    have "\<not> HasPrefix (rq_path rq) ''/api/''" using api_segment routed(3) p by blast
    moreover have own: "its_own (rq_authorization rq) a a'" and
      kind: "nothing_changed a a' \<or> m = ''POST'' \<and> pat \<in> {[Lit ''v1'', Lit ''ingest''], [Lit ''v1'', Lit ''uninstalled'']}"
      using * end_at by metis+
    moreover have "m = ''POST'' \<Longrightarrow> rq_method rq = ''POST''" using routed(2) by (simp add: for_method_def)
    ultimately show ?thesis using routed(3) unfolding its_own_def by (metis option.distinct(1))
  qed
qed

definition sample_body :: "int body" where
  "sample_body = \<lparr>bo_push = None, bo_name = Some ''db-2'', bo_collectors = None, bo_settings = None,
     bo_server_ids = None, bo_version = None\<rparr>"

definition sample_mother_host :: "int mother_host" where
  "sample_mother_host = \<lparr>ho_push = sample_env, ho_alloc = next_rowid, ho_random = [1], ho_now = 0, ho_clock = (\<lambda>_. 0),
     ho_reads = (\<lambda>_. 0), ho_order = as_listed, ho_avg = (\<lambda>s n. s div n), ho_motherUpdate = None, ho_running = ''v1'',
     ho_binaries = None, ho_render = (\<lambda>f. None), ho_uninstallScript = ''#!/bin/sh''\<rparr>"

lemma serve_authorised_witness:
  "snd (serve sample_mother_host \<lparr>rq_method = ''POST'', rq_path = ''/api/servers'', rq_apiKey = ''guess'', rq_authorization = '''',
     rq_query = (\<lambda>_. ''''), rq_body = sample_body\<rparr> (New empty_db ''k'' NewCache)) = New empty_db ''k'' NewCache"
proof -
  let ?rq = "\<lparr>rq_method = ''POST'', rq_path = ''/api/servers'', rq_apiKey = ''guess'', rq_authorization = '''',
     rq_query = (\<lambda>_. ''''), rq_body = sample_body\<rparr>"
  obtain reply a' where run: "serve sample_mother_host ?rq (New empty_db ''k'' NewCache) = (reply, a')" by fastforce
  have "rq_apiKey ?rq \<noteq> ap_key (New empty_db ''k'' NewCache)" by (simp add: New_def)
  from serve_authorised [OF run disjI1 [OF this]] have "a' = New empty_db ''k'' NewCache" by (simp add: HasPrefix_def)
  with run show ?thesis by simp
qed

section \<open>What every request keeps\<close>

definition ids :: "'v db \<Rightarrow> int set" where
  "ids d = srv_ID ` set (servers d)"

definition owners :: "'v db \<Rightarrow> int set" where
  "owners d = fst ` fst ` (set (rollup_1m d) \<union> set (rollup_1h d))"

definition tracked :: "'v live \<Rightarrow> int set" where
  "tracked s = fst ` set (lv_series s)"

definition fleet_with :: "int set \<Rightarrow> 'v::linorder db \<Rightarrow> bool" where
  "fleet_with K d \<longleftrightarrow> db_ok d \<and> owners d \<subseteq> ids d \<and> K \<subseteq> ids d"

text \<open>Every row and every series belongs to a server that exists, and the tables are sound.\<close>

definition mother_ok :: "'v::linorder api \<Rightarrow> bool" where
  "mother_ok a \<longleftrightarrow> fleet_with (tracked (ap_live a)) (ap_db a)"

lemma table_pred_fleet: "table_pred (fleet_with K)"
  by (rule table_predI) (simp add: fleet_with_def ids_def owners_def)

lemma fleet_with_mono:
  "fleet_with K d \<Longrightarrow> db_ok d' \<Longrightarrow> ids d \<subseteq> ids d' \<Longrightarrow> owners d' \<subseteq> owners d \<Longrightarrow> fleet_with K d'"
  by (auto simp: fleet_with_def)

lemma keeps_read_only: "table_pred P \<Longrightarrow> read_only m \<Longrightarrow> keeps P m"
  unfolding keeps_def read_only_def by (metis table_predD)

lemma keeps_committed:
  assumes "committed run effect" "table_pred P" "\<And>d. P d \<Longrightarrow> P (effect d)"
  shows "keeps P run"
  unfolding keeps_def
proof (intro allI impI)
  fix d assume "P d"
  then have t: "P (tables d)" by (rule table_predD [OF assms(2)]) simp
  from committed.outcome [OF assms(1), of d] show "P (snd (run d))"
    using table_predD [OF assms(2) \<open>P d\<close>] table_predD [OF assms(2) assms(3) [OF t]] by (metis tables_idem)
qed

text \<open>An operation that keeps the tables sound, forgets no server and adds no bucket.\<close>

lemma keeps_both: "keeps P m \<Longrightarrow> keeps Q m \<Longrightarrow> keeps (\<lambda>d. P d \<and> Q d) m"
  by (simp add: keeps_def)

definition covers :: "int set \<Rightarrow> 'v db \<Rightarrow> bool" where
  "covers K d \<longleftrightarrow> owners d \<subseteq> ids d \<and> K \<subseteq> ids d"

lemma fleet_with_covers: "fleet_with K = (\<lambda>d. db_ok d \<and> covers K d)"
  by (simp add: fleet_with_def covers_def fun_eq_iff)

lemma table_pred_covers [simp]: "table_pred (covers K)"
  by (rule table_predI) (simp add: covers_def owners_def ids_def)

lemma covers_mono: "covers K d \<Longrightarrow> ids d \<subseteq> ids d' \<Longrightarrow> owners d' \<subseteq> owners d \<Longrightarrow> covers K d'"
  by (auto simp: covers_def)

lemma keeps_fleet: "keeps db_ok m \<Longrightarrow> keeps (covers K) m \<Longrightarrow> keeps (fleet_with K) m"
  unfolding fleet_with_covers by (rule keeps_both)

lemma keeps_covers_modify:
  "(\<And>d. ids d \<subseteq> ids (f d) \<and> owners (f d) \<subseteq> owners d) \<Longrightarrow> keeps (covers K) (modify f)"
  by (rule keeps_modify) (auto intro: covers_mono)

lemma ids_upd_server [simp]: "(\<And>s. srv_ID (f s) = srv_ID s) \<Longrightarrow> ids (upd_server i f d) = ids d"
proof -
  assume f: "\<And>s. srv_ID (f s) = srv_ID s"
  then have "map srv_ID (servers (upd_server i f d)) = map srv_ID (servers d)" by (simp add: upd_server_def)
  then show ?thesis unfolding ids_def by (metis set_map)
qed

lemma ids_owners_same [simp]:
  "owners (upd_server i f d) = owners d"
  "ids (upd_mother g d) = ids d" "owners (upd_mother g d) = owners d"
  "ids (upsert_mother r g d) = ids d" "owners (upsert_mother r g d) = owners d"
  "ids (del_members P d) = ids d" "owners (del_members P d) = owners d"
  "ids (add_members gid sids d) = ids d" "owners (add_members gid sids d) = owners d"
  "ids (del_groups i d) = ids d" "owners (del_groups i d) = owners d"
  "ids (put_setting k v d) = ids d" "owners (put_setting k v d) = owners d"
  "ids (del_rollup_1m Q d) = ids d" "ids (del_rollup_1h Q d) = ids d"
  "ids (d\<lparr>server_groups := gs\<rparr>) = ids d" "owners (d\<lparr>server_groups := gs\<rparr>) = owners d"
  by (simp_all add: ids_def owners_def upd_server_def upd_mother_def upsert_mother_def del_members_def
      add_members_def del_groups_def put_setting_def del_rollup_1m_def del_rollup_1h_def)

lemma owners_del [simp]: "owners (del_rollup_1m Q d) \<subseteq> owners d" "owners (del_rollup_1h Q d) \<subseteq> owners d"
  unfolding owners_def by (intro image_mono; auto simp: del_rollup_1m_def del_rollup_1h_def)+

lemma keeps_covers_count: "(\<And>s. srv_ID (f s) = srv_ID s) \<Longrightarrow> keeps (covers K) (upd_server_count i f)"
  unfolding upd_server_count_def by (rule keeps_exec) (auto intro: covers_mono)

lemma keeps_covers_updates:
  "keeps (covers K) (TouchServer i hb now)" "keeps (covers K) (SetDesiredVersion i v)"
  "keeps (covers K) (SetCapabilities i cs)" "keeps (covers K) (SetCollectors i cs)"
  "keeps (covers K) (RequestUninstall now i)" "keeps (covers K) (EnforceRetention now cfg)"
  "keeps (covers K) (DeleteHistory sid from to)"
  unfolding TouchServer_def SetDesiredVersion_def SetCapabilities_def SetCollectors_def
    RequestUninstall_def EnforceRetention_def DeleteHistory_def
  by (auto intro!: keeps_rules keeps_covers_modify keeps_covers_count keeps_require_rows
      simp: touch_def intro: subsetD [OF owners_del(1)] subsetD [OF owners_del(2)])

lemma keeps_covers_mother:
  "keeps (covers K) (SetMotherDesiredVersion v now)" "keeps (covers K) BeginMotherAttempt"
  "keeps (covers K) (StageMotherUpdate v)" "keeps (covers K) (RecordMotherUpdateError msg)"
  "keeps (covers K) (FailMotherUpdate msg)" "keeps (covers K) (ClearMotherUpdate t)"
  unfolding SetMotherDesiredVersion_def BeginMotherAttempt_def StageMotherUpdate_def
    RecordMotherUpdateError_def FailMotherUpdate_def ClearMotherUpdate_def MotherUpdate_def
  by (auto intro!: keeps_rules keeps_covers_modify simp: covers_def)

lemma keeps_covers_groups:
  "keeps (covers K) (RenameGroup i name)" "keeps (covers K) (DeleteGroup i)" "keeps (covers K) (SetGroupServers i sids)"
proof -
  have "keeps (covers K) (exec (rename_group i clean))" for clean
    by (rule keeps_exec) (auto simp: rename_group_def Let_def intro: covers_mono split: if_splits)
  then show "keeps (covers K) (RenameGroup i name)"
    by (auto simp: RenameGroup_def intro!: keeps_rules keeps_require_rows split: option.split)
  have "keeps (covers K) (del_groups_count i)"
    unfolding del_groups_count_def by (rule keeps_exec) (auto intro: covers_mono)
  then show "keeps (covers K) (DeleteGroup i)"
    unfolding DeleteGroup_def by (auto intro!: keeps_rules keeps_covers_modify keeps_require_rows)
  have "keeps (covers K) (groupExists i)"
    by (rule keeps_read_only [OF table_pred_covers read_only_groupExists])
  then show "keeps (covers K) (SetGroupServers i sids)"
    unfolding SetGroupServers_def by (auto intro!: keeps_rules keeps_covers_modify)
qed

lemma keeps_covers_create: "keeps (covers K) (CreateGroup alloc now name)"
  unfolding keeps_def
proof (intro allI impI)
  fix d :: "'a db" assume c: "covers K d"
  obtain r d' where run: "CreateGroup alloc now name d = (r, d')" by fastforce
  show "covers K (snd (CreateGroup alloc now name d))"
  proof (cases r)
    case (Inl e)
    with run c show ?thesis by (auto dest!: CreateGroup_Inl intro: table_predD [OF table_pred_covers])
  next
    case (Inr g)
    have "covers K (d\<lparr>server_groups := gs\<rparr>)" for gs using c by (simp add: covers_def)
    from table_predD [OF table_pred_covers this CreateGroup_Inr(4) [OF run [unfolded Inr]]] run show ?thesis by simp
  qed
qed

lemma keeps_covers_add: "keeps (covers K) (AddServer alloc rnd now name)"
  unfolding keeps_def
proof (intro allI impI)
  fix d :: "'a db" assume c: "covers K d"
  obtain r d' where run: "AddServer alloc rnd now name d = (r, d')" by fastforce
  show "covers K (snd (AddServer alloc rnd now name d))"
  proof (cases r)
    case (Inl e)
    with run c show ?thesis by (auto dest!: AddServer_Inl intro: table_predD [OF table_pred_covers])
  next
    case (Inr s)
    have "covers K (d\<lparr>servers := servers d @ [s]\<rparr>)" using c by (auto simp: covers_def ids_def owners_def)
    from table_predD [OF table_pred_covers this AddServer_Inr(4) [OF run [unfolded Inr]]] run show ?thesis by simp
  qed
qed

lemma keeps_covers_save: "keeps (covers K) (SaveSettings ord s)"
proof -
  have "keeps (covers K) (save_pairs ps)" for ps
    by (induction ps rule: save_pairs.induct) (auto intro!: keeps_rules keeps_covers_modify)
  then show ?thesis by (simp add: SaveSettings_def)
qed

lemma keeps_apply:
  "keeps (\<lambda>d. fleet_with K d \<and> i \<in> ids d) (ApplySamples i ts samples)"
proof (rule keeps_committed [OF apply_samples.committed_axioms])
  show "table_pred (\<lambda>d. fleet_with K d \<and> i \<in> ids d)"
    by (rule table_predI) (simp add: fleet_with_def ids_def owners_def)
  fix d :: "'a db" assume d: "fleet_with K d \<and> i \<in> ids d"
  have grow: "fst ` fst ` set (upsert_samples w i ts samples t) \<subseteq> insert i (fst ` fst ` set t)" for w and t :: "'a tier"
  proof -
    have "fst ` set (AList.update k v t) = insert k (fst ` set t)" for k v and t :: "'a tier"
      by (induction t) auto
    then have one: "fst ` fst ` set (upsert_bucket (i, m, x) v t) \<subseteq> insert i (fst ` fst ` set t)" for m x v and t :: "'a tier"
      by (simp add: upsert_bucket_def)
    have "fst ` fst ` set (foldl (\<lambda>t (m, v). upsert_bucket (i, m, x) v t) t ss) \<subseteq> insert i (fst ` fst ` set t)" for x ss and t :: "'a tier"
    proof (induction ss arbitrary: t)
      case (Cons p ss)
      obtain m v where p: "p = (m, v)" by (cases p)
      show ?case unfolding p foldl.simps prod.case
        by (rule subset_trans [OF Cons.IH]) (use one [of m x v t] in blast)
    qed auto
    then show ?thesis by (simp add: upsert_samples_def)
  qed
  have "owners (fold_push i ts samples d) \<subseteq> insert i (owners d)"
  proof -
    have "owners (fold_push i ts samples d) =
        fst ` fst ` set (upsert_samples width_1m i ts samples (rollup_1m d)) \<union> fst ` fst ` set (upsert_samples width_1h i ts samples (rollup_1h d))"
      by (simp add: owners_def fold_push_def image_Un)
    moreover have "owners d = fst ` fst ` set (rollup_1m d) \<union> fst ` fst ` set (rollup_1h d)"
      by (simp add: owners_def image_Un)
    ultimately show ?thesis
      by (simp only:) (rule Un_least; rule subset_trans [OF grow]; rule insert_mono; simp)
  qed
  moreover have "db_ok (fold_push i ts samples d)"
    using d by (simp add: fold_push_steps fleet_with_def db_ok_upserts)
  moreover have "ids (fold_push i ts samples d) = ids d" by (simp add: ids_def fold_push_def)
  ultimately show "fleet_with K (fold_push i ts samples d) \<and> i \<in> ids (fold_push i ts samples d)"
    using d by (auto simp: fleet_with_def)
qed

lemma fleet_delete:
  assumes "fleet_with K d" "DeleteServer i d = (Inr u, d')"
  shows "fleet_with (K - {i}) d'"
proof -
  have "ids (purge_server i d) = ids d - {i}" by (auto simp: ids_def purge_server_def)
  moreover have "owners (purge_server i d) \<subseteq> owners d - {i}" by (force simp: owners_def purge_server_def)
  moreover have "db_ok d \<Longrightarrow> db_ok (purge_server i d)"
    by (simp add: db_ok_def purge_server_def servers_ok_filter tier_ok_filter)
  ultimately have "fleet_with (K - {i}) (purge_server i d)" using assms(1) by (auto simp: fleet_with_def)
  moreover have "tables (purge_server i d) = tables d'"
    using delete_server.success_effect [OF assms(2)] by (simp add: purge_server_def tables_def)
  ultimately show ?thesis by (metis table_predD table_pred_fleet)
qed

text \<open>The operations the handlers call that neither delete a server nor add samples.\<close>

lemma keeps_fleet_ops:
  "keeps (fleet_with K) (SetDesiredVersion i v)" "keeps (fleet_with K) (SetCollectors i cs)"
  "keeps (fleet_with K) (TouchServer i hb now)" "keeps (fleet_with K) (SetCapabilities i cs)"
  "keeps (fleet_with K) (RequestUninstall now i)" "keeps (fleet_with K) (EnforceRetention now cfg)"
  "keeps (fleet_with K) (DeleteHistory sid from to)" "keeps (fleet_with K) (RenameGroup i name)"
  "keeps (fleet_with K) (DeleteGroup i)" "keeps (fleet_with K) (SetGroupServers i sids)"
  "keeps (fleet_with K) (SetMotherDesiredVersion v now)" "keeps (fleet_with K) BeginMotherAttempt"
  "keeps (fleet_with K) (StageMotherUpdate v)" "keeps (fleet_with K) (RecordMotherUpdateError msg)"
  "keeps (fleet_with K) (FailMotherUpdate msg)" "keeps (fleet_with K) (ClearMotherUpdate t)"
  by (intro keeps_fleet keeps_deletes keeps_server_updates keeps_mother_updates keeps_RenameGroup keeps_DeleteGroup
      keeps_SetGroupServers keeps_covers_updates keeps_covers_groups keeps_covers_mother)+

lemma read_only_handlers:
  "read_only GetSettings" "read_only ListServers" "read_only (ServersInGroup i)" "read_only GroupsByServer"
  "read_only (ServerByID i)" "read_only (ServerByToken tok)" "read_only ListGroups" "read_only MotherUpdate"
  "read_only (query f)" "read_only (groupMembers i)"
  by (simp_all add: read_only_GetSettings ListServers_def ServersInGroup_def GroupsByServer_def ServerByID_def
      ServerByToken_def ListGroups_def MotherUpdate_def read_only_query read_only_select groupMembers_def)
    (auto intro!: read_only_rules simp: read_only_query read_only_fail ServersInGroup_def)

lemma keeps_fleet_reads: "read_only m \<Longrightarrow> keeps (fleet_with K) m"
  by (rule keeps_read_only [OF table_pred_fleet])

text \<open>Handlers as state transformers that keep the fleet sound.\<close>

definition sound :: "('v::linorder api \<Rightarrow> 'r \<times> 'v api) \<Rightarrow> bool" where
  "sound h \<longleftrightarrow> (\<forall>a. mother_ok a \<longrightarrow> mother_ok (snd (h a)))"

lemma soundD: "sound h \<Longrightarrow> mother_ok a \<Longrightarrow> h a = (r, a') \<Longrightarrow> mother_ok a'"
  unfolding sound_def by (metis snd_conv)

lemma sound_call:
  assumes "\<And>K. keeps (fleet_with K) m" "\<And>a r. sound (k a r)"
  shows "sound (\<lambda>a. case call m a of (r, a') \<Rightarrow> k a r a')"
  unfolding sound_def
proof (intro allI impI)
  fix a :: "'a api" assume ok: "mother_ok a"
  obtain r a' where c: "call m a = (r, a')" by fastforce
  note f = call_fields [OF c]
  have "fleet_with (tracked (ap_live a)) (ap_db a')"
    using keepsD [OF assms(1)] ok f(1) unfolding mother_ok_def by (metis snd_conv)
  moreover have "ap_live a' = ap_live a" by (subst f(2)) simp
  ultimately have "mother_ok a'" by (simp add: mother_ok_def)
  with assms(2) c show "mother_ok (snd (case call m a of (r, a') \<Rightarrow> k a r a'))" by (simp add: sound_def)
qed

named_theorems sound_rules

lemma sound_done [sound_rules]: "sound (\<lambda>a. (r a, a))"
  by (simp add: sound_def)

lemma sound_sum [sound_rules]:
  "(\<And>e. sound (f e)) \<Longrightarrow> (\<And>x. sound (g x)) \<Longrightarrow> sound (\<lambda>a. case r a of Inl e \<Rightarrow> f e a | Inr x \<Rightarrow> g x a)"
  by (simp add: sound_def split: sum.split)

lemma sound_option [sound_rules]:
  "sound f \<Longrightarrow> (\<And>x. sound (g x)) \<Longrightarrow> sound (\<lambda>a. case r a of None \<Rightarrow> f a | Some x \<Rightarrow> g x a)"
  by (simp add: sound_def split: option.split)

lemma sound_if [sound_rules]: "sound f \<Longrightarrow> sound g \<Longrightarrow> sound (\<lambda>a. if b a then f a else g a)"
  by (simp add: sound_def)

lemma sound_error [sound_rules]:
  "sound f1 \<Longrightarrow> sound f2 \<Longrightarrow> sound f3 \<Longrightarrow> sound f4 \<Longrightarrow> (\<And>k v. sound (f5 k v)) \<Longrightarrow> (\<And>m. sound (f6 m)) \<Longrightarrow>
   sound (\<lambda>a. case e of ErrNotFound \<Rightarrow> f1 a | ErrInvalidName \<Rightarrow> f2 a | ErrInvalidGroupName \<Rightarrow> f3 a
     | ErrDuplicateGroupName \<Rightarrow> f4 a | ErrNonNumeric k v \<Rightarrow> f5 k v a | ErrSql m \<Rightarrow> f6 m a)"
  by (cases e) (simp_all add: sound_def)

lemmas sound_calls = sound_call [OF keeps_fleet_ops(1)] sound_call [OF keeps_fleet_ops(2)]
  sound_call [OF keeps_fleet_ops(5)] sound_call [OF keeps_fleet_ops(7)] sound_call [OF keeps_fleet_ops(8)]
  sound_call [OF keeps_fleet_ops(9)] sound_call [OF keeps_fleet_ops(10)] sound_call [OF keeps_fleet_ops(11)]
  sound_call [OF keeps_fleet_reads [OF read_only_handlers(1)]] sound_call [OF keeps_fleet_reads [OF read_only_handlers(2)]]
  sound_call [OF keeps_fleet_reads [OF read_only_handlers(3)]] sound_call [OF keeps_fleet_reads [OF read_only_handlers(4)]]
  sound_call [OF keeps_fleet_reads [OF read_only_handlers(5)]] sound_call [OF keeps_fleet_reads [OF read_only_handlers(6)]]
  sound_call [OF keeps_fleet_reads [OF read_only_handlers(7)]] sound_call [OF keeps_fleet_reads [OF read_only_handlers(8)]]
  sound_call [OF keeps_fleet_reads [OF read_only_handlers(9)]] sound_call [OF keeps_fleet_reads [OF read_only_handlers(10)]]

lemma sound_admin:
  "sound (handleSetCollectors raw cs)" "sound (handleDeleteHistory sid from to)"
  "sound handleGetSettings" "sound handleListGroups" "sound (handleRenameGroup raw name)"
  "sound (handleDeleteGroup raw)" "sound (handleSetGroupServers raw sids)"
  "sound (handleChart avg raw1 raw2 raw3 raw4 metric)" "sound (handleGetVersion mu running)"
  "sound (handleSetServerVersion raw v)" "sound (handleSetMotherVersion mu t v)"
  "sound (handleInstallScript render tok)"
  unfolding handleSetCollectors_def [abs_def] handleDeleteHistory_def [abs_def] handleGetSettings_def [abs_def]
    handleListGroups_def [abs_def] handleRenameGroup_def [abs_def] handleDeleteGroup_def [abs_def] handleSetGroupServers_def [abs_def]
    with_group_def [abs_def] group_call_def [abs_def] handleChart_def [abs_def] handleGetVersion_def [abs_def]
    handleSetServerVersion_def [abs_def] handleSetMotherVersion_def [abs_def] handleInstallScript_def [abs_def] Let_def prod.case
  by (intro sound_rules sound_calls)+

text \<open>The live store's own operations track no new server, a push only its own.\<close>

lemma tracked_iff: "i \<in> tracked s \<longleftrightarrow> map_of (lv_series s) i \<noteq> None"
  by (simp add: tracked_def map_of_eq_None_iff)

lemma tracked_evict: "tracked (evictLocked now i s) \<subseteq> tracked s"
  by (auto simp: tracked_iff evictLocked_def Let_def map_of_update map_of_delete split: option.splits if_splits)

lemma tracked_SetWindow: "tracked (SetWindow clock w s) \<subseteq> tracked s"
proof -
  have "tracked (foldl (\<lambda>s i. evictLocked (clock i) i s) t is) \<subseteq> tracked t" for t "is"
    by (induction "is" arbitrary: t) (auto dest: subsetD [OF tracked_evict])
  moreover have "tracked (s\<lparr>lv_window := w\<rparr>) = tracked s" by (simp add: tracked_def)
  ultimately show ?thesis by (auto simp: SetWindow_def)
qed

lemma tracked_Add: "tracked (live_Add now i ts samples s) \<subseteq> insert i (tracked s)"
  by (auto simp: live_Add_def dest!: subsetD [OF tracked_evict]) (auto simp: tracked_iff map_of_update split: if_splits)

lemma tracked_Forget: "tracked (Forget i s) \<subseteq> tracked s - {i}"
  by (auto simp: Forget_def tracked_iff map_of_delete split: if_splits)

lemma sound_put:
  assumes "any_order ord"
  shows "sound (handlePutSettings ord clock body)"
  unfolding sound_def
proof (intro allI impI)
  fix a :: "'a api" assume ok: "mother_ok a"
  have apply_ok: "mother_ok (ApplySettings clock cfg a)" if "mother_ok a" for cfg and a :: "'a api"
    using that tracked_SetWindow [of clock _ "ap_live a"] by (auto simp: ApplySettings_def mother_ok_def fleet_with_def)
  show "mother_ok (snd (handlePutSettings ord clock body a))"
  proof (cases body)
    case (Some p)
    obtain r a1 where c: "call GetSettings a = (r, a1)" by fastforce
    have a1: "mother_ok a1"
      using soundD [OF sound_admin(3) ok, of "fst (handleGetSettings a)" a1] c
      by (auto simp: handleGetSettings_def split: sum.splits)
    show ?thesis
    proof (cases r)
      case (Inr current)
      show ?thesis
      proof (cases "validate p current")
        case v: (Inr cfg)
        have "settings_int64 current"
          using GetSettings_Inr(1) [OF call_fields(1) [OF c [unfolded Inr]]] scan_settings_int64 defaults_int64 by blast
        then have "settings_int64 cfg" by (rule validate_int64 [OF v])
        then have "keeps (fleet_with K) (SaveSettings ord cfg)" for K
          by (rule keeps_fleet [OF keeps_SaveSettings [OF assms] keeps_covers_save])
        then have s: "sound (\<lambda>a. case call (SaveSettings ord cfg) a of (r, a2) \<Rightarrow> (r, a2))"
          by (rule sound_call) (rule sound_done)
        obtain r2 a2 where c2: "call (SaveSettings ord cfg) a1 = (r2, a2)" by fastforce
        with soundD [OF s a1] have "mother_ok a2" by simp
        with apply_ok c c2 Some Inr v show ?thesis by (auto simp: handlePutSettings_def split: sum.split)
      qed (use c Some Inr a1 in \<open>simp add: handlePutSettings_def\<close>)
    qed (use c Some a1 in \<open>simp add: handlePutSettings_def\<close>)
  qed (use ok in \<open>simp add: handlePutSettings_def\<close>)
qed

lemma mother_ok_live:
  "mother_ok a \<Longrightarrow> tracked l \<subseteq> tracked (ap_live a) \<Longrightarrow> mother_ok (a\<lparr>ap_live := l\<rparr>)"
  by (auto simp: mother_ok_def fleet_with_def)

lemma tracked_view: "tracked (snd (view_servers cfg groups now clock ss lv)) \<subseteq> tracked lv"
proof (induction ss arbitrary: lv)
  case (Cons s ss)
  obtain v lv1 where v: "view_server cfg groups now clock s lv = (v, lv1)" by fastforce
  then have "lv1 = evictLocked (clock (srv_ID s)) (srv_ID s) lv"
    by (auto simp: view_server_def Latest_def Let_def)
  then have "tracked lv1 \<subseteq> tracked lv" using tracked_evict by simp
  with Cons.IH [of lv1] v show ?case by (auto split: prod.split)
qed simp

lemma tracked_reads: "tracked (snd (live_series clock i since ms out s)) \<subseteq> tracked s"
proof (induction ms arbitrary: out s)
  case (Cons m ms)
  obtain ps s' where r: "SeriesSince (clock (length ms)) i m since s = (ps, s')" by fastforce
  then have "tracked s' \<subseteq> tracked s" using SeriesSince_state [of "clock (length ms)" i m since s] tracked_evict by simp
  with Cons.IH [of "AList.update m ps out" s'] r show ?case by auto
qed simp

lemma sound_then:
  assumes "sound h" "\<And>a r. sound (k a r)"
  shows "sound (\<lambda>a. case h a of (r, a') \<Rightarrow> k a r a')"
  using assms unfolding sound_def by (metis (mono_tags, lifting) case_prod_conv prod.collapse)

lemma sound_listServers: "sound (listServers gid)"
  unfolding listServers_def [abs_def] by (intro sound_rules sound_calls)

lemma sound_list: "sound (handleListServers t clock gid)"
proof -
  have view: "sound (\<lambda>a. case view_servers cfg groups (unix t) clock ss (ap_live a) of (vs, lv) \<Rightarrow> (answer 200 vs, a\<lparr>ap_live := lv\<rparr>))"
    for cfg groups ss
    unfolding sound_def
  proof (intro allI impI)
    fix a assume ok: "mother_ok a"
    obtain vs lv where v: "view_servers cfg groups (unix t) clock ss (ap_live a) = (vs, lv)" by fastforce
    with mother_ok_live [OF ok] tracked_view [of cfg groups "unix t" clock ss "ap_live a"]
    show "mother_ok (snd (case view_servers cfg groups (unix t) clock ss (ap_live a) of (vs, lv) \<Rightarrow> (answer 200 vs, a\<lparr>ap_live := lv\<rparr>)))"
      by simp
  qed
  show ?thesis
    unfolding handleListServers_def [abs_def]
    by (intro sound_then [OF sound_listServers] sound_rules sound_calls view)
qed

lemma sound_live: "sound (handleLive now clock server metric since)"
  unfolding sound_def
proof (intro allI impI)
  fix a :: "'a api" assume "mother_ok a"
  then show "mother_ok (snd (handleLive now clock server metric since a))"
    using tracked_reads [where clock = clock and s = "ap_live a" and out = "[]"]
    by (auto simp: handleLive_def intro!: mother_ok_live split: option.split sum.split prod.split) (metis snd_conv subsetD)
qed

lemma sound_create:
  assumes "fresh_rowid alloc"
  shows "sound (handleAddServer alloc rnd now name)" "sound (handleCreateGroup alloc now name)"
proof -
  have "keeps (fleet_with K) (AddServer alloc rnd now n)" "keeps (fleet_with K) (CreateGroup alloc now n)" for K n
    by (intro keeps_fleet keeps_AddServer keeps_CreateGroup keeps_covers_add keeps_covers_create assms)+
  note calls = sound_call [OF this(1)] sound_call [OF this(2)]
  show "sound (handleAddServer alloc rnd now name)" "sound (handleCreateGroup alloc now name)"
    unfolding handleAddServer_def [abs_def] handleCreateGroup_def [abs_def]
    by (intro sound_rules calls)+
qed

lemma sound_delete_row: "sound (deleteServer i)"
  unfolding sound_def
proof (intro allI impI)
  fix a :: "'a api" assume ok: "mother_ok a"
  obtain r a1 where c: "call (DeleteServer i) a = (r, a1)" by fastforce
  note f = call_fields [OF c]
  have live: "ap_live a1 = ap_live a" by (subst f(2)) simp
  show "mother_ok (snd (deleteServer i a))"
  proof (cases r)
    case (Inl e)
    have "tables (ap_db a1) = tables (ap_db a)" by (rule delete_server.error_keeps [OF f(1) [unfolded Inl]])
    from table_predD [OF table_pred_fleet _ this, of "tracked (ap_live a)"] ok have "mother_ok a1"
      by (simp add: mother_ok_def live)
    with c Inl show ?thesis by (simp add: deleteServer_def)
  next
    case (Inr u)
    have "fleet_with (tracked (ap_live a) - {i}) (ap_db a1)"
      using fleet_delete [OF _ f(1) [unfolded Inr]] ok by (simp add: mother_ok_def)
    then have "mother_ok (a1\<lparr>ap_live := Forget i (ap_live a1)\<rparr>)"
      using tracked_Forget [of i "ap_live a"] by (auto simp: mother_ok_def fleet_with_def live)
    with c Inr show ?thesis by (simp add: deleteServer_def)
  qed
qed

lemma sound_bearer: "sound (bearerServer auth)"
  unfolding bearerServer_def [abs_def] by (intro sound_rules sound_calls)

lemma sound_deletes: "sound (handleDeleteServer now raw force)" "sound (handleUninstalled auth)"
  unfolding handleDeleteServer_def [abs_def] handleUninstalled_def [abs_def]
  by (intro sound_rules sound_calls sound_then [OF sound_delete_row] sound_then [OF sound_bearer])+

lemma sound_rollout: "sound (rollout_members v builds ms ro)"
proof (induction ms arbitrary: ro)
  case Nil
  then show ?case by (simp add: sound_def)
next
  case (Cons m ms)
  show ?case unfolding rollout_members.simps(2) [abs_def] Let_def
    by (intro sound_rules sound_calls Cons.IH)
qed

lemma sound_rollout_now: "sound (\<lambda>a. rollout_members v (sn_Builds (Snapshot (ap_releases a))) ms ro a)"
  using sound_rollout unfolding sound_def by blast

lemma sound_group_version: "sound (handleSetGroupVersion raw v)"
  unfolding handleSetGroupVersion_def [abs_def] with_group_def [abs_def] Let_def
  by (intro sound_rules sound_calls sound_rollout_now)

lemma sound_finish: "sound (finish_push pe srv req)"
proof -
  have "sound (\<lambda>a3. case call (TouchServer (srv_ID srv) (heartbeat_of req) (unix (pe_now pe))) a3 of (r4, a4) \<Rightarrow>
      (case call (SetCapabilities (srv_ID srv) (iq_Capabilities req)) a4 of (r5, a5) \<Rightarrow>
        (case call GetSettings a5 of
            (Inl e, a6) \<Rightarrow> (storage_failure, a6)
          | (Inr settings, a6) \<Rightarrow>
              (answer 200 \<lparr>ir_Collectors = srv_Collectors srv, ir_Interval = Interval settings,
                 ir_DesiredVersion = srv_DesiredVersion srv,
                 ir_Uninstall = (srv_UninstallRequestedAt srv \<noteq> 0)\<rparr>, a6))))"
    by (intro sound_rules sound_call [OF keeps_fleet_ops(3)] sound_call [OF keeps_fleet_ops(4)] sound_calls)
  then show ?thesis by (simp add: finish_push_def [abs_def] Let_def)
qed

lemma sound_ingest: "sound (handleIngest pe auth body)"
  unfolding sound_def
proof (intro allI impI)
  fix a :: "'a api" assume ok: "mother_ok a"
  have fold: "mother_ok (snd (fold_in pe srv samples a2))" if "mother_ok a2" "srv_ID srv \<in> ids (ap_db a2)" for srv samples and a2 :: "'a api"
  proof -
    let ?i = "srv_ID srv"
    obtain r a3 where c: "call (ApplySamples ?i (unix (pe_now pe)) (pe_rollup pe samples)) a2 = (r, a3)" by fastforce
    note f = call_fields [OF c]
    have live: "ap_live a3 = ap_live a2" by (subst f(2)) simp
    have "fleet_with (tracked (ap_live a2)) (ap_db a3) \<and> ?i \<in> ids (ap_db a3)"
      using keepsD [OF keeps_apply, of "tracked (ap_live a2)" "ap_db a2" ?i] that f(1) by (metis mother_ok_def snd_conv)
    then have "mother_ok a3" "mother_ok (a3\<lparr>ap_live := live_Add (pe_live_at pe) ?i (unix (pe_now pe)) (pe_live pe samples) (ap_live a3)\<rparr>)"
      using tracked_Add [of "pe_live_at pe" ?i "unix (pe_now pe)" "pe_live pe samples" "ap_live a2"]
      by (auto simp: mother_ok_def fleet_with_def live)
    with c that(1) show ?thesis by (simp add: fold_in_def Let_def split: sum.split)
  qed
  have start: "mother_ok a2 \<and> srv_ID srv \<in> ids (ap_db a2)"
    if "bearerServer auth a = (Inr srv, a1)" "allowPush (srv_ID srv) (pe_gate_at pe) a1 = (b, a2)" for srv a1 a2 b
  proof -
    have n: "nothing_changed a a2" by (rule bearer_allow_same(2) [OF that])
    then have "servers (ap_db a2) = servers (ap_db a)" by (auto simp: nothing_changed_def dest: tables_eqD)
    then have "srv_ID srv \<in> ids (ap_db a2)" using bearerServer_Inr(1) [OF that(1)] by (auto simp: ids_def)
    with n ok show ?thesis
      by (auto simp: mother_ok_def nothing_changed_def intro: table_predD [OF table_pred_fleet])
  qed
  show "mother_ok (snd (handleIngest pe auth body a))"
  proof (cases rule: handleIngest_cases [of pe auth body a])
    case (refused st msg a1)
    then show ?thesis using ok by (auto simp: mother_ok_def intro: table_predD [OF table_pred_fleet])
  next
    case (failed srv req a1 a2 a3)
    with fold start show ?thesis by (metis snd_conv)
  next
    case (finished srv req a1 a2 a3)
    with fold start have "mother_ok a3" by (metis snd_conv)
    with finished(7) sound_finish show ?thesis by (metis sound_def)
  qed
qed

text \<open>So every request keeps the fleet sound, whichever route it takes and whatever it carries.\<close>

lemma sound_open: "sound h \<Longrightarrow> sound (open_to f h)"
  by (simp add: sound_def open_to_def)

lemma sound_keyed: "sound h \<Longrightarrow> sound (keyed rq f h)"
  unfolding keyed_def by (rule sound_open) (simp add: sound_def requireAPIKey_def)

lemma sound_stateless: "sound (\<lambda>a. stateless (r a) a)"
  by (simp add: sound_def stateless_def)

lemma sound_route:
  assumes "(m, pat, h) \<in> set (Handler ho rq)" "fresh_rowid (ho_alloc ho)" "any_order (ho_order ho)"
  shows "sound (h vs)"
proof -
  note rules = sound_open sound_keyed sound_stateless sound_ingest sound_deletes sound_list sound_create [OF assms(2)]
    sound_admin sound_live sound_put [OF assms(3)] sound_group_version
  show ?thesis
    using assms(1) unfolding Handler_def register_defs by (auto intro!: rules)
qed

lemma sound_serve:
  assumes "fresh_rowid (ho_alloc ho)" "any_order (ho_order ho)"
  shows "sound (serve ho rq)"
  unfolding sound_def
proof (intro allI impI)
  fix a :: "'a api" assume ok: "mother_ok a"
  obtain reply a' where run: "serve ho rq a = (reply, a')" by fastforce
  then have "mother_ok a'"
  proof (cases rule: serve_cases)
    case (routed m pat h vs)
    show ?thesis by (rule soundD [OF sound_route [OF routed(1) assms] ok routed(4)])
  qed (use ok in simp)
  with run show "mother_ok (snd (serve ho rq a))" by simp
qed

section \<open>The process\<close>

lemma keeps_run: "keeps P m \<Longrightarrow> m d = (r, d') \<Longrightarrow> P d \<Longrightarrow> P d'"
  unfolding keeps_def by (metis snd_conv)

lemmas fleet_runs = keeps_run [OF keeps_fleet_reads [OF read_only_handlers(8)]] keeps_run [OF keeps_fleet_ops(12)]
  keeps_run [OF keeps_fleet_ops(13)] keeps_run [OF keeps_fleet_ops(14)] keeps_run [OF keeps_fleet_ops(15)]

lemma sound_attempt:
  assumes "fleet_with K (m_db w)"
  shows "fleet_with K (m_db (snd (attempt_download cfg sha256 lr show_update show_store h v w)))"
proof -
  have rec: "record_reason msg d = (err, d') \<Longrightarrow> fleet_with K d \<Longrightarrow> fleet_with K d'" for msg and d :: "'a db" and err d'
    by (auto simp: record_reason_def split: prod.splits dest: fleet_runs(4))
  show ?thesis
    using assms unfolding attempt_download_def Let_def
    by (auto split: prod.split option.split sum.split dest: rec fleet_runs(3))
qed

lemma sound_Tick:
  assumes "fleet_with K (m_db w)"
  shows "fleet_with K (m_db (snd (Tick cfg sha256 lr show_update show_store h running w)))"
proof -
  obtain r d where m: "MotherUpdate (m_db w) = (r, d)" by fastforce
  note d = fleet_runs(1) [OF m assms]
  show ?thesis
  proof (cases r)
    case (Inr row)
    obtain r1 d1 where f: "FailMotherUpdate (''gave up on '' @ mu_DesiredVersion row @ '' after '' @
        Itoa (mu_Attempts row) @ '' attempts: '' @ lastReason (mu_Error row)) d = (r1, d1)" by fastforce
    obtain r2 d2 where b: "BeginMotherAttempt d = (r2, d2)" by fastforce
    note d1 = fleet_runs(5) [OF f d] and d2 = fleet_runs(2) [OF b d]
    have "fleet_with K (m_db (w\<lparr>m_db := d2\<rparr>))" using d2 by simp
    from sound_attempt [OF this] m Inr f b d d1 d2 show ?thesis
      by (cases r2) (simp_all add: Tick_def)
  qed (use m d in \<open>simp add: Tick_def\<close>)
qed

text \<open>
  One step: a request served to its end, one pass of a background job, a command that opens the
  same database, a restart on it, or the environment choosing which statements fail next.
\<close>

inductive mother_step :: "(int list \<Rightarrow> int) \<Rightarrow> 'v::{linorder,plus} api \<Rightarrow> 'v api \<Rightarrow> bool" for alloc where
  request: "ho_alloc ho = alloc \<Longrightarrow> any_order (ho_order ho) \<Longrightarrow> mother_step alloc a (snd (serve ho rq a))"
| faults: "mother_step alloc a (a\<lparr>ap_db := (ap_db a)\<lparr>Schema.faults := fs\<rparr>\<rparr>)"
| retention: "mother_step alloc a (snd (call (retention_tick now) a))"
| poll: "mother_step alloc a (a\<lparr>ap_releases := snd (Refresh now fetched (ap_releases a))\<rparr>)"
| rollout: "m_db w = ap_db a \<Longrightarrow>
    mother_step alloc a (a\<lparr>ap_db := m_db (snd (Tick cfg sha256 lr show_update show_store h running w))\<rparr>)"
| reconcile: "mother_step alloc a (snd (call (Reconcile now running) a))"
| generate: "mother_step alloc a (a\<lparr>ap_db := snd (RunGenerate alloc rnd now u args (ap_db a))\<rparr>)"
| restart: "mother_step alloc a (boot_settings clock (SetPublicURL u (New (ap_db a) key NewCache)))"

inductive mother_reachable :: "(int list \<Rightarrow> int) \<Rightarrow> 'v::{linorder,plus} api \<Rightarrow> bool" for alloc where
  start: "mother_reachable alloc (New empty_db key NewCache)"
| step: "mother_reachable alloc a \<Longrightarrow> mother_step alloc a a' \<Longrightarrow> mother_reachable alloc a'"

inductive_cases mother_stepE: "mother_step alloc a a'"

lemma mother_ok_db: "fleet_with (tracked (ap_live a)) d \<Longrightarrow> mother_ok (a\<lparr>ap_db := d\<rparr>)"
  by (simp add: mother_ok_def)

lemma keeps_background: "keeps (fleet_with K) (retention_tick now)" "keeps (fleet_with K) (Reconcile now running)"
  unfolding retention_tick_def Reconcile_def
  by (intro keeps_bnd keeps_if keeps_ret keeps_fleet_ops keeps_fleet_reads read_only_handlers)+

lemma fleet_generate:
  assumes "fresh_rowid alloc" "fleet_with K d"
  shows "fleet_with K (snd (RunGenerate alloc rnd now u args d))"
proof -
  have "keeps (fleet_with K) (ServerByName name)" for name
    by (rule keeps_fleet_reads) (simp add: ServerByName_def read_only_select)
  note by_name = keeps_run [OF this _ assms(2)]
  have "keeps (fleet_with K) (AddServer alloc rnd now name)" for name
    by (rule keeps_fleet [OF keeps_AddServer [OF assms(1)] keeps_covers_add])
  note added = keeps_run [OF this]
  have "fleet_with K d'" if "ServerByName name d = (r, d')" for name r d'
    by (rule by_name [OF that])
  moreover have "fleet_with K d''" if "fleet_with K d'" "AddServer alloc rnd now name d' = (r, d'')" for name d' r d''
    by (rule added [OF that(2,1)])
  ultimately show ?thesis
    using assms(2) unfolding RunGenerate_def by (auto split: sum.split prod.split if_splits) blast+
qed

lemma sound_op: "(\<And>K. keeps (fleet_with K) m) \<Longrightarrow> sound (call m)"
  using sound_call [of m "\<lambda>a r a'. (r, a')"] by (simp add: sound_def)

lemma mother_step_ok:
  assumes "mother_step alloc a a'" "fresh_rowid alloc" "mother_ok a"
  shows "mother_ok a'"
  using assms(1)
proof (cases rule: mother_step.cases)
  case (request ho rq)
  have "sound (serve ho rq)" by (rule sound_serve) (simp_all add: request assms(2))
  with assms(3) request show ?thesis by (simp add: sound_def)
next
  case (faults fs)
  from table_predD [OF table_pred_fleet, of _ "ap_db a" "(ap_db a)\<lparr>Schema.faults := fs\<rparr>"] assms(3) faults
  show ?thesis by (simp add: mother_ok_def)
next
  case (retention now)
  with assms(3) sound_op [OF keeps_background(1)] show ?thesis by (auto simp: sound_def)
next
  case (reconcile now running)
  with assms(3) sound_op [OF keeps_background(2)] show ?thesis by (auto simp: sound_def)
next
  case (restart clock u key)
  note b = boot_settings_fields(3,4) [OF refl, of clock u "ap_db a" key NewCache]
  from assms(3) have "fleet_with {} (ap_db a)" by (simp add: mother_ok_def fleet_with_def)
  from table_predD [OF table_pred_fleet this b(1)] b(2) restart show ?thesis by (simp add: mother_ok_def tracked_def)
next
  case (rollout w cfg sha256 lr show_update show_store h running)
  with assms(3) sound_Tick [of "tracked (ap_live a)" w] show ?thesis by (simp add: mother_ok_def)
next
  case (generate rnd now u args)
  with assms(3) fleet_generate [OF assms(2), of "tracked (ap_live a)" "ap_db a"] show ?thesis by (simp add: mother_ok_def)
qed (use assms(3) in \<open>simp add: mother_ok_def\<close>)

section \<open>Properties of the process\<close>



text \<open>
  The rest of a push after its checks, which is where a handler goroutine stands while others run:
  the body of a push is read after its token was looked up.
\<close>

definition store_push :: "'v push_env \<Rightarrow> server \<Rightarrow> 'v::{linorder,plus} ingest_request \<Rightarrow> 'v api \<Rightarrow> ingest_response response \<times> 'v api" where
  "store_push pe srv req a =
     (case fold_in pe srv (iq_Samples req) a of
        (False, a') \<Rightarrow> (storage_failure, a')
      | (True, a') \<Rightarrow> finish_push pe srv req a')"

lemma handleIngest_halves:
  assumes "bearerServer auth a = (Inr srv, a1)" "length (iq_Samples req) \<le> maxSamplesPerPush"
    and "allowPush (srv_ID srv) (pe_gate_at pe) a1 = (True, a2)" "invalidMetric (pe_check pe (iq_Samples req)) = ''''"
  shows "handleIngest pe auth (Some req) a = store_push pe srv req a2"
  using assms by (cases "fold_in pe srv (iq_Samples req) a2")
    (simp add: handleIngest_def store_push_def finish_push_def split: bool.split)

definition orphan :: "rollup_key \<Rightarrow> 'v db \<Rightarrow> bool" where
  "orphan k d \<longleftrightarrow> k \<in> fst ` set (rollup_1m d) \<and> fst k \<notin> ids d"

lemma table_pred_orphan: "table_pred (orphan k)"
  by (rule table_predI) (simp add: orphan_def ids_def)

lemma orphan_upd_server: "(\<And>s. srv_ID (f s) = srv_ID s) \<Longrightarrow> orphan k (upd_server i f d) = orphan k d"
  by (simp add: orphan_def) (simp add: upd_server_def)

lemma finish_push_orphan: "orphan k (ap_db a) \<Longrightarrow> orphan k (ap_db (snd (finish_push pe srv req a)))"
proof -
  assume o: "orphan k (ap_db a)"
  obtain r4 a4 where c4: "call (TouchServer (srv_ID srv) (heartbeat_of req) (unix (pe_now pe))) a = (r4, a4)" by fastforce
  obtain r5 a5 where c5: "call (SetCapabilities (srv_ID srv) (iq_Capabilities req)) a4 = (r5, a5)" by fastforce
  obtain r6 a6 where c6: "call GetSettings a5 = (r6, a6)" by fastforce
  have "keeps (orphan k) (TouchServer i hb t)" for i hb t
    by (rule keeps_committed [OF touch_server.committed_axioms table_pred_orphan]) (simp add: orphan_upd_server touch_def)
  from keeps_run [OF this call_fields(1) [OF c4] o] have o4: "orphan k (ap_db a4)" .
  have "keeps (orphan k) (SetCapabilities i cs)" for i cs
    by (rule keeps_committed [OF set_capabilities.committed_axioms table_pred_orphan]) (simp add: orphan_upd_server)
  from keeps_run [OF this call_fields(1) [OF c5] o4] have "orphan k (ap_db a5)" .
  from keeps_run [OF keeps_read_only [OF table_pred_orphan read_only_GetSettings] call_fields(1) [OF c6] this]
  have "orphan k (ap_db a6)" .
  moreover have "snd (finish_push pe srv req a) = a6"
    using c4 c5 c6 by (simp add: finish_push_def split: sum.split)
  ultimately show ?thesis by simp
qed

lemma upsert_samples_first: "(sid, m, trunc_to w ts) \<in> fst ` set (upsert_samples w sid ts ((m, x) # rest) t)"
proof -
  have one: "fst ` set (upsert_bucket k v t) = insert k (fst ` set t)" for k v t
  proof -
    have "fst ` set (AList.update k v t) = insert k (fst ` set t)" for k v t by (induction t) auto
    then show ?thesis by (simp add: upsert_bucket_def)
  qed
  have "fst ` set t \<subseteq> fst ` set (foldl (\<lambda>t (m, v). upsert_bucket (sid, m, trunc_to w ts) v t) t ss)" for t ss
  proof (induction ss arbitrary: t)
    case (Cons p ss)
    obtain m v where p: "p = (m, v)" by (cases p)
    show ?case unfolding p foldl.simps prod.case
      by (rule subset_trans [OF _ Cons.IH]) (simp add: one subset_insertI)
  qed simp
  from subsetD [OF this, of "(sid, m, trunc_to w ts)" "upsert_bucket (sid, m, trunc_to w ts) x t" rest]
  show ?thesis by (simp add: upsert_samples_def one)
qed


text \<open>The one server of \<open>sample_api\<close> is deleted while its push is being read, and another one is added.\<close>

definition late_push :: "ingest_response response \<times> int api" where
  "late_push = store_push sample_env (hd (servers (ap_db sample_api))) sample_request (snd (deleteServer 1 sample_api))"

definition next_server :: "(store_error + server) \<times> int api" where
  "next_server = call (AddServer next_rowid [2] 0 ''new'') (snd late_push)"

lemma late_push_run:
  "fst (deleteServer 1 sample_api) = Inr ()" "rs_status (fst late_push) = 200"
  "\<not> isl (fst next_server)" "next_rowid (map srv_ID (servers (ap_db (snd late_push)))) = 1"
  by code_simp+


end
