(* ===== verification/Fleet.thy ===== *)
theory Fleet
  imports Agent_Loop Mother_System
begin

text \<open>
  An agent and the mother, each as its own theories model it, joined by the wire: the agent's POST
  is a request the mother serves, and what it downloads is what the mother serves of its catalogue.
  The client's transport is the only part between them that is not the program's own: it delivers a
  request whose address begins with the mother's URL, and it fails otherwise. A redirect is handed
  back as it is; none is answered at the addresses an agent makes of a base without a trailing slash.
\<close>

section \<open>The wire\<close>

record 'v link =
  lk_base :: string
  lk_host :: "'v mother_host"
  lk_dir :: string
  lk_tree :: tree

definition request_to :: "string \<Rightarrow> string \<Rightarrow> string \<Rightarrow> 'v ingest_request option \<Rightarrow> 'v request" where
  "request_to verb path authorization push =
     \<lparr>rq_method = verb, rq_path = path, rq_apiKey = '''', rq_authorization = authorization, rq_query = (\<lambda>k. ''''),
      rq_body = \<lparr>bo_push = push, bo_name = None, bo_collectors = None, bo_settings = None, bo_server_ids = None,
        bo_version = None\<rparr>\<rparr>"

fun posted :: "'v reply \<Rightarrow> post_reply" where
  "posted (Pushed r) = Replied (int (rs_status r)) (case rs_data r of None \<Rightarrow> Inl ''no data'' | Some resp \<Rightarrow> Inr resp)"
| "posted reply = Replied (int (reply_status reply)) (Inl ''not an answer to a push'')"

definition mother_post :: "'v::{linorder,plus} link \<Rightarrow> string \<Rightarrow> string \<Rightarrow> 'v ingest_request \<Rightarrow> 'v api \<Rightarrow> post_reply \<times> 'v api" where
  "mother_post lk url tok req a =
     (case CutPrefix url (lk_base lk) of
        None \<Rightarrow> (Unsent ''no such host'', a)
      | Some path \<Rightarrow> map_prod posted id (serve (lk_host lk) (request_to ''POST'' path (''Bearer '' @ tok) (Some req)) a))"

text \<open>The file at a path of the catalogue, as \<open>http.ServeFile\<close> sends it.\<close>

definition file_at :: "string \<Rightarrow> tree \<Rightarrow> string \<Rightarrow> string option" where
  "file_at dir tree =
     map_of (concat (map (\<lambda>(v, fs). map (\<lambda>(n, bytes). (path_join [dir, v, n], bytes)) fs) tree))"

definition mother_get :: "'v::{linorder,plus} link \<Rightarrow> 'v api \<Rightarrow> string \<Rightarrow> http_reply" where
  "mother_get lk a url =
     (case CutPrefix url (lk_base lk) of
        None \<Rightarrow> NoReply ''no such host''
      | Some path \<Rightarrow>
          (case fst (serve (lk_host lk) (request_to ''GET'' path '''' None) a) of
             Worded r \<Rightarrow>
               if rs_status r = 200 then
                 (case Option.bind (rs_data r) (file_at (lk_dir lk) (lk_tree lk)) of
                    None \<Rightarrow> Reply 404 '''' None | Some bytes \<Rightarrow> Reply 200 bytes None)
               else Reply (rs_status r) '''' None
           | reply \<Rightarrow> Reply (reply_status reply) '''' None))"

text \<open>
  One round of an agent against a mother: what the round made of its answers, and the mother after
  it. The push comes first; a download changes nothing and is served by the mother the push left.
\<close>

definition pushed :: "'v::{linorder,plus,divide,times} float_ops \<Rightarrow> binary \<Rightarrow> 'v link \<Rightarrow> 'v round \<Rightarrow> 'v loop \<Rightarrow> 'v api \<Rightarrow> 'v api" where
  "pushed f b lk ro l a =
     (case push_request f b ro l of
        None \<Rightarrow> a
      | Some (req, reg) \<Rightarrow>
          if ro_marshal ro req \<noteq> None then a
          else snd (mother_post lk (MotherURL (lp_cfg l) @ ''/v1/ingest'') (Token (lp_cfg l)) req a))"

definition joined :: "'v::{linorder,plus,divide,times} float_ops \<Rightarrow> binary \<Rightarrow> 'v link \<Rightarrow> 'v round \<Rightarrow> 'v loop \<Rightarrow> 'v api \<Rightarrow> 'v round" where
  "joined f b lk ro l a =
     ro\<lparr>ro_post := (\<lambda>url tok req. fst (mother_post lk url tok req a)), ro_get := mother_get lk (pushed f b lk ro l a)\<rparr>"

definition fleet_round ::
  "'v::{linorder,plus,divide,times} float_ops \<Rightarrow> (string \<Rightarrow> nat list) \<Rightarrow> (nat \<Rightarrow> nat) \<Rightarrow> (update_error \<Rightarrow> string) \<Rightarrow> binary
     \<Rightarrow> 'v link \<Rightarrow> 'v round \<Rightarrow> 'v loop \<Rightarrow> world \<Rightarrow> 'v api \<Rightarrow> ('v event \<times> 'v loop \<times> world) option \<times> 'v api" where
  "fleet_round f sha256 lr show_update b lk ro l w a =
     (agent_round f sha256 lr show_update b (joined f b lk ro l a) l w, pushed f b lk ro l a)"

section \<open>Where a request goes\<close>

text \<open>Path segments that need no escaping and that cleaning a path leaves alone.\<close>

definition unreserved :: "char \<Rightarrow> bool" where
  "unreserved c \<longleftrightarrow> is_lower c \<or> is_digit c \<or> between c 65 90 \<or> c \<in> {CHR ''-'', CHR ''.'', CHR ''_''}"

definition url_plain :: "string \<Rightarrow> bool" where
  "url_plain s \<longleftrightarrow> s \<noteq> '''' \<and> s \<noteq> ''.'' \<and> s \<noteq> ''..'' \<and> list_all unreserved s"

lemma url_plain_chars:
  assumes "url_plain s"
  shows "CHR ''/'' \<notin> set s" "CHR ''%'' \<notin> set s"
  using assms by (auto simp: url_plain_def list_all_iff unreserved_def is_lower_def is_digit_def between_def byte_def)

lemma unescaped_plain: "CHR ''%'' \<notin> set s \<Longrightarrow> unescaped s = s"
proof -
  have "CHR ''%'' \<notin> set s \<Longrightarrow> path_unescape s = Some s" by (induction s) auto
  then show "CHR ''%'' \<notin> set s \<Longrightarrow> unescaped s = s" by (simp add: unescaped_def)
qed

lemma clean_plain:
  "list_all url_plain ss \<Longrightarrow> clean_elements_of isRooted acc ss = rev acc @ ss"
  by (induction ss arbitrary: acc) (auto simp: url_plain_def)

lemma plain_path:
  assumes "list_all url_plain ss" "ss \<noteq> []"
  shows "cleanPath (''/'' @ Join ss ''/'') = ''/'' @ Join ss ''/''" and "segments_of (''/'' @ Join ss ''/'') = ss"
proof -
  have sp: "Split (Join ss ''/'') CHR ''/'' = ss"
    using assms by (intro Split_Join) (auto simp: list_all_iff url_plain_chars)
  then show "segments_of (''/'' @ Join ss ''/'') = ss" by (simp add: segments_of_def)
  have "Clean (''/'' @ Join ss ''/'') = ''/'' @ Join ss ''/''"
    using clean_plain [OF assms(1), of True "[]"] sp by (simp add: Clean_def HasPrefix_def)
  moreover have "List.last (''/'' @ Join ss ''/'') \<noteq> CHR ''/''"
  proof -
    have "Join ss ''/'' \<noteq> [] \<and> List.last (Join ss ''/'') = List.last (List.last ss)" using assms
    proof (induction ss rule: induct_list012)
      case (3 p q ps)
      then show ?case by (cases ps) (auto simp: url_plain_def)
    qed (auto simp: url_plain_def)
    moreover have "url_plain (List.last ss)" using assms by (simp add: list_all_iff)
    then have "List.last (List.last ss) \<noteq> CHR ''/''"
      using url_plain_chars(1) last_in_set url_plain_def by metis
    ultimately show ?thesis by simp
  qed
  ultimately show "cleanPath (''/'' @ Join ss ''/'') = ''/'' @ Join ss ''/''"
    by (simp add: cleanPath_def Let_def)
qed

lemma serve_plain:
  assumes "rq_path rq = ''/'' @ Join ss ''/''" "list_all url_plain ss" "ss \<noteq> []"
    and "find (\<lambda>(m, pat, h). for_method m (rq_method rq) \<and> path_values pat ss \<noteq> None) (Handler ho rq) = Some (m, pat, h)"
  shows "serve ho rq a = h (the (path_values pat ss)) a"
proof -
  have "cleanPath (rq_path rq) = rq_path rq" "segments_of (rq_path rq) = ss"
    unfolding assms(1) using plain_path [OF assms(2,3)] by simp_all
  then show ?thesis using assms(4) by (simp add: serve_def)
qed

lemmas registrations = registerUninstall_def registerAdmin_def registerLive_def registerSettings_def registerGroups_def
  registerChart_def registerInstall_def registerVersions_def registerMother_def registerBinaries_def

lemma serve_ingest:
  "serve ho (request_to ''POST'' ''/v1/ingest'' authorization push) a =
     open_to Pushed (handleIngest (ho_push ho) authorization push) a"
proof -
  let ?rq = "request_to ''POST'' ''/v1/ingest'' authorization push"
  have plain: "list_all url_plain [''v1'', ''ingest'']" by code_simp
  have u: "unescaped ''v1'' = ''v1''" "unescaped ''ingest'' = ''ingest''" by (simp_all add: unescaped_plain)
  have f: "find (\<lambda>(m, pat, h). for_method m (rq_method ?rq) \<and> path_values pat [''v1'', ''ingest''] \<noteq> None) (Handler ho ?rq) =
      Some (''POST'', [Lit ''v1'', Lit ''ingest''],
        \<lambda>ps. open_to Pushed (handleIngest (ho_push ho) (rq_authorization ?rq) (bo_push (rq_body ?rq))))"
    by (simp add: Handler_def request_to_def for_method_def u)
  show ?thesis
    by (subst serve_plain [OF _ plain _ f]) (simp_all add: request_to_def)
qed

text \<open>The routes under another first segment do not take a request.\<close>

lemma find_skip:
  assumes "list_all (\<lambda>(m, pat, h). \<exists>l pat'. pat = Lit l # pat' \<and> l \<noteq> s) before" "unescaped s = s"
  shows "find (\<lambda>(m, pat, h). for_method m verb \<and> path_values pat (s # ss) \<noteq> None) (before @ rest) =
    find (\<lambda>(m, pat, h). for_method m verb \<and> path_values pat (s # ss) \<noteq> None) rest"
  using assms by (induction before) auto

lemma serve_download:
  fixes ho :: "'v::{linorder,plus} mother_host"
  assumes "url_plain tag" "url_plain asset"
  shows "serve ho (request_to ''GET'' (''/releases/download/'' @ tag @ ''/'' @ asset) authorization None) a =
    (Worded (handleDownload (ho_binaries ho) tag asset a), a)"
proof -
  let ?rq = "request_to ''GET'' (''/releases/download/'' @ tag @ ''/'' @ asset) authorization None :: 'v request"
  let ?ss = "[''releases'', ''download'', tag, asset]"
  have lits: "list_all url_plain [''releases'', ''download'']" by code_simp
  then have plain: "list_all url_plain ?ss" using assms by simp
  have u: "unescaped ''releases'' = ''releases''" "unescaped ''download'' = ''download''" "unescaped tag = tag" "unescaped asset = asset"
    using assms by (simp_all add: unescaped_plain url_plain_chars)
  have seg: "tag \<noteq> ''''" "asset \<noteq> ''''" "tag \<noteq> ''/''" "asset \<noteq> ''/''"
    using assms url_plain_chars(1) [OF assms(1)] url_plain_chars(1) [OF assms(2)] by (auto simp: url_plain_def)
  define before where "before = (''POST'', [Lit ''v1'', Lit ''ingest''],
      \<lambda>ps. open_to Pushed (handleIngest (ho_push ho) (rq_authorization ?rq) (bo_push (rq_body ?rq)))) #
     registerUninstall ho ?rq @ registerAdmin ho ?rq @ registerLive ho ?rq @ registerSettings ho ?rq @
     registerGroups ho ?rq @ registerChart ho ?rq @ registerInstall ho ?rq @ registerVersions ho ?rq @ registerMother ho ?rq"
  have b: "list_all (\<lambda>(m, pat, h). \<exists>l pat'. pat = Lit l # pat' \<and> l \<noteq> ''releases'') before"
    by (simp add: before_def registrations)
  have h: "Handler ho ?rq = before @ registerBinaries ho ?rq" by (simp add: Handler_def before_def)
  have f: "find (\<lambda>(m, pat, h). for_method m (rq_method ?rq) \<and> path_values pat ?ss \<noteq> None) (Handler ho ?rq) =
      Some (''GET'', [Lit ''releases'', Lit ''download'', Wild, Wild],
        \<lambda>ps. open_to Worded (\<lambda>a. stateless (handleDownload (ho_binaries ho) (ps ! 0) (ps ! 1) a) a))"
    unfolding h find_skip [OF b u(1)] by (simp add: registerBinaries_def request_to_def for_method_def u seg)
  show ?thesis
    by (subst serve_plain [OF _ plain _ f]) (simp_all add: request_to_def u seg open_to_def stateless_def)
qed

section \<open>What an agent sends\<close>

text \<open>Every metric a collector can yield has a name the mother takes, and all of them fit one push.\<close>

lemma all_keys_valid: "list_all (\<lambda>k. length k \<le> 64 \<and> metricName k) all_keys" "length all_keys \<le> 256"
  by code_simp+

lemma agent_samples_valid:
  assumes "push_request f b ro l = Some (req, reg)" "loop_ok l" "any_order ord"
  shows "length (iq_Samples req) \<le> 256" "invalidMetric (ord (iq_Samples req)) = ''''"
proof -
  note s = push_request_Some(3,4) [OF assms(1,2)]
  have "length (iq_Samples req) = card (set (map fst (iq_Samples req)))"
    using distinct_card [OF s(2)] by simp
  also have "\<dots> \<le> length all_keys"
    using card_mono [OF finite_set s(1)] card_length [of all_keys] by linarith
  finally show "length (iq_Samples req) \<le> 256" using all_keys_valid(2) by simp
  have "length k \<le> 64 \<and> metricName k" if "(k, x) \<in> set (ord (iq_Samples req))" for k x
    using that s(1) all_keys_valid(1) any_order_set [OF assms(3), of "iq_Samples req"] by (force simp: list_all_iff)
  then show "invalidMetric (ord (iq_Samples req)) = ''''"
    by (fastforce simp: invalidMetric_def maxMetricNameLen_def split: option.split dest!: find_Some_mem)
qed

lemma finish_push_status: "rs_status (fst (finish_push pe srv req a)) \<in> {200, 500}"
  by (auto simp: finish_push_def refuse_def answer_def split: prod.split sum.split)

text \<open>Without the one collector that can panic, a push is always made.\<close>

lemma push_request_alive:
  assumes "loop_ok l" "''dragonfly'' \<notin> set (map fst (agent_registry (lp_cfg l)))"
  shows "\<exists>req reg. push_request f b ro l = Some (req, reg)"
proof -
  have "CollectEnabled f (ro_readings ro) (lp_enabled l) [] (lp_reg l) \<noteq> None"
    using CollectEnabled_alive [of "lp_reg l" f "ro_readings ro" "lp_enabled l" "[]"] assms
    unfolding loop_ok_def by (metis IntD2)
  then show ?thesis by (auto simp: push_request_def)
qed

lemma handleIngest_valid:
  assumes "length (iq_Samples req) \<le> 256" "invalidMetric (pe_check pe (iq_Samples req)) = ''''"
  shows "rs_status (fst (handleIngest pe authorization (Some req) a)) \<noteq> 400"
proof -
  obtain r a1 where b: "bearerServer authorization a = (r, a1)" by fastforce
  show ?thesis
  proof (cases r)
    case (Inl st)
    with bearerServer_Inl [OF b [unfolded Inl]] b show ?thesis by (auto simp: handleIngest_def refuse_def)
  next
    case (Inr srv)
    obtain ok a2 where g: "allowPush (srv_ID srv) (pe_gate_at pe) a1 = (ok, a2)" by fastforce
    obtain ok3 a3 where f: "fold_in pe srv (iq_Samples req) a2 = (ok3, a3)" by fastforce
    have "handleIngest pe authorization (Some req) a =
        (if ok then if ok3 then finish_push pe srv req a3 else (storage_failure, a3) else (refuse 429 ''pushing too fast'', a2))"
      using b Inr g f assms by (simp add: handleIngest_def finish_push_def maxSamplesPerPush_def)
    with finish_push_status [of pe srv req a3] show ?thesis by (auto simp: refuse_def)
  qed
qed

section \<open>What a mother serves\<close>

definition plain_tree :: "tree \<Rightarrow> bool" where
  "plain_tree tree \<longleftrightarrow> (\<forall>(v, fs) \<in> set tree. CHR ''/'' \<notin> set v \<and> (\<forall>n \<in> fst ` set fs. CHR ''/'' \<notin> set n))"

lemma path_join_inj:
  assumes "\<forall>s \<in> {v, n, v', n'}. CHR ''/'' \<notin> set s"
  shows "path_join [dir, v, n] = path_join [dir, v', n'] \<longleftrightarrow> v = v' \<and> n = n'"
proof -
  have "path_join [dir, v, n] = dir @ ''/'' @ Join [v, n] ''/''" for v n by (simp add: path_join_def)
  moreover have "Split (Join [v, n] ''/'') CHR ''/'' = [v, n]" "Split (Join [v', n'] ''/'') CHR ''/'' = [v', n']"
    using assms by (intro Split_Join; simp)+
  ultimately show ?thesis by (metis append.assoc list.inject same_append_eq)
qed

lemma file_at_published:
  assumes "plain_tree tree" "map_of tree v = Some fs" "map_of fs n = Some bytes"
  shows "file_at dir tree (path_join [dir, v, n]) = Some bytes"
proof -
  have vn: "CHR ''/'' \<notin> set v" "CHR ''/'' \<notin> set n"
    using assms map_of_SomeD [OF assms(2)] map_of_SomeD [OF assms(3)] by (force simp: plain_tree_def)+
  have here: "map_of (map (\<lambda>(n, bytes). (path_join [dir, u, n], bytes)) gs) (path_join [dir, v, n]) =
      (if u = v then map_of gs n else None)" if "CHR ''/'' \<notin> set u" "\<forall>m \<in> fst ` set gs. CHR ''/'' \<notin> set m" for u gs
    using that(2)
  proof (induction gs)
    case (Cons g gs)
    then show ?case using path_join_inj [of v n u "fst g" dir] vn that(1) by (cases g) auto
  qed simp
  show ?thesis
    using assms(1,2) unfolding file_at_def
  proof (induction tree)
    case (Cons e rest)
    obtain u gs where e: "e = (u, gs)" by (cases e)
    from Cons.prems(1) have plain: "CHR ''/'' \<notin> set u" "\<forall>m \<in> fst ` set gs. CHR ''/'' \<notin> set m" "plain_tree rest"
      by (auto simp: plain_tree_def e)
    show ?case
      using Cons.IH [OF plain(3)] Cons.prems(2) assms(3) here [OF plain(1,2)]
      by (cases "u = v") (simp_all add: e map_add_Some_iff map_add_dom_app_simps del: map_of_eq_Some_iff)
  qed simp
qed

text \<open>A build as a version of the catalogue holds it, with its checksum, known to the index.\<close>

definition publishes :: "(string \<Rightarrow> nat list) \<Rightarrow> tree \<Rightarrow> string \<Rightarrow> string \<Rightarrow> string \<Rightarrow> bool" where
  "publishes sha256 tree v asset bytes \<longleftrightarrow>
     (\<exists>fs. map_of tree v = Some fs \<and> map_of fs asset = Some bytes \<and>
        map_of fs (asset @ ChecksumSuffix) = Some (checksum_file sha256 bytes))"

definition serves_build :: "'v link \<Rightarrow> 'v api \<Rightarrow> (string \<Rightarrow> nat list) \<Rightarrow> string \<Rightarrow> string \<Rightarrow> string \<Rightarrow> bool" where
  "serves_build lk a sha256 v asset bytes \<longleftrightarrow>
     ho_binaries (lk_host lk) = Some (Ensure (lk_dir lk) (listing_of (lk_tree lk))) \<and> plain_tree (lk_tree lk) \<and>
     publishes sha256 (lk_tree lk) v asset bytes \<and> indexKnows v (ap_releases a) \<and>
     \<not> HasSuffix (lk_base lk) ''/'' \<and> url_plain v \<and> length bytes \<le> MaxBinarySize \<and>
     length (sha256 bytes) = 32 \<and> (\<forall>x \<in> set (sha256 bytes). x < 256)"

lemma assets_plain: "list_all url_plain ExpectedAssets"
  by code_simp

lemma mother_get_file:
  assumes "serves_build lk a sha256 v asset bytes" "asset \<in> binary_names"
    and "n \<in> {asset, asset @ ChecksumSuffix}" "\<exists>fs. map_of (lk_tree lk) v = Some fs \<and> map_of fs n = Some content"
  shows "mother_get lk a (DownloadURL (lk_base lk) v n) = Reply 200 content None"
proof -
  have n: "n \<in> set ExpectedAssets" using assms(2,3) by (auto simp: set_ExpectedAssets)
  have trim: "TrimSuffix n ChecksumSuffix = asset"
    using assms(2,3) binary_no_checksum by auto
  have stat: "stat_asset (listing_of (lk_tree lk)) v asset"
  proof -
    from assms(1) obtain fs where "map_of (lk_tree lk) v = Some fs" "map_of fs asset = Some bytes"
      by (auto simp: serves_build_def publishes_def)
    from this [THEN map_of_SomeD] show ?thesis
      by (force simp: stat_asset_def listing_of_def list_ex_iff)
  qed
  have url: "DownloadURL (lk_base lk) v n = lk_base lk @ ''/releases/download/'' @ v @ ''/'' @ n"
    using assms(1) by (simp add: serves_build_def DownloadURL_def TrimSuffix_def)
  have "url_plain n" using assets_plain n by (simp add: list_all_iff)
  moreover have "handleDownload (ho_binaries (lk_host lk)) v n a = answer 200 (path_join [lk_dir lk, v, n])"
    using assms(1) n stat by (simp add: serves_build_def handleDownload_def serveAsset_eq trim)
  moreover have "file_at (lk_dir lk) (lk_tree lk) (path_join [lk_dir lk, v, n]) = Some content"
    using assms(1,4) file_at_published by (auto simp: serves_build_def)
  ultimately show ?thesis
    using assms(1) serve_download [of v n "lk_host lk" "''''" a] unfolding url
    by (simp add: mother_get_def serves_build_def answer_def)
qed

definition working_disk :: "disk \<Rightarrow> bool" where
  "working_disk dk \<longleftrightarrow> \<not> isl (dk_CreateTemp dk) \<and> dk_Write dk = None \<and> dk_Chmod dk = None \<and> dk_Sync dk = None \<and>
     dk_Close dk = None \<and> dk_Rename dk = None"

lemma Place_delivers:
  assumes "get (DownloadURL u v (asset @ ChecksumSuffix)) = Reply 200 (checksum_file sha256 body) None"
    and "get (DownloadURL u v asset) = Reply 200 body None" and "length body \<le> MaxBinarySize" "working_disk dk"
    and "length (sha256 body) = 32" "\<forall>x \<in> set (sha256 body). x < 256" and "temp_ok dk dest fs"
  shows "Place get sha256 lr dk u v asset dest fs = (Inr (), AList.update dest \<lparr>fl_Bytes = body, fl_Mode = 493\<rparr> fs)"
proof -
  let ?hex = "hex_encode (sha256 body)"
  have hex: "length ?hex = 64" "list_all is_hex ?hex" "map lower_char ?hex = ?hex"
    using assms(5,6) map_lower_hex_encode by (simp_all add: length_hex_encode)
  have p: "ParseChecksum lr (checksum_file sha256 body) = Inr ?hex"
    using ParseChecksum_hex [OF hex(2,1), of "[LF]" lr] hex(3)
    by (simp add: checksum_file_def LF_def rune_is_space_def byte_def)
  have len: "length (checksum_file sha256 body) \<le> maxChecksumSize"
    by (simp add: checksum_file_def hex(1) maxChecksumSize_def)
  then have f: "fetch get (DownloadURL u v (asset @ ChecksumSuffix)) maxChecksumSize = Inr (checksum_file sha256 body)"
    using read_limited_short [OF len] by (simp add: fetch_def assms(1) del: One_nat_def)
  obtain tmp where tmp: "dk_CreateTemp dk = Inr tmp" using assms(4) by (cases "dk_CreateTemp dk") (auto simp: working_disk_def)
  have d: "download get sha256 dk (DownloadURL u v asset) fs =
      (Inr (tmp, ?hex), AList.update tmp \<lparr>fl_Bytes = body, fl_Mode = 493\<rparr> fs)"
    using assms(4) tmp read_limited_short [OF assms(3)] assms(3) [unfolded linorder_not_less [symmetric]]
    by (simp only: download_def assms(2) http_reply.case working_disk_def sum.case option.case first_error_def Let_def
        if_False simp_thms option.map prod.case)
  obtain fs' where "Place get sha256 lr dk u v asset dest fs = (Inr (), fs')"
    using assms(4) by (simp add: Place_def f p d working_disk_def)
  moreover from Place_Inr [OF this assms(7)] assms(2)
  have "fs' = AList.update dest \<lparr>fl_Bytes = body, fl_Mode = 493\<rparr> fs" by auto
  ultimately show ?thesis by simp
qed

section \<open>A round\<close>

text \<open>A mother on which a push with this token is taken: nothing fails and nothing is too soon.\<close>

definition takes_push :: "'v::linorder link \<Rightarrow> string \<Rightarrow> server \<Rightarrow> settings \<Rightarrow> 'v api \<Rightarrow> bool" where
  "takes_push lk tok srv cfg a \<longleftrightarrow>
     healthy (ap_db a) \<and> find (\<lambda>s. srv_Token s = tok) (servers (ap_db a)) = Some srv \<and> tok \<noteq> '''' \<and>
     scan_settings defaultSettings (settings_tab (ap_db a)) = Inr cfg \<and>
     (\<forall>t. map_of (ap_lastPush a) (srv_ID srv) = Some t \<longrightarrow> 2 * Second \<le> pe_gate_at (ho_push (lk_host lk)) - t) \<and>
     srv_LastPush srv < unix (pe_now (ho_push (lk_host lk))) \<and> any_order (pe_check (ho_push (lk_host lk)))"

text \<open>An agent about to push to that mother.\<close>

definition pushes_to ::
  "'v::{linorder,plus,divide,times} float_ops \<Rightarrow> binary \<Rightarrow> 'v link \<Rightarrow> 'v round \<Rightarrow> 'v loop \<Rightarrow> 'v ingest_request \<Rightarrow> bool" where
  "pushes_to f b lk ro l req \<longleftrightarrow>
     loop_ok l \<and> MotherURL (lp_cfg l) = lk_base lk \<and> (\<exists>reg. push_request f b ro l = Some (req, reg)) \<and> ro_marshal ro req = None"

lemma joined_fields [simp]:
  "push_request f b (joined f b lk ro l a) l' = push_request f b ro l'" "ro_marshal (joined f b lk ro l a) = ro_marshal ro"
  "ro_now (joined f b lk ro l a) = ro_now ro" "ro_executable (joined f b lk ro l a) = ro_executable ro"
  "ro_disk (joined f b lk ro l a) = ro_disk ro" "ro_removal (joined f b lk ro l a) = ro_removal ro" "ro_get (joined f b lk ro l a) = mother_get lk (pushed f b lk ro l a)"
  "ro_post (joined f b lk ro l a) url tok req = fst (mother_post lk url tok req a)"
  by (simp_all add: joined_def push_request_def split: option.split)

text \<open>The push of such an agent on such a mother: what is answered, and both sides after it.\<close>

lemma push_taken:
  assumes "pushes_to f b lk ro l req" "takes_push lk (Token (lp_cfg l)) srv cfg a"
  defines "resp \<equiv> \<lparr>ir_Collectors = srv_Collectors srv, ir_Interval = Interval cfg,
      ir_DesiredVersion = srv_DesiredVersion srv, ir_Uninstall = (srv_UninstallRequestedAt srv \<noteq> 0)\<rparr>"
  shows "\<exists>reg. PushOnce f b (joined f b lk ro l a) l = Some (req, Inr resp, adopt resp (l\<lparr>lp_reg := reg\<rparr>))"
    and "ap_db (pushed f b lk ro l a) = pushed_db (ho_push (lk_host lk)) (srv_ID srv) req (ap_db a)"
    and "ap_releases (pushed f b lk ro l a) = ap_releases a"
proof -
  let ?pe = "ho_push (lk_host lk)" and ?auth = "''Bearer '' @ Token (lp_cfg l)"
  from assms(1) obtain reg where p: "push_request f b ro l = Some (req, reg)" "loop_ok l" "ro_marshal ro req = None"
    and base: "MotherURL (lp_cfg l) = lk_base lk" by (auto simp: pushes_to_def)
  note m = assms(2) [unfolded takes_push_def]
  note valid = agent_samples_valid [OF p(1,2)]
  from m valid obtain a' where run: "handleIngest ?pe ?auth (Some req) a = (answer 200 resp, a')"
    and a': "ap_db a' = pushed_db ?pe (srv_ID srv) req (ap_db a)" "ap_releases a' = ap_releases a"
    using handleIngest_run [of a "Token (lp_cfg l)" srv cfg ?pe req] unfolding resp_def by blast
  have post: "mother_post lk (lk_base lk @ ''/v1/ingest'') (Token (lp_cfg l)) req a = (Replied 200 (Inr resp), a')"
    unfolding mother_post_def CutPrefix_append option.case serve_ingest open_to_def run
    by (simp add: answer_def)
  show "\<exists>reg. PushOnce f b (joined f b lk ro l a) l = Some (req, Inr resp, adopt resp (l\<lparr>lp_reg := reg\<rparr>))"
    by (rule exI [of _ reg]) (simp add: PushOnce_def p base post)
  show "ap_db (pushed f b lk ro l a) = pushed_db ?pe (srv_ID srv) req (ap_db a)"
    "ap_releases (pushed f b lk ro l a) = ap_releases a"
    using a' by (simp_all add: pushed_def p base post)
qed

section \<open>Properties of the fleet\<close>


text \<open>
  C6. A rollout arrives. An agent whose row asks for another version pushes to a working mother that
  holds that version's build for the agent's platform: in that one round the agent is told,
  downloads the build and its checksum from the same mother, verifies it, replaces its own
  executable with exactly the published bytes, leaves every other file alone, and exits once, to be
  started again.
\<close>

theorem rollout_arrives:
  assumes agent: "pushes_to f b lk ro l req" and mother: "takes_push lk (Token (lp_cfg l)) srv cfg a"
    and target: "srv_DesiredVersion srv = v" "v \<noteq> bn_Version b" "srv_UninstallRequestedAt srv = 0"
    and build: "serves_build lk a sha256 v (AssetName (bn_OS b) (bn_Arch b)) bytes" "\<lparr>GOOS = bn_OS b, GOARCH = bn_Arch b\<rparr> \<in> set Platforms"
    and due: "\<not> (v = lp_updateTarget l \<and> time_sub (ro_now ro) (lp_lastUpdateAt l) < updateRetryGap)"
    and host: "ro_executable ro = Inr self" "working_disk (ro_disk ro)" "temp_ok (ro_disk ro) self (aw_files w)"
  shows "\<exists>ev l' w'. fst (fleet_round f sha256 lr show_update b lk ro l w a) = Some (ev, l', w') \<and>
    ev_called ev = Update v None \<and> aw_exits w' = aw_exits w + 1 \<and>
    aw_files w' = AList.update self \<lparr>fl_Bytes = bytes, fl_Mode = 493\<rparr> (aw_files w)"
proof -
  let ?ro = "joined f b lk ro l a" and ?asset = "AssetName (bn_OS b) (bn_Arch b)" and ?a = "pushed f b lk ro l a"
  note push = push_taken [OF agent mother]
  from push(1) obtain reg resp where p: "PushOnce f b ?ro l = Some (req, Inr resp, adopt resp (l\<lparr>lp_reg := reg\<rparr>))"
    and resp: "ir_DesiredVersion resp = v" "\<not> ir_Uninstall resp" using target by auto
  have served: "serves_build lk ?a sha256 v ?asset bytes" using build(1) push(3) by (simp add: serves_build_def)
  then have v: "v \<noteq> ''''" and size: "length bytes \<le> MaxBinarySize" "length (sha256 bytes) = 32" "\<forall>x \<in> set (sha256 bytes). x < 256"
    and at: "\<exists>fs. map_of (lk_tree lk) v = Some fs \<and> map_of fs ?asset = Some bytes"
      "\<exists>fs. map_of (lk_tree lk) v = Some fs \<and> map_of fs (?asset @ ChecksumSuffix) = Some (checksum_file sha256 bytes)"
    by (auto simp: serves_build_def publishes_def url_plain_def)
  have name: "?asset \<in> binary_names" using build(2) by (force simp: binary_names_def)
  have url: "MotherURL (lp_cfg l) = lk_base lk" using agent by (simp add: pushes_to_def)
  have "Place (ro_get ?ro) sha256 lr (ro_disk ?ro) (lk_base lk) v ?asset self (aw_files w) =
      (Inr (), AList.update self \<lparr>fl_Bytes = bytes, fl_Mode = 493\<rparr> (aw_files w))"
    using mother_get_file [OF served name _ at(1)] mother_get_file [OF served name _ at(2)] size host
    by (intro Place_delivers) simp_all
  then have up: "SelfUpdateWithClient sha256 lr show_update b ?ro (lp_cfg l) v w =
      (None, w\<lparr>aw_files := AList.update self \<lparr>fl_Bytes = bytes, fl_Mode = 493\<rparr> (aw_files w), aw_exits := aw_exits w + 1\<rparr>)"
    by (simp add: SelfUpdateWithClient_def selfUpdate_def host(1) url)
  show ?thesis
    using due target(2) v by (simp add: fleet_round_def agent_round_def RunOnce_def p resp Let_def tryUpdate_def adopt_def up)
qed

text \<open>
  C7. And is seen to have arrived. An agent that runs the version its row asks for, or whose row asks
  for none, pushes to a working mother: it is answered with the row's collectors and the stored
  interval and goes on with them, forgets any update it was after, and touches nothing on its host;
  the row then carries the version the agent runs, and the fleet list shows it idle.
\<close>

theorem rollout_reported:
  assumes agent: "pushes_to f b lk ro l req" and mother: "takes_push lk (Token (lp_cfg l)) srv cfg a"
    and target: "srv_DesiredVersion srv \<in> {'''', bn_Version b}" "srv_UninstallRequestedAt srv = 0"
  shows "\<exists>ev l' srv'. fleet_round f sha256 lr show_update b lk ro l w a = (Some (ev, l', w), pushed f b lk ro l a) \<and>
    ev_called ev = Nothing \<and> lp_updateErr l' = '''' \<and> lp_updateTarget l' = '''' \<and> lp_pushed l' \<and>
    lp_enabled l' = (if srv_Collectors srv = [] then lp_enabled l else srv_Collectors srv) \<and>
    lp_interval l' = (if 0 < Interval cfg then Interval cfg else lp_interval l) \<and>
    find (\<lambda>s. srv_Token s = Token (lp_cfg l)) (servers (ap_db (pushed f b lk ro l a))) = Some srv' \<and>
    srv_ID srv' = srv_ID srv \<and> srv_AgentVersion srv' = bn_Version b \<and> srv_UpdateError srv' = lp_updateErr l \<and>
    updateState srv' = ''idle''"
proof -
  note push = push_taken [OF agent mother]
  from agent obtain reg where req: "push_request f b ro l = Some (req, reg)" "loop_ok l" by (auto simp: pushes_to_def)
  note sent = push_request_Some(6,7) [OF req]
  from mother have row: "find (\<lambda>s. srv_Token s = Token (lp_cfg l)) (servers (ap_db (pushed f b lk ro l a))) =
      Some (row_pushed (ho_push (lk_host lk)) req srv)"
    unfolding push(2) takes_push_def by (intro find_pushed) simp
  have idle: "updateState (row_pushed (ho_push (lk_host lk)) req srv) = ''idle''"
    using target(1) sent(1) by (auto simp: updateState_def)
  from push(1) target obtain reg' where "fleet_round f sha256 lr show_update b lk ro l w a =
      (Some (\<lparr>ev_request = req, ev_answer = Inr \<lparr>ir_Collectors = srv_Collectors srv, ir_Interval = Interval cfg,
          ir_DesiredVersion = srv_DesiredVersion srv, ir_Uninstall = False\<rparr>, ev_called = Nothing\<rparr>,
        forgetUpdate (adopt \<lparr>ir_Collectors = srv_Collectors srv, ir_Interval = Interval cfg,
          ir_DesiredVersion = srv_DesiredVersion srv, ir_Uninstall = False\<rparr> (l\<lparr>lp_reg := reg'\<rparr>)), w), pushed f b lk ro l a)"
    by (auto simp: fleet_round_def agent_round_def RunOnce_def Let_def)
  with row idle sent show ?thesis by (simp add: forgetUpdate_def adopt_def)
qed

section \<open>A fleet of one\<close>

definition fleet_tree :: tree where
  "fleet_tree = [(''v2'', [(''feast-watch-agent-linux-amd64'', ''binary''),
     (''feast-watch-agent-linux-amd64.sha256'', checksum_file (\<lambda>s. replicate 32 171) ''binary'')])]"

definition fleet_link :: "int link" where
  "fleet_link = \<lparr>lk_base = ''http://m'', lk_host = sample_mother_host\<lparr>ho_binaries := Some (Ensure ''/b'' (listing_of fleet_tree))\<rparr>,
     lk_dir = ''/b'', lk_tree = fleet_tree\<rparr>"

definition fleet_server :: server where
  "fleet_server = (new_server ''web'' ''tk'' 0)\<lparr>srv_ID := 1, srv_DesiredVersion := ''v2''\<rparr>"

definition fleet_api :: "int api" where
  "fleet_api = New (empty_db\<lparr>servers := [fleet_server]\<rparr>) ''k''
     (snd (Refresh 0 (Fetch as_listed (listing_of fleet_tree)) NewCache))"

definition fleet_loop :: "int loop" where
  "fleet_loop = NewLoopWithClient sample_cfg (agent_registry sample_cfg)"

lemma fleet_cfg: "MotherURL (lp_cfg fleet_loop) = ''http://m''" "Token (lp_cfg fleet_loop) = ''tk''"
  by (simp_all add: fleet_loop_def NewLoopWithClient_def sample_cfg_def config_of_def value_of_def)

lemma fleet_pushes: "\<exists>req. pushes_to int_ops b fleet_link (sample_round get v 0) fleet_loop req"
proof -
  have ok: "loop_ok fleet_loop" unfolding fleet_loop_def by (rule loop_ok_new)
  moreover have "''dragonfly'' \<notin> set (map fst (agent_registry (lp_cfg fleet_loop)))"
    unfolding fleet_loop_def NewLoopWithClient_def sample_cfg_def by code_simp
  ultimately obtain req reg where "push_request int_ops b (sample_round get v 0) fleet_loop = Some (req, reg)"
    using push_request_alive by blast
  moreover have "lk_base fleet_link = ''http://m''" by (simp add: fleet_link_def)
  moreover have "ro_marshal (sample_round get v 0) req = None" for req by (simp add: sample_round_def)
  ultimately show ?thesis using ok unfolding pushes_to_def fleet_cfg by auto
qed

lemma fleet_takes: "takes_push fleet_link (Token (lp_cfg fleet_loop)) fleet_server defaultSettings fleet_api"
  unfolding takes_push_def fleet_cfg
  by (simp add: fleet_api_def fleet_link_def sample_mother_host_def sample_env_def New_def empty_db_def healthy_def fleet_server_def
      new_server_def unix_def any_order_def)

lemma fleet_serves: "serves_build fleet_link fleet_api (\<lambda>s. replicate 32 171) ''v2'' (AssetName ''linux'' ''amd64'') ''binary''"
proof -
  have "listing_of fleet_tree = Listing [\<lparr>de_Name = ''v2'', de_IsDir = True, de_Files = Listing
     [''feast-watch-agent-linux-amd64'', ''feast-watch-agent-linux-amd64.sha256'']\<rparr>]"
    by (simp add: listing_of_def fleet_tree_def del: replicate.simps)
  moreover have "indexKnows ''v2'' (snd (Refresh 0 (Fetch as_listed (Listing [\<lparr>de_Name = ''v2'', de_IsDir = True, de_Files = Listing
     [''feast-watch-agent-linux-amd64'', ''feast-watch-agent-linux-amd64.sha256'']\<rparr>])) NewCache))"
    by code_simp
  ultimately have "indexKnows ''v2'' (ap_releases fleet_api)" by (simp add: fleet_api_def New_def)
  moreover have "url_plain ''v2''" by code_simp
  moreover have "plain_tree fleet_tree"
    by (simp add: plain_tree_def fleet_tree_def del: replicate.simps)
  moreover have "AssetName ''linux'' ''amd64'' = ''feast-watch-agent-linux-amd64''" "ChecksumSuffix = ''.sha256''"
    "\<not> HasSuffix ''http://m'' ''/''" by code_simp+
  moreover have "publishes (\<lambda>s. replicate 32 171) fleet_tree ''v2'' ''feast-watch-agent-linux-amd64'' ''binary''"
    unfolding publishes_def fleet_tree_def by (simp add: ChecksumSuffix_def del: replicate.simps)
  moreover have "length ''binary'' \<le> MaxBinarySize" by (simp add: MaxBinarySize_def)
  moreover have "\<forall>x \<in> set (replicate 32 (171 :: nat)). x < 256" by simp
  ultimately show ?thesis
    unfolding serves_build_def by (simp add: fleet_link_def del: replicate.simps)
qed


theorem rollout_arrives_witness:
  "\<exists>ev l' w'. fst (fleet_round int_ops (\<lambda>s. replicate 32 171) (\<lambda>r. r) (\<lambda>e. '''') sample_binary fleet_link
      (sample_round sample_get ''v2'' 0) fleet_loop sample_world fleet_api) = Some (ev, l', w') \<and>
    aw_exits w' = 1 \<and> map_of (aw_files w') ''/bin/agent'' = Some \<lparr>fl_Bytes = ''binary'', fl_Mode = 493\<rparr>"
proof -
  let ?ro = "sample_round sample_get ''v2'' 0 :: int round"
  obtain req where p: "pushes_to int_ops sample_binary fleet_link ?ro fleet_loop req" using fleet_pushes by blast
  have bin: "bn_Version sample_binary = ''v1''" "bn_OS sample_binary = ''linux''" "bn_Arch sample_binary = ''amd64''"
    by (simp_all add: sample_binary_def)
  have row: "srv_DesiredVersion fleet_server = ''v2''" "srv_UninstallRequestedAt fleet_server = 0"
    by (simp_all add: fleet_server_def new_server_def)
  have plat: "\<lparr>GOOS = ''linux'', GOARCH = ''amd64''\<rparr> \<in> set Platforms" by (simp add: Platforms_def)
  have disk: "working_disk (ro_disk ?ro)" "ro_executable ?ro = Inr ''/bin/agent''" "temp_ok (ro_disk ?ro) ''/bin/agent'' (aw_files sample_world)"
    by (simp_all add: sample_round_def working_disk_def sample_disk_def temp_ok_def sample_world_def)
  have "lp_updateTarget fleet_loop = ''''" by (simp add: fleet_loop_def NewLoopWithClient_def)
  then have due: "\<not> (''v2'' = lp_updateTarget fleet_loop \<and> time_sub (ro_now ?ro) (lp_lastUpdateAt fleet_loop) < updateRetryGap)" by simp
  have "''v2'' \<noteq> bn_Version sample_binary" by (simp add: bin)
  from rollout_arrives [OF p fleet_takes row(1) this row(2) _ _ due disk(2,1,3), unfolded bin, OF fleet_serves plat]
  show ?thesis by (fastforce simp: sample_world_def)
qed

theorem rollout_reported_witness:
  "\<exists>srv'. find (\<lambda>s. srv_Token s = ''tk'') (servers (ap_db (pushed int_ops (sample_binary\<lparr>bn_Version := ''v2''\<rparr>) fleet_link
      (sample_round sample_get ''v2'' 0) fleet_loop fleet_api))) = Some srv' \<and>
    srv_AgentVersion srv' = ''v2'' \<and> updateState srv' = ''idle''"
proof -
  let ?ro = "sample_round sample_get ''v2'' 0 :: int round" and ?b = "sample_binary\<lparr>bn_Version := ''v2''\<rparr>"
  obtain req where p: "pushes_to int_ops ?b fleet_link ?ro fleet_loop req" using fleet_pushes by blast
  have row: "srv_DesiredVersion fleet_server \<in> {'''', bn_Version ?b}" "srv_UninstallRequestedAt fleet_server = 0"
    by (simp_all add: fleet_server_def new_server_def)
  from rollout_reported [OF p fleet_takes row, of "\<lambda>s. []" "\<lambda>r. r" "\<lambda>e. ''''" sample_world]
  show ?thesis unfolding fleet_cfg by auto
qed

end
