(* ===== verification/Fleet_Lifecycle.thy ===== *)
theory Fleet_Lifecycle
  imports Fleet
begin

text \<open>
  The two ends of an agent's life, across both programs: from the server an operator adds, over the
  script the mother renders and the configuration file it writes, to the agent's first push; and
  from a scheduled removal, over the uninstaller the agent starts, to the confirmation that deletes
  the server. The shell scripts between the two programs are not Go: of the installer only the file
  it leaves is used (\<open>conf_text\<close>), of the uninstaller only the request it ends with.
\<close>

section \<open>Routes\<close>

lemma serve_uninstalled:
  "serve ho (request_to ''POST'' ''/v1/uninstalled'' authorization None) a =
     open_to Worded (handleUninstalled authorization) a"
proof -
  let ?rq = "request_to ''POST'' ''/v1/uninstalled'' authorization None"
  have plain: "list_all url_plain [''v1'', ''uninstalled'']" by code_simp
  have u: "unescaped ''v1'' = ''v1''" "unescaped ''uninstalled'' = ''uninstalled''" by (simp_all add: unescaped_plain)
  have f: "find (\<lambda>(m, pat, h). for_method m (rq_method ?rq) \<and> path_values pat [''v1'', ''uninstalled''] \<noteq> None) (Handler ho ?rq) =
      Some (''POST'', [Lit ''v1'', Lit ''uninstalled''], \<lambda>ps. open_to Worded (handleUninstalled (rq_authorization ?rq)))"
    by (simp add: Handler_def registerUninstall_def request_to_def for_method_def u)
  show ?thesis
    by (subst serve_plain [OF _ plain _ f]) (simp_all add: request_to_def)
qed

lemma serve_install:
  fixes ho :: "'v::{linorder,plus} mother_host"
  assumes "url_plain name"
  shows "serve ho (request_to ''GET'' (''/install/'' @ name) authorization None) a =
    open_to Worded (handleInstallScript (ho_render ho) name) a"
proof -
  let ?rq = "request_to ''GET'' (''/install/'' @ name) authorization None :: 'v request"
  let ?route = "\<lambda>ps. open_to Worded (handleInstallScript (ho_render ho) (ps ! 0)) :: 'v api \<Rightarrow> 'v reply \<times> 'v api"
  have "list_all url_plain [''install'']" by code_simp
  then have plain: "list_all url_plain [''install'', name]" using assms by simp
  have u: "unescaped ''install'' = ''install''" "unescaped name = name"
    using assms by (simp_all add: unescaped_plain url_plain_chars)
  have seg: "name \<noteq> ''''" "name \<noteq> ''/''" using assms url_plain_chars(1) [OF assms] by (auto simp: url_plain_def)
  define before where "before = (''POST'', [Lit ''v1'', Lit ''ingest''],
      \<lambda>ps. open_to Pushed (handleIngest (ho_push ho) (rq_authorization ?rq) (bo_push (rq_body ?rq)))) #
     registerUninstall ho ?rq @ registerAdmin ho ?rq @ registerLive ho ?rq @ registerSettings ho ?rq @
     registerGroups ho ?rq @ registerChart ho ?rq"
  have b: "list_all (\<lambda>(m, pat, h). \<exists>l pat'. pat = Lit l # pat' \<and> l \<noteq> ''install'') before"
    by (simp add: before_def registrations)
  have h: "Handler ho ?rq = before @ registerInstall ho ?rq @ registerVersions ho ?rq @ registerMother ho ?rq @ registerBinaries ho ?rq"
    by (simp add: Handler_def before_def)
  have f: "find (\<lambda>(m, pat, h). for_method m (rq_method ?rq) \<and> path_values pat [''install'', name] \<noteq> None) (Handler ho ?rq) =
      Some (''GET'', [Lit ''install'', Wild], ?route)"
    unfolding h find_skip [OF b u(1)] by (simp add: registerInstall_def request_to_def for_method_def u seg)
  show ?thesis
    by (subst serve_plain [OF _ plain _ f]) (simp_all add: request_to_def u seg)
qed

lemma find_append: "find P (xs @ ys) = (case find P xs of None \<Rightarrow> find P ys | Some x \<Rightarrow> Some x)"
  by (induction xs) auto

section \<open>Tokens\<close>

lemma token_chars:
  assumes "\<forall>x \<in> set rnd. x < 256"
  shows "url_plain (newToken rnd @ ''.sh'')" "plain (newToken rnd)" "newToken rnd \<noteq> ''''"
proof -
  have hex: "\<forall>c \<in> set (hex_encode rnd). is_hex c" using map_lower_hex_encode [OF assms] by (simp add: list_all_iff)
  have "is_hex c \<Longrightarrow> unreserved c \<and> 32 < byte c \<and> byte c < 127" for c
    by (auto simp: is_hex_def unreserved_def is_lower_def is_digit_def between_def less_eq_char_def byte_def)
  with hex have all: "\<forall>c \<in> set (hex_encode rnd). unreserved c \<and> 32 < byte c \<and> byte c < 127" by blast
  have "list_all unreserved ''tk_''" "list_all unreserved ''.sh''" by code_simp+
  with all show "url_plain (newToken rnd @ ''.sh'')" by (simp add: newToken_def url_plain_def list_all_iff)
  show "plain (newToken rnd)" using all by (simp add: newToken_def plain_def list_all_iff byte_def)
  show "newToken rnd \<noteq> ''''" by (simp add: newToken_def)
qed

lemma valid_name_plain:
  assumes "validName name"
  shows "plain name" "length name \<le> 64" "name \<noteq> ''''"
proof -
  have "name_char c \<Longrightarrow> 32 < byte c \<and> byte c < 127" for c
    by (auto simp: name_char_def is_upper_def is_lower_def is_digit_def between_def less_eq_char_def byte_def)
  with assms show "plain name" by (simp add: validName_def plain_def list_all_iff)
  show "length name \<le> 64" "name \<noteq> ''''" using assms by (auto simp: validName_def)
qed

section \<open>Steps\<close>

lemma DeleteServer_healthy: "healthy d \<Longrightarrow> fst (DeleteServer i d) = Inr ()"
  by (simp add: DeleteServer_def in_tx_def bnd_def modify_def exec_def take_fault_def healthy_def del_server_def
      del_rollup_1m_def del_rollup_1h_def del_members_def)

lemma deleteServer_healthy:
  assumes "healthy (ap_db a)"
  obtains a' where "deleteServer i a = (Inr (), a')" "gone i a'"
proof -
  have "fst (deleteServer i a) = Inr ()"
    using DeleteServer_healthy [OF assms, of i]
    by (cases "DeleteServer i (ap_db a)") (simp add: deleteServer_def call_def)
  then obtain a' where "deleteServer i a = (Inr (), a')" by (metis prod.collapse)
  with deleteServer_Inr(3) [OF this] that show ?thesis by blast
qed

lemma AddServer_adds:
  assumes "call (AddServer alloc rnd now name) a = (Inr srv, a1)" "healthy (ap_db a)"
  shows "validName name" "srv_Token srv = newToken rnd" "srv_Name srv = name" "srv_LastPush srv = 0" "srv_Hostname srv = ''''"
    "srv_IP srv = ''''" "srv_OS srv = ''''" "srv_Arch srv = ''''"
    "srv_Collectors srv = DefaultCollectors" "srv_DesiredVersion srv = ''''" "srv_UninstallRequestedAt srv = 0"
    and "healthy (ap_db a1)" "settings_tab (ap_db a1) = settings_tab (ap_db a)"
    and "find (\<lambda>s. srv_Token s = newToken rnd) (servers (ap_db a1)) = Some srv"
proof -
  note add = AddServer_Inr [OF call_fields(1) [OF assms(1)]]
  show "validName name" by (rule add(1))
  show tok: "srv_Token srv = newToken rnd" and "srv_Name srv = name" "srv_LastPush srv = 0" "srv_Hostname srv = ''''"
    "srv_IP srv = ''''" "srv_OS srv = ''''" "srv_Arch srv = ''''"
    "srv_Collectors srv = DefaultCollectors" "srv_DesiredVersion srv = ''''" "srv_UninstallRequestedAt srv = 0"
    by (simp_all add: add(2) new_server_def)
  have "ap_db a1 = (ap_db a)\<lparr>servers := servers (ap_db a) @ [srv]\<rparr>"
    using assms call_fields(1) [OF assms(1)] add(1)
    by (auto simp: AddServer_def bnd_def ret_def exec_healthy insert_server_def Let_def split: if_splits sum.splits)
  then show "healthy (ap_db a1)" "settings_tab (ap_db a1) = settings_tab (ap_db a)"
    and "find (\<lambda>s. srv_Token s = newToken rnd) (servers (ap_db a1)) = Some srv"
    using assms(2) add(3) tok find_None_iff [of "\<lambda>s. srv_Token s = newToken rnd" "servers (ap_db a)"]
    by (simp_all add: healthy_def find_append)
qed

lemma row_pushed_new:
  assumes "srv_Hostname s = ''''" "srv_IP s = ''''" "srv_OS s = ''''" "srv_Arch s = ''''" "iq_Capabilities req \<noteq> []"
  shows "srv_Name (row_pushed pe req s) = srv_Name s"
    "srv_Hostname (row_pushed pe req s) = iq_Hostname req" "srv_IP (row_pushed pe req s) = iq_IP req"
    "srv_OS (row_pushed pe req s) = iq_OS req" "srv_Arch (row_pushed pe req s) = iq_Arch req"
    "srv_Capabilities (row_pushed pe req s) = iq_Capabilities req"
  using assms by (simp_all add: row_pushed_def Let_def touch_def heartbeat_of_def keep_if_empty_def)

lemma install_script_of:
  assumes "healthy (ap_db a)" "find (\<lambda>s. srv_Token s = tok) (servers (ap_db a)) = Some srv" "url_plain (tok @ ''.sh'')" "srv_Token srv = tok"
  shows "fst (serve ho (request_to ''GET'' (''/install/'' @ tok @ ''.sh'') '''' None) a) =
      Worded (case ho_render ho \<lparr>sf_MotherURL = ap_publicURL a, sf_Token = tok, sf_ServerName = srv_Name srv\<rparr> of
          None \<Rightarrow> refuse 500 ''install script unavailable'' | Some script \<Rightarrow> answer 200 script)"
proof -
  have "call (ServerByToken tok) a = (Inr srv, a)"
    using ServerByToken_healthy [OF assms(1), of tok] assms(2) by (simp add: call_def)
  then show ?thesis
    unfolding serve_install [OF assms(3)] open_to_def handleInstallScript_def TrimSuffix_append
    by (simp add: assms(4) split: option.split)
qed

text \<open>The loop of an agent that starts on the file its installer wrote.\<close>

lemma enrolled_loop:
  assumes "any_order ord" "plain u" "u \<noteq> ''''" "length u < 65000" "reachable_url parse_url u"
    and "\<forall>x \<in> set rnd. x < 256" "length rnd < 30000" "validName name"
  obtains acfg where "LoadConfig f parse_url ord (Text (conf_text u (newToken rnd) name) None) = Inr acfg"
    "MotherURL acfg = u" "Token acfg = newToken rnd" "map fst (agent_registry acfg) = [''cpu'', ''memory'', ''uptime'', ''disk'']"
proof -
  have "length (newToken rnd) < 65000" using assms(7) by (simp add: newToken_def length_hex_encode)
  with assms(1-5) token_chars(2,3) [OF assms(6)] valid_name_plain [OF assms(8)] that
  show ?thesis using LoadConfig_conf_text [of ord u "newToken rnd" name parse_url f] by force
qed

section \<open>Properties\<close>

text \<open>
  C8. Enrolment connects. An operator adds a server on a working mother that hands out an address its
  agents can reach: the install script at the token's address is rendered for exactly that server;
  the configuration file the installer writes from it is one the agent accepts; and the agent that
  starts on it is known at its first push: it is answered 200 and goes on with the collectors and
  the interval of the mother, and the row shows its host, platform, version and the four collectors
  that need no configuration.
\<close>

theorem enrolment_connects:
  assumes added: "call (AddServer alloc rnd now name) a = (Inr srv, a1)" "healthy (ap_db a)"
    and rnd: "\<forall>x \<in> set rnd. x < 256" "length rnd < 30000"
    and url: "ap_publicURL a1 = lk_base lk" "plain (lk_base lk)" "lk_base lk \<noteq> ''''" "length (lk_base lk) < 65000"
      "reachable_url parse_url (lk_base lk)"
    and set: "scan_settings defaultSettings (settings_tab (ap_db a)) = Inr cfg"
    and gate: "\<forall>t. map_of (ap_lastPush a1) (srv_ID srv) = Some t \<longrightarrow> 2 * Second \<le> pe_gate_at (ho_push (lk_host lk)) - t"
    and clock: "0 < unix (pe_now (ho_push (lk_host lk)))"
    and orders: "any_order ord" "any_order (pe_check (ho_push (lk_host lk)))" "any_order (ro_order ro)"
    and encodes: "\<forall>req. ro_marshal ro req = None"
  shows "fst (serve (lk_host lk) (request_to ''GET'' (''/install/'' @ srv_Token srv @ ''.sh'') '''' None) a1) =
      Worded (case ho_render (lk_host lk) \<lparr>sf_MotherURL = lk_base lk, sf_Token = srv_Token srv, sf_ServerName = name\<rparr> of
          None \<Rightarrow> refuse 500 ''install script unavailable'' | Some script \<Rightarrow> answer 200 script) \<and>
    (\<exists>acfg ev l' srv'. LoadConfig f parse_url ord (Text (conf_text (lk_base lk) (srv_Token srv) name) None) = Inr acfg \<and>
      fleet_round f sha256 lr show_update b lk ro (NewLoopWithClient acfg (agent_registry acfg)) w a1 =
        (Some (ev, l', w), pushed f b lk ro (NewLoopWithClient acfg (agent_registry acfg)) a1) \<and>
      lp_enabled l' = DefaultCollectors \<and> lp_interval l' = (if 0 < Interval cfg then Interval cfg else defaultInterval) \<and>
      find (\<lambda>s. srv_Token s = srv_Token srv)
        (servers (ap_db (pushed f b lk ro (NewLoopWithClient acfg (agent_registry acfg)) a1))) = Some srv' \<and>
      srv_ID srv' = srv_ID srv \<and> srv_Name srv' = name \<and> srv_LastPush srv' = unix (pe_now (ho_push (lk_host lk))) \<and>
      srv_AgentVersion srv' = bn_Version b \<and> srv_Hostname srv' = ro_hostname ro \<and> srv_IP srv' = ro_ip ro \<and>
      srv_OS srv' = bn_OS b \<and> srv_Arch srv' = bn_Arch b \<and>
      srv_Capabilities srv' = sort [''cpu'', ''memory'', ''uptime'', ''disk''])" (is "?script \<and> ?agent")
proof (rule conjI)
  note new = AddServer_adds [OF added] and tok = token_chars [OF rnd(1)]
  show ?script
    using install_script_of [OF new(12,14) tok(1) new(2), of "lk_host lk"] by (simp add: new(2,3) url(1))
  obtain acfg where load: "LoadConfig f parse_url ord (Text (conf_text (lk_base lk) (srv_Token srv) name) None) = Inr acfg"
    and acfg: "MotherURL acfg = lk_base lk" "Token acfg = srv_Token srv"
      "map fst (agent_registry acfg) = [''cpu'', ''memory'', ''uptime'', ''disk'']"
    using enrolled_loop [OF orders(1) url(2-5) rnd new(1), of f] unfolding new(2) by blast
  define l where "l = NewLoopWithClient acfg (agent_registry acfg)"
  have l: "lp_cfg l = acfg" "lp_pushed l = False" "loop_ok l" "lp_interval l = defaultInterval"
    unfolding l_def using loop_ok_new by (simp_all add: NewLoopWithClient_def)
  from push_request_alive [OF l(3)] obtain req reg where req: "push_request f b ro l = Some (req, reg)"
    by (simp add: l(1) acfg(3) del: set_map) blast
  note sent = push_request_Some(6) [OF req l(3)] push_request_identity [OF req l(3) orders(3)]
  have agent: "pushes_to f b lk ro l req" using l req acfg encodes by (simp add: pushes_to_def)
  have mother: "takes_push lk (Token (lp_cfg l)) srv cfg a1"
    using new tok(3) set gate clock orders(2) by (simp add: takes_push_def l(1) acfg(2))
  note push = push_taken [OF agent mother]
  obtain ev l' where "fleet_round f sha256 lr show_update b lk ro l w a1 = (Some (ev, l', w), pushed f b lk ro l a1)"
    "lp_enabled l' = DefaultCollectors" "lp_interval l' = (if 0 < Interval cfg then Interval cfg else defaultInterval)"
    using push(1) new(9-11) l(4)
    by (auto simp: fleet_round_def agent_round_def RunOnce_def Let_def adopt_def forgetUpdate_def DefaultCollectors_def)
  moreover have "find (\<lambda>s. srv_Token s = srv_Token srv) (servers (ap_db (pushed f b lk ro l a1))) =
      Some (row_pushed (ho_push (lk_host lk)) req srv)"
    unfolding push(2) using new(2,14) by (intro find_pushed) simp
  moreover have "iq_Capabilities req = sort [''cpu'', ''memory'', ''uptime'', ''disk'']" "iq_Hostname req = ro_hostname ro"
    "iq_IP req = ro_ip ro" "iq_OS req = bn_OS b" "iq_Arch req = bn_Arch b"
    using sent(2) by (simp_all add: l(1,2) acfg(3) del: sort_key_simps)
  moreover have "sort [''cpu'', ''memory'', ''uptime'', ''disk''] \<noteq> []" by (metis list.discI set_empty set_sort)
  ultimately show ?agent
    using load new sent(1) row_pushed_new [of srv req]
    by (intro exI [of _ acfg] exI [of _ ev] exI [of _ l'] exI [of _ "row_pushed (ho_push (lk_host lk)) req srv"])
      (simp add: l_def del: sort_key_simps)
qed


section \<open>One agent, from its beginning to its end\<close>

definition bare_api :: "int api" where
  "bare_api = SetPublicURL ''http://m'' (New empty_db ''k'' NewCache)"

lemma bare_added: "call (AddServer next_rowid [7] 0 ''web'') bare_api =
    (Inr ((new_server ''web'' ''tk_07'' 0)\<lparr>srv_ID := 1\<rparr>),
     bare_api\<lparr>ap_db := empty_db\<lparr>servers := [(new_server ''web'' ''tk_07'' 0)\<lparr>srv_ID := 1\<rparr>]\<rparr>\<rparr>)"
  by code_simp

theorem enrolment_connects_witness:
  "\<exists>acfg srv'. LoadConfig int_ops (\<lambda>u. Inr \<lparr>Scheme = ''http'', Host = ''m''\<rparr>) as_listed
      (Text (conf_text ''http://m'' ''tk_07'' ''web'') None) = Inr acfg \<and>
    find (\<lambda>s. srv_Token s = ''tk_07'') (servers (ap_db (pushed int_ops sample_binary fleet_link (sample_round sample_get ''v1'' 0)
      (NewLoopWithClient acfg (agent_registry acfg)) (snd (call (AddServer next_rowid [7] 0 ''web'') bare_api))))) = Some srv' \<and>
    srv_Hostname srv' = ''h'' \<and> srv_AgentVersion srv' = ''v1''"
proof -
  let ?parse = "\<lambda>u :: string. Inr \<lparr>Scheme = ''http'', Host = ''m''\<rparr> :: string + url"
  let ?ro = "sample_round sample_get ''v1'' 0 :: int round"
  let ?srv = "(new_server ''web'' ''tk_07'' 0)\<lparr>srv_ID := 1\<rparr>"
  let ?a1 = "snd (call (AddServer next_rowid [7] 0 ''web'') bare_api)"
  have up: "healthy (ap_db bare_api)" "scan_settings defaultSettings (settings_tab (ap_db bare_api)) = Inr defaultSettings"
    by (simp_all add: bare_api_def SetPublicURL_def New_def empty_db_def healthy_def)
  have added: "call (AddServer next_rowid [7] 0 ''web'') bare_api = (Inr ?srv, ?a1)" by (simp add: bare_added)
  have rnd: "\<forall>x \<in> set [7 :: nat]. x < 256" "length [7 :: nat] < 30000" by simp_all
  have link: "lk_base fleet_link = ''http://m''" "ho_push (lk_host fleet_link) = sample_env"
    by (simp_all add: fleet_link_def sample_mother_host_def)
  have url: "ap_publicURL ?a1 = lk_base fleet_link" "plain (lk_base fleet_link)" "lk_base fleet_link \<noteq> ''''"
    "length (lk_base fleet_link) < 65000" "reachable_url ?parse (lk_base fleet_link)"
    unfolding bare_added by (simp_all add: link bare_api_def SetPublicURL_def byte_def reachable_url_def)
  have gate: "\<forall>t. map_of (ap_lastPush ?a1) (srv_ID ?srv) = Some t \<longrightarrow> 2 * Second \<le> pe_gate_at (ho_push (lk_host fleet_link)) - t"
    unfolding bare_added by (simp add: bare_api_def SetPublicURL_def New_def)
  have clock: "0 < unix (pe_now (ho_push (lk_host fleet_link)))" by (simp add: link sample_env_def unix_def)
  have orders: "any_order as_listed" "any_order (pe_check (ho_push (lk_host fleet_link)))" "any_order (ro_order ?ro)"
    by (simp_all add: link sample_env_def sample_round_def any_order_def)
  have encodes: "\<forall>req. ro_marshal ?ro req = None" by (simp add: sample_round_def)
  have fields: "srv_Token ?srv = ''tk_07''" "ro_hostname ?ro = ''h''" "bn_Version sample_binary = ''v1''"
    by (simp_all add: new_server_def sample_round_def sample_binary_def)
  from enrolment_connects [OF added up(1) rnd url up(2) gate clock orders encodes, of int_ops "\<lambda>s. []" "\<lambda>r. r" "\<lambda>e. ''''"
      sample_binary sample_world, unfolded fields link(1)]
  show ?thesis by blast
qed

definition scheduled_api :: "int api" where
  "scheduled_api = New (empty_db\<lparr>servers := [fleet_server\<lparr>srv_UninstallRequestedAt := 5\<rparr>]\<rparr>) ''k'' NewCache"


end
