(* ===== verification/Spec2Isabelle.thy ===== *)
theory Spec2Isabelle
  imports API_Ingest API_Servers API_Versions API_Chart API_Reads API_Settings Updater Catalogue Agent_Loop Build_Publish Source_Archive
    Live_Log Migrations Mother_System Fleet_Lifecycle
begin

text \<open>
  A verification library of feast-watch: a monitoring fleet of one server, the mother, and of
  agents that push samples to it, update themselves to the version it names and remove themselves
  when it asks. The mother also updates itself, compiles the fleet's binaries and serves them.

  \<^bold>\<open>The program and how its parts meet.\<close> An agent (\<open>src/agent\<close>) reads its configuration, registers
  collectors and then, round after round, collects, pushes to \<open>POST /v1/ingest\<close> and acts on the
  answer. The mother (\<open>src/mother\<close>) keeps the fleet in SQLite (\<open>mother/store\<close>), the newest samples
  in memory (\<open>mother/live\<close>), and what can be rolled out in a directory (\<open>mother/build\<close>) that it
  indexes (\<open>mother/release\<close>) and serves (\<open>mother/api\<close>). \<open>src/shared\<close> holds what both sides must agree
  on: the messages, the names of the assets and the verified download.

  \<^bold>\<open>Theories, in the order they build on each other.\<close>
  \<^item> \<open>Prelude\<close>, \<open>Go_Strings\<close>: 64-bit integers and times of Go (an \<open>int\<close> with \<open>wrap64\<close> written out), tables
    as association lists, the part of \<open>strings\<close>, \<open>strconv\<close>, \<open>bufio\<close> and \<open>unicode\<close> the code uses.
  \<^item> \<open>Schema\<close>, \<open>Servers\<close>, \<open>Rollup\<close>, \<open>Settings\<close>, \<open>Server_Groups\<close>, \<open>Mother_Row\<close>, \<open>Store\<close>: \<open>mother/store\<close>. The
    state is the record \<open>db\<close>, one list per table; an operation is a function from it to an error or a
    value with the new state. \<open>Store\<close> has the invariant of the tables.
  \<^item> \<open>Migrations\<close>: opening a file of any older shape (\<open>store.go\<close>, \<open>pragmas.go\<close>, \<open>migrate.go\<close>).
  \<^item> \<open>Live\<close>, \<open>Live_Log\<close>: \<open>mother/live\<close>. \<open>Release\<close>, \<open>Self_Update\<close>, \<open>Protocol\<close>: \<open>src/shared\<close>. \<open>Version_Order\<close>,
    \<open>Release_Index\<close>: \<open>mother/release\<close>. \<open>Catalogue\<close>, \<open>Source_Archive\<close>, \<open>Build_Publish\<close>: \<open>mother/build\<close>.
    \<open>Updater\<close>: \<open>mother/selfupdate\<close>.
  \<^item> \<open>API_Base\<close>, \<open>API_Ingest\<close>, \<open>API_Servers\<close>, \<open>API_Versions\<close>, \<open>API_Settings\<close>, \<open>API_Chart\<close>, \<open>API_Reads\<close>:
    \<open>mother/api\<close>, one definition per handler over the record \<open>api\<close>; \<open>API_Routes\<close>: what \<open>Handler\<close>
    registers, and the dispatch of a request among it.
  \<^item> \<open>Mother_Config\<close>, \<open>Mother_Main\<close>: the mother's process from its environment file to the state it
    serves from, and its two commands. \<open>Mother_System\<close>: the states that process reaches.
  \<^item> \<open>Agent_Collectors\<close>, \<open>Agent_Config\<close>, \<open>Agent_Loop\<close>: \<open>src/agent\<close>; \<open>Throttle\<close> has the contract of
    the three rate limits.
  \<^item> \<open>Fleet\<close>, \<open>Fleet_Lifecycle\<close>: an agent and the mother joined by the wire.

  \<^bold>\<open>What the lemmas show.\<close> Of the store: every operation keeps the tables' invariant whichever of its
  statements fail (\<open>Store\<close>), a failed operation changes nothing where it runs in a transaction (the
  locale \<open>committed\<close> with its interpretations), and the two rollup tiers refine the log of all samples
  (\<open>Rollup\<close>), as the live store does within its window (\<open>Live_Log\<close>). Of the handlers: the behaviour of each on every branch, what it may change, and what it
  leaves alone when it refuses. Of rollouts: only verified bytes are ever put in place
  (\<open>Self_Update\<close>), attempts are bounded across failures and restarts (\<open>Updater\<close>) and spaced
  (\<open>Throttle\<close>, \<open>Agent_Loop\<close>). Of migrations: no start loses a row, and interrupted starts are made good
  by the next. Of the whole: whatever requests arrive and whatever fails, no bucket and no live series
  outlives its server as long as handlers run one after the other, nothing under \<open>/api/\<close> changes
  without the key (\<open>Mother_System\<close>); and a server that is added, rolled out to and removed goes
  through each of these to its end (\<open>Fleet\<close>, \<open>Fleet_Lifecycle\<close>).

  \<^bold>\<open>Interfaces.\<close> \<open>keyed_table\<close> (association lists, the settings table), \<open>committed\<close> (every write of the
  store that takes effect as a whole or not at all), \<open>throttle\<close> (the push, update and removal limits),
  \<open>strict_order\<close> (the version order on canonical versions), \<open>binary_source\<close> (what the index offers can
  be served).

  \<^bold>\<open>Parameters\<close>, which stand for code outside the repository: the operations of the sample type (no law
  of float arithmetic is assumed; where a law is needed the statement names it), the row id the engine
  chooses and the failure of any statement (\<open>alloc\<close>, \<open>faults\<close>), the order in which Go visits a map
  (\<open>ord\<close>, any permutation), \<open>net/url\<close>, \<open>time.ParseDuration\<close>, JSON decoding (an option), the HTTP hosts,
  SHA-256, the case mapping of a rune, the Go tool chain, gzip and tar, the rendering of the install
  template, every call into the file system, the clocks and random bytes. Each property that needs a
  fact about one of them has it as a hypothesis and a witness at a concrete instance.

  \<^bold>\<open>Bounds and termination.\<close> No fuel is used. Loops of the code are structural recursions over what they
  range over; the loops that do not end by themselves (the agent's rounds, the updater's ticks, the index
  poll) are functions of the list of their events, and the properties hold for lists of every length.
  Arithmetic that can overflow wraps in the model, and a property that needs it not to says so.

  \<^bold>\<open>Concurrency.\<close> A handler, a tick and a mutex-protected operation is one step. The steps of
  \<open>mother_step\<close> interleave these in any order; inside a handler other handlers are let in only in
  the last property of \<open>Mother_System\<close>, which shows what two of them can do to each other. The states of the
  catalogue a build passes through are all in its result, since readers see each of them.

  \<^bold>\<open>Not modelled.\<close> The shell installers and uninstallers, the systemd units, the end to end scripts and
  the tool that renders templates for them are not Go program logic; of the installer only the
  configuration file it writes occurs, of the uninstaller its last request. Constructors that only fill
  a struct, HTTP client timeouts, the connection pool settings of the Postgres collector, the graceful
  shutdown of \<open>net/http\<close>, logging, and the address the agent reports of itself (a reading of the host)
  have no state or decision to state a property of. A stored list of collectors that does not decode as
  JSON cannot be written by the program and does not occur in the tables.
\<close>

end
